(* ===== verification/CorsPrelude.thy ===== *)
theory CorsPrelude
  imports Main "HOL-Library.AList" "HOL-Library.Word"
begin

text \<open>
  Shared vocabulary of the development: bytes, Python dictionaries (association lists that keep
  insertion order, as Python's do), the exceptions the modelled code raises, the chaining of
  fallible computations, the "keep the newest n" window used by every bounded buffer of the
  program, Prometheus metric updates as values, and the generic notion of a reachable state with
  the locale that turns a one-step invariant into an invariant of every reachable state.
\<close>

section \<open>Bytes, dictionaries, exceptions\<close>

type_synonym byte = "8 word"
type_synonym bytes = "byte list"

text \<open>
  A dict is an association list with distinct keys: \<open>AList.update\<close> overwrites in place or
  appends, exactly as Python's insertion-ordered dict does; \<open>AList.delete\<close> is \<open>pop(k, None)\<close>.
\<close>

type_synonym ('k, 'v) dict = "('k \<times> 'v) list"

abbreviation dict_has :: "('k, 'v) dict \<Rightarrow> 'k \<Rightarrow> bool" where
  "dict_has d k \<equiv> map_of d k \<noteq> None"

abbreviation dict_ok :: "('k, 'v) dict \<Rightarrow> bool" where
  "dict_ok d \<equiv> distinct (map fst d)"

datatype py_error = KeyError string | ValueError | TypeError | AttributeError | AssertionError | OSError

named_theorems dict_simps \<open>lookups in updated dictionaries\<close>

lemma map_of_dict_set [dict_simps]: "map_of (AList.update k v d) = (map_of d)(k \<mapsto> v)"
  by (rule update_conv')

lemma map_of_dict_pop [dict_simps]: "map_of (AList.delete k d) = (map_of d)(k := None)"
  by (rule delete_conv')

lemma dict_ok_set [intro]: "dict_ok d \<Longrightarrow> dict_ok (AList.update k v d)"
  by (rule distinct_update)

lemma dict_ok_pop [intro]: "dict_ok d \<Longrightarrow> dict_ok (AList.delete k d)"
  by (rule distinct_delete)

lemma dict_set_Nil_iff [simp]: "AList.update k v d \<noteq> []"
  by (cases d) auto

lemma dict_nonempty_has: "d \<noteq> [] \<longleftrightarrow> (\<exists>k. dict_has d k)"
  by (cases d) auto

lemma map_of_Some_in_set: "dict_ok d \<Longrightarrow> map_of d k = Some v \<longleftrightarrow> (k, v) \<in> set d"
  by simp

text \<open>Insertion order: a new key goes to the end, an old one keeps its place.\<close>

lemma dict_set_keys:
  "map fst (AList.update k v d) = (if dict_has d k then map fst d else map fst d @ [k])"
proof (induction d)
  case Nil
  show ?case by simp
next
  case (Cons p d)
  then show ?case by (cases p) auto
qed

lemma dict_pop_keys: "map fst (AList.delete k d) = filter (\<lambda>k'. k' \<noteq> k) (map fst d)"
  by (induction d) auto

lemma dict_pop_absent [simp]: "map_of d k = None \<Longrightarrow> AList.delete k d = d"
  by (induction d) (auto split: if_splits)

lemma dict_pop_set_absent: "map_of d k = None \<Longrightarrow> AList.delete k (AList.update k v d) = d"
  by (induction d) (auto split: if_splits)

lemma dict_pop_length: "dict_ok d \<Longrightarrow> map_of d k \<noteq> None \<Longrightarrow> length (AList.delete k d) = length d - 1"
proof (induction d)
  case (Cons e d)
  show ?case
  proof (cases "fst e = k")
    case True
    with Cons.prems(1) have "map_of d k = None" by (auto simp: map_of_eq_None_iff)
    with True show ?thesis by simp
  next
    case False
    with Cons have "length (AList.delete k d) = length d - 1" "map_of d k \<noteq> None" by auto
    with False show ?thesis by (cases d) auto
  qed
qed simp

lemma dict_set_length: "map_of d k = None \<Longrightarrow> length (AList.update k v d) = Suc (length d)"
  using arg_cong [OF dict_set_keys [of k v d], of length] by simp

lemma mem_filtered_keys: "k \<in> set (map fst (filter P d)) \<longleftrightarrow> (\<exists>v. (k, v) \<in> set d \<and> P (k, v))"
  by force

section \<open>Fallible computations\<close>

text \<open>\<open>Inl\<close> is a raised exception; \<open>andThen\<close> runs the rest unless one was raised.\<close>

fun andThen :: "'e + 'a \<Rightarrow> ('a \<Rightarrow> 'e + 'b) \<Rightarrow> 'e + 'b" where
  "andThen (Inl e) f = Inl e"
| "andThen (Inr x) f = f x"

lemma andThen_Inr_iff: "andThen m f = Inr y \<longleftrightarrow> (\<exists>x. m = Inr x \<and> f x = Inr y)"
  by (cases m) auto

lemma andThen_Inl_iff: "andThen m f = Inl e \<longleftrightarrow> m = Inl e \<or> (\<exists>x. m = Inr x \<and> f x = Inl e)"
  by (cases m) auto

definition opt_default :: "'a \<Rightarrow> 'a option \<Rightarrow> 'a" where
  "opt_default d v = (case v of None \<Rightarrow> d | Some x \<Rightarrow> x)"

lemma opt_default_simps [simp]: "opt_default d None = d" "opt_default d (Some x) = x"
  by (simp_all add: opt_default_def)

section \<open>The newest n elements\<close>

definition keep_last :: "nat \<Rightarrow> 'a list \<Rightarrow> 'a list" where
  "keep_last n xs = drop (length xs - n) xs"

named_theorems window \<open>bounded windows: the newest elements of a stream\<close>

lemma keep_last_short [window]: "length xs \<le> n \<Longrightarrow> keep_last n xs = xs"
  by (simp add: keep_last_def)

lemma length_keep_last [window]: "length (keep_last n xs) = min n (length xs)"
  by (simp add: keep_last_def)

lemma keep_last_suffix: "\<exists>ys. xs = ys @ keep_last n xs"
  by (rule exI [of _ "take (length xs - n) xs"]) (simp add: keep_last_def)

lemma set_keep_last: "set (keep_last n xs) \<subseteq> set xs"
  by (simp add: keep_last_def set_drop_subset)

lemma keep_last_append [window]: "keep_last n (keep_last n xs @ ys) = keep_last n (xs @ ys)"
proof (cases "n \<le> length xs")
  case True
  then have "length ys + (length xs - n) = length xs + length ys - n" by simp
  with True show ?thesis by (simp add: keep_last_def)
next
  case False
  then show ?thesis by (simp add: keep_last_def)
qed

lemma keep_last_snoc_full [window]:
  "length xs = n \<Longrightarrow> 0 < n \<Longrightarrow> keep_last n (xs @ [x]) = tl xs @ [x]"
  by (cases xs) (auto simp: keep_last_def)

lemma keep_last_snoc_room [window]: "length xs < n \<Longrightarrow> keep_last n (xs @ [x]) = xs @ [x]"
  by (simp add: keep_last_def)

section \<open>Metrics\<close>

text \<open>
  The code updates Prometheus counters, gauges and histograms by name and label values. The model
  appends each update to a log; a counter's value is the sum of its increments.
\<close>

datatype 'r metric_op =
    MInc string "string list" int
  | MSet string "string list" 'r
  | MObserve string "string list" 'r

fun inc_of :: "string \<Rightarrow> string list \<Rightarrow> 'r metric_op \<Rightarrow> int" where
  "inc_of n ls (MInc n' ls' i) = (if n = n' \<and> ls = ls' then i else 0)"
| "inc_of n ls _ = 0"

definition counter_value :: "'r metric_op list \<Rightarrow> string \<Rightarrow> string list \<Rightarrow> int" where
  "counter_value log n ls = sum_list (map (inc_of n ls) log)"

lemma counter_value_Nil [simp]: "counter_value [] n ls = 0"
  by (simp add: counter_value_def)

lemma counter_value_append [simp]:
  "counter_value (l1 @ l2) n ls = counter_value l1 n ls + counter_value l2 n ls"
  by (simp add: counter_value_def)

lemma counter_value_Cons [simp]:
  "counter_value (m # l) n ls = inc_of n ls m + counter_value l n ls"
  by (simp add: counter_value_def)

section \<open>Reachable states\<close>

inductive reach :: "('s \<Rightarrow> bool) \<Rightarrow> ('s \<Rightarrow> 's \<Rightarrow> bool) \<Rightarrow> 's \<Rightarrow> bool"
  for start :: "'s \<Rightarrow> bool" and step :: "'s \<Rightarrow> 's \<Rightarrow> bool"
where
  reach_start: "start s \<Longrightarrow> reach start step s"
| reach_step: "reach start step s \<Longrightarrow> step s t \<Longrightarrow> reach start step t"

locale invariant_system =
  fixes start :: "'s \<Rightarrow> bool"
    and step :: "'s \<Rightarrow> 's \<Rightarrow> bool"
    and inv :: "'s \<Rightarrow> bool"
  assumes start_inv: "start s \<Longrightarrow> inv s"
    and step_inv: "inv s \<Longrightarrow> step s t \<Longrightarrow> inv t"
begin

lemma reach_inv: "reach start step s \<Longrightarrow> inv s"
  by (induction rule: reach.induct) (auto intro: start_inv step_inv)

lemma steps_inv: "step\<^sup>*\<^sup>* s t \<Longrightarrow> inv s \<Longrightarrow> inv t"
  by (induction rule: rtranclp_induct) (auto intro: step_inv)

end

section \<open>Runs and simulations\<close>

text \<open>
  A deterministic program that answers events, a specification that relates events, answers and
  abstract states, and the fact that a step-wise simulation carries over to whole runs.
\<close>

fun run_all :: "('e \<Rightarrow> 's \<Rightarrow> 'o \<times> 's) \<Rightarrow> 'e list \<Rightarrow> 's \<Rightarrow> 'o list \<times> 's" where
  "run_all step [] s = ([], s)"
| "run_all step (e # es) s =
     (case step e s of (out, s) \<Rightarrow> (case run_all step es s of (outs, s) \<Rightarrow> (out # outs, s)))"

inductive spec_run :: "('e \<Rightarrow> 'o \<Rightarrow> 'a \<Rightarrow> 'a \<Rightarrow> bool) \<Rightarrow> 'e list \<Rightarrow> 'o list \<Rightarrow> 'a \<Rightarrow> 'a \<Rightarrow> bool" for spec where
  spec_Nil: "spec_run spec [] [] a a"
| spec_Cons: "spec e out a b \<Longrightarrow> spec_run spec es outs b c \<Longrightarrow> spec_run spec (e # es) (out # outs) a c"

locale simulation =
  fixes step :: "'e \<Rightarrow> 's \<Rightarrow> 'o \<times> 's"
    and spec :: "'e \<Rightarrow> 'o \<Rightarrow> 'a \<Rightarrow> 'a \<Rightarrow> bool"
    and abstraction :: "'s \<Rightarrow> 'a"
    and inv :: "'s \<Rightarrow> bool"
  assumes simulated: "inv s \<Longrightarrow> step e s = (out, t) \<Longrightarrow> inv t \<and> spec e out (abstraction s) (abstraction t)"
begin

lemma run_simulated:
  "inv s \<Longrightarrow> run_all step es s = (outs, t) \<Longrightarrow> inv t \<and> spec_run spec es outs (abstraction s) (abstraction t)"
proof (induction es arbitrary: s outs t)
  case (Cons e es)
  obtain out u where e: "step e s = (out, u)" by force
  obtain outs' v where es: "run_all step es u = (outs', v)" by force
  have "inv u \<and> spec e out (abstraction s) (abstraction u)" using simulated [OF Cons.prems(1) e] .
  moreover from this have "inv v \<and> spec_run spec es outs' (abstraction u) (abstraction v)" using Cons.IH es by blast
  moreover have "outs = out # outs'" "t = v" using Cons.prems(2) e es by simp_all
  ultimately show ?case by (auto intro: spec_Cons)
qed (auto intro: spec_Nil)

end

end
