(* ===== verification/Transport.thy ===== *)
theory Transport
  imports CorsPrelude "HOL-Library.Sublist"
begin

text \<open>
  Frame delivery between one base station and its rovers (\<open>ntrip/v2/transport.py\<close>): the bounded
  per-rover queue of \<open>QueueTransportSubscriber\<close> and the fan-out of \<open>QueueTransport\<close>. Subscriber
  objects live in a store addressed by numbers, because a rover keeps its subscriber after the
  transport has dropped it. The contract every transport promises the caster is the locale
  \<open>transport_contract\<close>, interpreted here on the queue transport.
\<close>

section \<open>One subscriber\<close>

datatype 'f qitem = Frame 'f | Sentinel

text \<open>
  \<open>sq_unfinished\<close> is the counter of asyncio.Queue behind \<open>task_done\<close>: every put raises it,
  \<open>task_done\<close> lowers it and raises ValueError at zero.
\<close>

record 'f subscriber =
  sq_queue :: "'f qitem list"
  sq_unfinished :: nat
  sq_cancelled :: bool

definition QUEUE_MAXSIZE :: nat where
  "QUEUE_MAXSIZE = 15"

definition new_subscriber :: "'f subscriber" where
  "new_subscriber = \<lparr>sq_queue = [], sq_unfinished = 0, sq_cancelled = False\<rparr>"

definition q_full :: "'f subscriber \<Rightarrow> bool" where
  "q_full s \<longleftrightarrow> QUEUE_MAXSIZE \<le> length (sq_queue s)"

text \<open>asyncio.Queue: \<open>put_nowait\<close> (None is QueueFull), \<open>get_nowait\<close> (None is QueueEmpty), \<open>task_done\<close>.\<close>

definition put_nowait :: "'f qitem \<Rightarrow> 'f subscriber \<Rightarrow> 'f subscriber option" where
  "put_nowait x s =
     (if q_full s then None
      else Some (s\<lparr>sq_queue := sq_queue s @ [x], sq_unfinished := Suc (sq_unfinished s)\<rparr>))"

definition get_nowait :: "'f subscriber \<Rightarrow> ('f qitem \<times> 'f subscriber) option" where
  "get_nowait s = (case sq_queue s of [] \<Rightarrow> None | x # q \<Rightarrow> Some (x, s\<lparr>sq_queue := q\<rparr>))"

definition task_done :: "'f subscriber \<Rightarrow> py_error + 'f subscriber" where
  "task_done s =
     (if sq_unfinished s = 0 then Inl ValueError
      else Inr (s\<lparr>sq_unfinished := sq_unfinished s - 1\<rparr>))"

text \<open>\<open>_signal_done\<close>: a full queue swallows the sentinel.\<close>

definition signal_done :: "'f subscriber \<Rightarrow> 'f subscriber" where
  "signal_done s =
     (let s' = s\<lparr>sq_cancelled := True\<rparr> in
      case put_nowait Sentinel s' of None \<Rightarrow> s' | Some s'' \<Rightarrow> s'')"

text \<open>\<open>drain\<close>: the loop stops early if \<open>task_done\<close> raises.\<close>

function sub_drain :: "'f subscriber \<Rightarrow> 'f subscriber" where
  "sub_drain s =
     (case get_nowait s of
        None \<Rightarrow> s
      | Some (x, s1) \<Rightarrow> (case task_done s1 of Inl e \<Rightarrow> s1 | Inr s2 \<Rightarrow> sub_drain s2))"
  by pat_completeness auto
termination
  by (relation "measure (\<lambda>s. length (sq_queue s))")
     (auto simp: get_nowait_def task_done_def split: list.splits if_splits)

declare sub_drain.simps [simp del]

definition sub_cleanup :: "'f subscriber \<Rightarrow> 'f subscriber" where
  "sub_cleanup s = signal_done (sub_drain (s\<lparr>sq_cancelled := True\<rparr>))"

definition sub_shutdown :: "'f subscriber \<Rightarrow> 'f subscriber" where
  "sub_shutdown s = (if sq_cancelled s then s else sub_cleanup s)"

definition sub_publish :: "'f \<Rightarrow> 'f subscriber \<Rightarrow> bool \<times> 'f subscriber" where
  "sub_publish frame s =
     (if sq_cancelled s then (False, s)
      else
        let s1 = (if q_full s then (case get_nowait s of None \<Rightarrow> s | Some (_, s') \<Rightarrow> s') else s) in
        (case put_nowait (Frame frame) s1 of None \<Rightarrow> (False, s1) | Some s2 \<Rightarrow> (True, s2)))"

text \<open>
  \<open>get\<close> has a suspension point. \<open>sub_get\<close> is the call: it returns None at once on a cancelled
  subscriber and otherwise waits. \<open>sub_get_resume\<close> is what happens when the wait on the queue can
  go on; with an empty queue it stays blocked. A timeout leaves the subscriber as it is; the
  cancellation of the waiting task marks it cancelled (\<open>sub_get_cancelled\<close>).
\<close>

datatype 'f get_outcome = Delivered 'f | Ended | Blocked | Raised py_error

definition sub_get_resume :: "'f subscriber \<Rightarrow> 'f get_outcome \<times> 'f subscriber" where
  "sub_get_resume s =
     (case get_nowait s of
        None \<Rightarrow> (Blocked, s)
      | Some (Frame f, s1) \<Rightarrow> (Delivered f, s1)
      | Some (Sentinel, s1) \<Rightarrow>
          (case task_done s1 of Inl e \<Rightarrow> (Raised e, s1) | Inr s2 \<Rightarrow> (Ended, s2)))"

definition sub_get :: "'f subscriber \<Rightarrow> 'f get_outcome \<times> 'f subscriber" where
  "sub_get s = (if sq_cancelled s then (Ended, s) else sub_get_resume s)"

definition sub_get_cancelled :: "'f subscriber \<Rightarrow> 'f subscriber" where
  "sub_get_cancelled s = s\<lparr>sq_cancelled := True\<rparr>"

subsection \<open>The subscriber invariant\<close>

text \<open>
  The queue is bounded, \<open>task_done\<close> is never called too often, and a live subscriber's queue holds
  frames only.
\<close>

definition sub_ok :: "'f subscriber \<Rightarrow> bool" where
  "sub_ok s \<longleftrightarrow> length (sq_queue s) \<le> QUEUE_MAXSIZE \<and> length (sq_queue s) \<le> sq_unfinished s \<and>
     (\<not> sq_cancelled s \<longrightarrow> Sentinel \<notin> set (sq_queue s))"

named_theorems sub_defs \<open>definitions of the subscriber's operations\<close>

lemmas queue_defs [sub_defs] = put_nowait_def get_nowait_def task_done_def q_full_def QUEUE_MAXSIZE_def

lemma sub_ok_new [simp]: "sub_ok new_subscriber"
  by (simp add: sub_ok_def new_subscriber_def)

lemma drain_result:
  assumes "length (sq_queue s) \<le> sq_unfinished s"
  shows "sub_drain s = s\<lparr>sq_queue := [], sq_unfinished := sq_unfinished s - length (sq_queue s)\<rparr>"
  using assms
proof (induction s rule: sub_drain.induct)
  case (1 s)
  show ?case
  proof (cases "sq_queue s")
    case Nil
    then show ?thesis by (subst sub_drain.simps) (simp add: get_nowait_def)
  next
    case (Cons x q)
    let ?s1 = "s\<lparr>sq_queue := q\<rparr>"
    let ?s2 = "?s1\<lparr>sq_unfinished := sq_unfinished s - 1\<rparr>"
    from Cons have get: "get_nowait s = Some (x, ?s1)" by (simp add: get_nowait_def)
    from Cons 1(2) have td: "task_done ?s1 = Inr ?s2" by (simp add: task_done_def)
    have "sub_drain ?s2 = ?s2\<lparr>sq_queue := [], sq_unfinished := sq_unfinished ?s2 - length (sq_queue ?s2)\<rparr>"
      using Cons "1.prems" by (intro "1.IH" [OF get _ td]) auto
    then show ?thesis
      using Cons by (subst sub_drain.simps) (simp add: get td)
  qed
qed

lemma cleanup_result:
  assumes "sub_ok s"
  shows "sub_cleanup s =
    \<lparr>sq_queue = [Sentinel], sq_unfinished = Suc (sq_unfinished s - length (sq_queue s)), sq_cancelled = True\<rparr>"
  using assms
  by (simp add: sub_cleanup_def signal_done_def sub_ok_def drain_result sub_defs Let_def)

lemma sub_ok_cleanup: "sub_ok s \<Longrightarrow> sub_ok (sub_cleanup s)"
  by (simp add: cleanup_result) (simp add: sub_ok_def QUEUE_MAXSIZE_def)

lemma sub_ok_shutdown: "sub_ok s \<Longrightarrow> sub_ok (sub_shutdown s)"
  by (simp add: sub_shutdown_def sub_ok_cleanup)

lemma shutdown_cancelled [simp]: "sub_ok s \<Longrightarrow> sq_cancelled (sub_shutdown s)"
  by (simp add: sub_shutdown_def cleanup_result)

text \<open>Publishing to a live subscriber always succeeds: it appends, evicting the oldest if full.\<close>

lemma sub_publish_live:
  assumes "sub_ok s" "\<not> sq_cancelled s"
  shows "sub_publish f s =
    (True, s\<lparr>sq_queue := keep_last QUEUE_MAXSIZE (sq_queue s @ [Frame f]), sq_unfinished := Suc (sq_unfinished s)\<rparr>)"
proof (cases "q_full s")
  case True
  with assms have len: "length (sq_queue s) = QUEUE_MAXSIZE" by (simp add: sub_ok_def q_full_def)
  then obtain x q where q: "sq_queue s = x # q" by (cases "sq_queue s") (auto simp: QUEUE_MAXSIZE_def)
  have "keep_last QUEUE_MAXSIZE (sq_queue s @ [Frame f]) = tl (sq_queue s) @ [Frame f]"
    using len by (rule keep_last_snoc_full) (simp add: QUEUE_MAXSIZE_def)
  with q len assms True show ?thesis
    by (simp add: sub_publish_def Let_def get_nowait_def) (simp add: put_nowait_def q_full_def)
next
  case False
  with assms show ?thesis
    by (simp add: sub_publish_def put_nowait_def keep_last_snoc_room q_full_def Let_def)
qed

lemma sub_publish_cancelled [simp]: "sq_cancelled s \<Longrightarrow> sub_publish f s = (False, s)"
  by (simp add: sub_publish_def)

lemma sub_publish_fst: "sub_ok s \<Longrightarrow> fst (sub_publish f s) \<longleftrightarrow> \<not> sq_cancelled s"
  by (cases "sq_cancelled s") (simp_all add: sub_publish_live)

lemma sub_publish_same_cancelled [simp]:
  "sub_ok s \<Longrightarrow> sq_cancelled (snd (sub_publish f s)) = sq_cancelled s"
  by (cases "sq_cancelled s") (simp_all add: sub_publish_live)

lemma sub_ok_publish: "sub_ok s \<Longrightarrow> sub_ok (snd (sub_publish f s))"
proof (cases "sq_cancelled s")
  case False
  assume ok: "sub_ok s"
  have "set (keep_last QUEUE_MAXSIZE (sq_queue s @ [Frame f])) \<subseteq> insert (Frame f) (set (sq_queue s))"
    using set_keep_last by fastforce
  with ok False show ?thesis
    by (auto simp: sub_publish_live length_keep_last) (auto simp: sub_ok_def length_keep_last)
qed simp

lemma sub_ok_get: "sub_ok s \<Longrightarrow> sub_ok (snd (sub_get s))"
  by (auto simp: sub_get_def sub_get_resume_def sub_ok_def sub_defs split: list.splits qitem.splits)

lemma sub_get_no_error: "sub_ok s \<Longrightarrow> fst (sub_get s) \<noteq> Raised e"
  by (auto simp: sub_get_def sub_get_resume_def sub_ok_def sub_defs split: list.splits qitem.splits)

lemma sub_ok_get_cancelled: "sub_ok s \<Longrightarrow> sub_ok (sub_get_cancelled s)"
  by (simp add: sub_ok_def sub_get_cancelled_def)

section \<open>The transport\<close>

text \<open>
  \<open>tq_queues\<close> is the list \<open>_queues\<close>; \<open>tq_subs\<close> stores the subscriber objects by number;
  \<open>tq_closing\<close> holds the subscribers whose \<open>shutdown\<close> coroutine \<open>asyncio.gather\<close> has scheduled
  but the event loop has not run yet.
\<close>

record 'f queue_transport =
  tq_queues :: "nat list"
  tq_subs :: "nat \<rightharpoonup> 'f subscriber"
  tq_next :: nat
  tq_closing :: "nat list"

definition new_transport :: "'f queue_transport" where
  "new_transport = \<lparr>tq_queues = [], tq_subs = Map.empty, tq_next = 0, tq_closing = []\<rparr>"

definition subscriber_count :: "'f queue_transport \<Rightarrow> nat" where
  "subscriber_count t = length (tq_queues t)"

definition queue_depth :: "'f queue_transport \<Rightarrow> nat" where
  "queue_depth t =
     sum_list (map (\<lambda>i. case tq_subs t i of None \<Rightarrow> 0 | Some s \<Rightarrow> length (sq_queue s)) (tq_queues t))"

definition upd_sub :: "nat \<Rightarrow> ('f subscriber \<Rightarrow> 'f subscriber) \<Rightarrow> 'f queue_transport \<Rightarrow> 'f queue_transport" where
  "upd_sub i g t = t\<lparr>tq_subs := (tq_subs t)(i := map_option g (tq_subs t i))\<rparr>"

text \<open>\<open>subscribe\<close>: the part before the yield, and the \<open>finally\<close> part after it.\<close>

definition tq_subscribe :: "'f queue_transport \<Rightarrow> nat \<times> 'f queue_transport" where
  "tq_subscribe t =
     (tq_next t,
      t\<lparr>tq_queues := tq_queues t @ [tq_next t],
        tq_subs := (tq_subs t)(tq_next t \<mapsto> new_subscriber),
        tq_next := Suc (tq_next t)\<rparr>)"

definition tq_unsubscribe :: "nat \<Rightarrow> 'f queue_transport \<Rightarrow> 'f queue_transport" where
  "tq_unsubscribe i t = upd_sub i sub_shutdown (t\<lparr>tq_queues := remove1 i (tq_queues t)\<rparr>)"

text \<open>
  \<open>shutdown\<close>: the list is detached at once, the subscribers' coroutines run as scheduled tasks, in
  any interleaving with other tasks.
\<close>

definition tq_shutdown_begin :: "'f queue_transport \<Rightarrow> 'f queue_transport" where
  "tq_shutdown_begin t = t\<lparr>tq_queues := [], tq_closing := tq_closing t @ tq_queues t\<rparr>"

definition tq_shutdown_task :: "nat \<Rightarrow> 'f queue_transport \<Rightarrow> 'f queue_transport" where
  "tq_shutdown_task i t = upd_sub i sub_shutdown (t\<lparr>tq_closing := remove1 i (tq_closing t)\<rparr>)"

definition tq_shutdown :: "'f queue_transport \<Rightarrow> 'f queue_transport" where
  "tq_shutdown t = fold tq_shutdown_task (tq_queues t) (tq_shutdown_begin t)"

text \<open>\<open>publish\<close>: the synchronous fan-out over a snapshot of the list.\<close>

fun publish_each ::
  "'f \<Rightarrow> nat list \<Rightarrow> (nat \<rightharpoonup> 'f subscriber) \<Rightarrow> nat \<times> (nat \<rightharpoonup> 'f subscriber)" where
  "publish_each f [] m = (0, m)"
| "publish_each f (i # is) m =
     (case m i of
        None \<Rightarrow> publish_each f is m
      | Some s \<Rightarrow>
          (case sub_publish f s of
             (ok, s') \<Rightarrow>
               (case publish_each f is (m(i \<mapsto> s')) of
                  (acks, m') \<Rightarrow> ((if ok then Suc acks else acks), m'))))"

definition tq_publish :: "'f \<Rightarrow> 'f queue_transport \<Rightarrow> nat \<times> 'f queue_transport" where
  "tq_publish f t =
     (if tq_queues t = [] then (0, t)
      else case publish_each f (tq_queues t) (tq_subs t) of (acks, m) \<Rightarrow> (acks, t\<lparr>tq_subs := m\<rparr>))"

definition tq_get :: "nat \<Rightarrow> 'f queue_transport \<Rightarrow> 'f get_outcome \<times> 'f queue_transport" where
  "tq_get i t =
     (case tq_subs t i of
        None \<Rightarrow> (Blocked, t)
      | Some s \<Rightarrow> (case sub_get s of (r, s') \<Rightarrow> (r, t\<lparr>tq_subs := (tq_subs t)(i \<mapsto> s')\<rparr>)))"

subsection \<open>The transport invariant\<close>

definition tq_ok :: "'f queue_transport \<Rightarrow> bool" where
  "tq_ok t \<longleftrightarrow> distinct (tq_queues t) \<and> set (tq_queues t) \<subseteq> dom (tq_subs t) \<and>
     (\<forall>i. tq_next t \<le> i \<longrightarrow> tq_subs t i = None) \<and> (\<forall>s \<in> ran (tq_subs t). sub_ok s)"

definition live_sub :: "'f queue_transport \<Rightarrow> nat \<Rightarrow> bool" where
  "live_sub t i \<longleftrightarrow> (\<exists>s. tq_subs t i = Some s \<and> \<not> sq_cancelled s)"

text \<open>The subscribers a published frame reaches.\<close>

definition tq_active :: "'f queue_transport \<Rightarrow> nat set" where
  "tq_active t = {i \<in> set (tq_queues t). live_sub t i}"

lemma tq_ok_new [simp]: "tq_ok new_transport"
  by (simp add: tq_ok_def new_transport_def)

lemma tq_active_new [simp]: "tq_active new_transport = {}"
  by (simp add: tq_active_def new_transport_def)

lemma finite_active [simp]: "finite (tq_active t)"
  by (simp add: tq_active_def)

lemma tq_ok_sub: "tq_ok t \<Longrightarrow> tq_subs t i = Some s \<Longrightarrow> sub_ok s"
  by (auto simp: tq_ok_def ran_def)

lemma tq_ok_upd_sub:
  assumes "tq_ok t" "\<And>s. sub_ok s \<Longrightarrow> sub_ok (g s)"
  shows "tq_ok (upd_sub i g t)"
  using assms unfolding tq_ok_def upd_sub_def by (auto simp: ran_def dom_def split: if_splits)

lemma tq_ok_queues:
  "tq_ok t \<Longrightarrow> distinct q \<Longrightarrow> set q \<subseteq> set (tq_queues t) \<Longrightarrow> tq_ok (t\<lparr>tq_queues := q, tq_closing := c\<rparr>)"
  "tq_ok t \<Longrightarrow> distinct q \<Longrightarrow> set q \<subseteq> set (tq_queues t) \<Longrightarrow> tq_ok (t\<lparr>tq_queues := q\<rparr>)"
  "tq_ok t \<Longrightarrow> tq_ok (t\<lparr>tq_closing := c\<rparr>)"
  by (auto simp: tq_ok_def)

lemma tq_ok_subscribe: "tq_ok t \<Longrightarrow> tq_ok (snd (tq_subscribe t))"
  by (auto simp: tq_ok_def tq_subscribe_def ran_def dom_def split: if_splits)

lemma tq_active_subscribe:
  "tq_ok t \<Longrightarrow> tq_active (snd (tq_subscribe t)) = insert (fst (tq_subscribe t)) (tq_active t)"
  by (auto simp: tq_active_def tq_subscribe_def live_sub_def new_subscriber_def tq_ok_def)

lemma fresh_subscribe: "tq_ok t \<Longrightarrow> fst (tq_subscribe t) \<notin> set (tq_queues t)"
  by (auto simp: tq_subscribe_def tq_ok_def)

lemma tq_ok_unsubscribe: "tq_ok t \<Longrightarrow> tq_ok (tq_unsubscribe i t)"
  unfolding tq_unsubscribe_def
  by (intro tq_ok_upd_sub tq_ok_queues sub_ok_shutdown) (auto simp: tq_ok_def dest: notin_set_remove1)

lemma live_sub_upd_shutdown:
  "tq_ok t \<Longrightarrow> live_sub (upd_sub i sub_shutdown t) j \<longleftrightarrow> j \<noteq> i \<and> live_sub t j"
  by (auto simp: live_sub_def upd_sub_def dest: tq_ok_sub)

lemma live_sub_queues [simp]:
  "live_sub (t\<lparr>tq_queues := q\<rparr>) = live_sub t" "live_sub (t\<lparr>tq_closing := c\<rparr>) = live_sub t"
  "live_sub (t\<lparr>tq_queues := q, tq_closing := c\<rparr>) = live_sub t"
  by (simp_all add: live_sub_def fun_eq_iff)

lemma tq_active_unsubscribe: "tq_ok t \<Longrightarrow> tq_active (tq_unsubscribe i t) = tq_active t - {i}"
proof -
  assume ok: "tq_ok t"
  then have "tq_ok (t\<lparr>tq_queues := remove1 i (tq_queues t)\<rparr>)"
    by (intro tq_ok_queues) (auto simp: tq_ok_def dest: notin_set_remove1)
  with ok show ?thesis
    by (auto simp: tq_active_def tq_unsubscribe_def live_sub_upd_shutdown)
       (auto simp: upd_sub_def tq_ok_def)
qed

subsection \<open>Publishing\<close>

definition live_in :: "(nat \<rightharpoonup> 'f subscriber) \<Rightarrow> nat \<Rightarrow> bool" where
  "live_in m i \<longleftrightarrow> (case m i of None \<Rightarrow> False | Some s \<Rightarrow> \<not> sq_cancelled s)"

lemma live_in_live_sub: "live_in (tq_subs t) = live_sub t"
  by (auto simp: live_in_def live_sub_def fun_eq_iff split: option.splits)

lemma publish_each_result:
  assumes "distinct is" "\<forall>i \<in> set is. \<exists>s. m i = Some s \<and> sub_ok s"
  shows "publish_each f is m =
    (length (filter (live_in m) is),
     (\<lambda>i. if i \<in> set is then map_option (\<lambda>s. snd (sub_publish f s)) (m i) else m i))"
  using assms
proof (induction "is" arbitrary: m)
  case Nil
  then show ?case by simp
next
  case (Cons i "is")
  then obtain s where s: "m i = Some s" "sub_ok s" by auto
  obtain ok s' where p: "sub_publish f s = (ok, s')" by fastforce
  let ?m = "m(i \<mapsto> s')"
  have "\<forall>j \<in> set is. \<exists>s. ?m j = Some s \<and> sub_ok s"
    using Cons.prems by auto
  with Cons.prems have "publish_each f is ?m =
     (length (filter (live_in ?m) is),
      (\<lambda>j. if j \<in> set is then map_option (\<lambda>s. snd (sub_publish f s)) (?m j) else ?m j))"
    by (intro Cons.IH) auto
  moreover have "filter (live_in ?m) is = filter (live_in m) is"
    using Cons.prems(1) by (intro filter_cong) (auto simp: live_in_def)
  moreover have "ok \<longleftrightarrow> live_in m i"
    using s p sub_publish_fst [OF s(2), of f] by (simp add: live_in_def)
  ultimately show ?case
    using s p Cons.prems(1) by (auto simp: fun_eq_iff)
qed

lemma tq_publish_result:
  assumes "tq_ok t"
  shows "tq_publish f t =
    (card (tq_active t),
     t\<lparr>tq_subs := (\<lambda>i. if i \<in> set (tq_queues t) then map_option (\<lambda>s. snd (sub_publish f s)) (tq_subs t i)
                       else tq_subs t i)\<rparr>)"
proof (cases "tq_queues t = []")
  case True
  then show ?thesis by (simp add: tq_publish_def tq_active_def)
next
  case False
  from assms have d: "distinct (tq_queues t)" by (simp add: tq_ok_def)
  have "\<forall>i \<in> set (tq_queues t). \<exists>s. tq_subs t i = Some s \<and> sub_ok s"
    using assms by (meson domD subsetD tq_ok_def tq_ok_sub)
  note pe = publish_each_result [OF d this, of f]
  have "distinct (filter (live_sub t) (tq_queues t))" using d by simp
  then have "length (filter (live_sub t) (tq_queues t)) = card (set (filter (live_sub t) (tq_queues t)))"
    by (simp only: distinct_card)
  also have "set (filter (live_sub t) (tq_queues t)) = tq_active t"
    by (auto simp: tq_active_def)
  finally have "length (filter (live_sub t) (tq_queues t)) = card (tq_active t)" .
  with False show ?thesis
    by (simp add: tq_publish_def pe live_in_live_sub)
qed

lemma tq_ok_publish: "tq_ok t \<Longrightarrow> tq_ok (snd (tq_publish f t))"
  by (auto simp: tq_publish_result tq_ok_def ran_def dom_def sub_ok_publish split: if_splits)

lemma live_sub_publish: "tq_ok t \<Longrightarrow> live_sub (snd (tq_publish f t)) i \<longleftrightarrow> live_sub t i"
  by (auto simp: tq_publish_result live_sub_def tq_ok_sub)

lemma tq_queues_publish [simp]: "tq_queues (snd (tq_publish f t)) = tq_queues t"
  by (simp add: tq_publish_def case_prod_beta)

lemma tq_active_publish: "tq_ok t \<Longrightarrow> tq_active (snd (tq_publish f t)) = tq_active t"
  by (auto simp: tq_active_def live_sub_publish)

lemma publish_acks_active: "tq_ok t \<Longrightarrow> fst (tq_publish f t) = card (tq_active t)"
  by (simp add: tq_publish_result)

lemma fresh_active: "tq_ok t \<Longrightarrow> fst (tq_subscribe t) \<notin> tq_active t"
  by (auto simp: tq_active_def dest: fresh_subscribe)

subsection \<open>Shutting down\<close>

lemma tq_ok_shutdown_begin: "tq_ok t \<Longrightarrow> tq_ok (tq_shutdown_begin t)"
  by (simp add: tq_shutdown_begin_def tq_ok_queues)

lemma tq_ok_shutdown_task: "tq_ok t \<Longrightarrow> tq_ok (tq_shutdown_task i t)"
  unfolding tq_shutdown_task_def by (intro tq_ok_upd_sub tq_ok_queues sub_ok_shutdown)

lemma shutdown_task_frame [simp]:
  "tq_queues (tq_shutdown_task i t) = tq_queues t"
  "tq_closing (tq_shutdown_task i t) = remove1 i (tq_closing t)"
  by (simp_all add: tq_shutdown_task_def upd_sub_def)

lemma live_shutdown_task: "tq_ok t \<Longrightarrow> live_sub (tq_shutdown_task i t) j \<longleftrightarrow> j \<noteq> i \<and> live_sub t j"
  by (simp add: tq_shutdown_task_def live_sub_upd_shutdown tq_ok_queues)

lemma shutdown_tasks:
  assumes "tq_ok t"
  shows "tq_ok (fold tq_shutdown_task is t) \<and>
     tq_queues (fold tq_shutdown_task is t) = tq_queues t \<and>
     (\<forall>j. live_sub (fold tq_shutdown_task is t) j \<longleftrightarrow> j \<notin> set is \<and> live_sub t j)"
  using assms
  by (induction "is" arbitrary: t) (auto simp: tq_ok_shutdown_task live_shutdown_task)

lemma tq_ok_shutdown: "tq_ok t \<Longrightarrow> tq_ok (tq_shutdown t)"
  by (simp add: tq_shutdown_def shutdown_tasks tq_ok_shutdown_begin)

lemma tq_queues_shutdown [simp]: "tq_ok t \<Longrightarrow> tq_queues (tq_shutdown t) = []"
  by (simp add: tq_shutdown_def shutdown_tasks tq_ok_shutdown_begin) (simp add: tq_shutdown_begin_def)

lemma live_sub_shutdown:
  "tq_ok t \<Longrightarrow> live_sub (tq_shutdown t) j \<longleftrightarrow> j \<notin> set (tq_queues t) \<and> live_sub t j"
  by (simp add: tq_shutdown_def shutdown_tasks tq_ok_shutdown_begin) (simp add: tq_shutdown_begin_def)

lemma tq_active_shutdown: "tq_ok t \<Longrightarrow> tq_active (tq_shutdown t) = {}"
  by (simp add: tq_active_def)

lemma tq_ok_get: "tq_ok t \<Longrightarrow> tq_ok (snd (tq_get i t))"
  by (auto simp: tq_get_def tq_ok_def case_prod_beta ran_def dom_def intro!: sub_ok_get
      split: option.splits if_splits)

section \<open>The contract of a transport\<close>

text \<open>
  What \<open>class Transport(ABC)\<close> promises the caster: \<open>publish\<close> reaches every active subscriber and
  returns their number, subscribing and unsubscribing change the active set by one, \<open>shutdown\<close>
  empties it.
\<close>

locale transport_contract =
  fixes create :: 't
    and publish :: "'f \<Rightarrow> 't \<Rightarrow> nat \<times> 't"
    and subscribe :: "'t \<Rightarrow> nat \<times> 't"
    and unsubscribe :: "nat \<Rightarrow> 't \<Rightarrow> 't"
    and shutdown :: "'t \<Rightarrow> 't"
    and active :: "'t \<Rightarrow> nat set"
    and ok :: "'t \<Rightarrow> bool"
  assumes ok_create: "ok create" and active_create: "active create = {}"
    and finite_active: "ok t \<Longrightarrow> finite (active t)"
    and ok_publish: "ok t \<Longrightarrow> ok (snd (publish f t))"
    and publish_acks: "ok t \<Longrightarrow> fst (publish f t) = card (active t)"
    and active_publish: "ok t \<Longrightarrow> active (snd (publish f t)) = active t"
    and ok_subscribe: "ok t \<Longrightarrow> ok (snd (subscribe t))"
    and fresh_subscribe: "ok t \<Longrightarrow> fst (subscribe t) \<notin> active t"
    and active_subscribe: "ok t \<Longrightarrow> active (snd (subscribe t)) = insert (fst (subscribe t)) (active t)"
    and ok_unsubscribe: "ok t \<Longrightarrow> ok (unsubscribe i t)"
    and active_unsubscribe: "ok t \<Longrightarrow> active (unsubscribe i t) = active t - {i}"
    and ok_shutdown: "ok t \<Longrightarrow> ok (shutdown t)"
    and active_shutdown: "ok t \<Longrightarrow> active (shutdown t) = {}"
begin

lemma publish_after_shutdown: "ok t \<Longrightarrow> fst (publish f (shutdown t)) = 0"
  by (simp add: publish_acks ok_shutdown active_shutdown)

lemma subscribe_adds_one: "ok t \<Longrightarrow> fst (publish f (snd (subscribe t))) = Suc (fst (publish f t))"
  by (simp add: publish_acks ok_subscribe active_subscribe fresh_subscribe finite_active)

lemma subscribe_unsubscribe:
  "ok t \<Longrightarrow> fst (publish f (unsubscribe (fst (subscribe t)) (snd (subscribe t)))) = fst (publish f t)"
  by (simp add: publish_acks ok_subscribe active_subscribe ok_unsubscribe active_unsubscribe fresh_subscribe)

fun publish_all :: "'f list \<Rightarrow> 't \<Rightarrow> nat \<times> 't" where
  "publish_all [] t = (0, t)"
| "publish_all (f # fs) t =
     (case publish f t of (n, t') \<Rightarrow> (case publish_all fs t' of (m, t'') \<Rightarrow> (n + m, t'')))"

lemma publish_all_acks: "ok t \<Longrightarrow> fst (publish_all fs t) = length fs * card (active t)"
proof (induction fs arbitrary: t)
  case (Cons f fs)
  have "fst (publish_all fs (snd (publish f t))) = length fs * card (active t)"
    using Cons by (simp add: ok_publish active_publish)
  with Cons.prems show ?case
    by (simp add: case_prod_beta publish_acks)
qed simp

end

interpretation qt: transport_contract new_transport tq_publish tq_subscribe tq_unsubscribe
  tq_shutdown tq_active tq_ok
  by unfold_locales
     (simp_all add: tq_ok_publish tq_active_publish tq_ok_subscribe tq_active_subscribe
       tq_ok_unsubscribe tq_active_unsubscribe tq_ok_shutdown tq_active_shutdown
       publish_acks_active fresh_active)

section \<open>Every interleaving of transport operations\<close>

inductive tq_step :: "'f queue_transport \<Rightarrow> 'f queue_transport \<Rightarrow> bool" where
  publish: "tq_step t (snd (tq_publish f t))"
| subscribe: "tq_step t (snd (tq_subscribe t))"
| unsubscribe: "tq_step t (tq_unsubscribe i t)"
| get: "tq_step t (snd (tq_get i t))"
| resume: "tq_step t (upd_sub i (\<lambda>s. snd (sub_get_resume s)) t)"
| get_cancelled: "tq_step t (upd_sub i sub_get_cancelled t)"
| shutdown_begin: "tq_step t (tq_shutdown_begin t)"
| shutdown_task: "i \<in> set (tq_closing t) \<Longrightarrow> tq_step t (tq_shutdown_task i t)"

inductive_cases tq_step_cases: "tq_step t u"

lemma sub_ok_resume: "sub_ok s \<Longrightarrow> sub_ok (snd (sub_get_resume s))"
  by (auto simp: sub_get_resume_def sub_ok_def sub_defs split: list.splits qitem.splits)

lemmas tq_ok_ops = tq_ok_publish tq_ok_subscribe tq_ok_unsubscribe tq_ok_get tq_ok_shutdown_begin
  tq_ok_shutdown_task

lemma tq_step_ok: "tq_ok t \<Longrightarrow> tq_step t u \<Longrightarrow> tq_ok u"
  by (erule tq_step_cases)
     (auto intro: tq_ok_ops tq_ok_upd_sub sub_ok_resume sub_ok_get_cancelled)

interpretation tq_sys: invariant_system "\<lambda>t. t = new_transport" tq_step tq_ok
  by unfold_locales (auto intro: tq_step_ok)

lemma queue_depth_bound: "tq_ok t \<Longrightarrow> queue_depth t \<le> QUEUE_MAXSIZE * subscriber_count t"
proof -
  assume ok: "tq_ok t"
  let ?d = "\<lambda>i. case tq_subs t i of None \<Rightarrow> 0 | Some s \<Rightarrow> length (sq_queue s)"
  have "?d i \<le> QUEUE_MAXSIZE" for i
    using tq_ok_sub [OF ok, of i] by (auto simp: sub_ok_def split: option.splits)
  then have "sum_list (map ?d is) \<le> QUEUE_MAXSIZE * length is" for "is"
    by (induction "is") (auto simp: add_mono)
  then show ?thesis by (simp add: queue_depth_def subscriber_count_def)
qed

lemma tq_get_no_error: "tq_ok t \<Longrightarrow> fst (tq_get i t) \<noteq> Raised e"
  using sub_get_no_error [OF tq_ok_sub, of t i _ e]
  by (auto simp: tq_get_def case_prod_beta split: option.splits)

section \<open>Order of delivery\<close>

datatype 'f rover_event = EPublish 'f | EGet | EResume | ECancel | EShutdown

fun sub_event :: "'f rover_event \<Rightarrow> 'f subscriber \<Rightarrow> 'f list \<times> 'f subscriber" where
  "sub_event (EPublish f) s = ([], snd (sub_publish f s))"
| "sub_event EGet s = (case sub_get s of (Delivered f, s') \<Rightarrow> ([f], s') | (_, s') \<Rightarrow> ([], s'))"
| "sub_event EResume s = (case sub_get_resume s of (Delivered f, s') \<Rightarrow> ([f], s') | (_, s') \<Rightarrow> ([], s'))"
| "sub_event ECancel s = ([], sub_get_cancelled s)"
| "sub_event EShutdown s = ([], sub_shutdown s)"

fun sub_run :: "'f rover_event list \<Rightarrow> 'f subscriber \<Rightarrow> 'f list" where
  "sub_run [] s = []"
| "sub_run (e # es) s = (case sub_event e s of (out, s') \<Rightarrow> out @ sub_run es s')"

fun published :: "'f rover_event list \<Rightarrow> 'f list" where
  "published [] = []"
| "published (EPublish f # es) = f # published es"
| "published (_ # es) = published es"

fun frames_of :: "'f qitem list \<Rightarrow> 'f list" where
  "frames_of [] = []"
| "frames_of (Frame f # q) = f # frames_of q"
| "frames_of (Sentinel # q) = frames_of q"

lemma frames_of_append [simp]: "frames_of (q @ r) = frames_of q @ frames_of r"
  by (induction q rule: frames_of.induct) auto

lemma subseq_frames_window: "subseq (frames_of (keep_last n (q @ [Frame f]))) (frames_of q @ [f])"
proof -
  obtain p where "q @ [Frame f] = p @ keep_last n (q @ [Frame f])" using keep_last_suffix by blast
  then have "frames_of q @ [f] = frames_of p @ frames_of (keep_last n (q @ [Frame f]))"
    by (metis frames_of.simps(1,2) frames_of_append)
  then show ?thesis by (simp add: list_emb_append2)
qed

lemma sub_event_order:
  assumes "sub_ok s"
  shows "sub_ok (snd (sub_event e s)) \<and>
    subseq (fst (sub_event e s) @ frames_of (sq_queue (snd (sub_event e s))))
           (frames_of (sq_queue s) @ published [e])"
proof (cases e)
  case (EPublish f)
  show ?thesis
  proof (cases "sq_cancelled s")
    case True
    with assms EPublish show ?thesis by (simp add: prefix_imp_subseq)
  next
    case False
    with assms EPublish show ?thesis
      using sub_ok_publish [OF assms, of f] by (simp add: sub_publish_live subseq_frames_window)
  qed
next
  case EGet
  with assms show ?thesis
    using sub_ok_get [OF assms]
    by (auto simp: sub_get_def sub_get_resume_def sub_defs split: list.splits qitem.splits)
next
  case EResume
  with assms show ?thesis
    using sub_ok_resume [OF assms]
    by (auto simp: sub_get_resume_def sub_defs split: list.splits qitem.splits)
next
  case ECancel
  with assms show ?thesis by (simp add: sub_ok_get_cancelled) (simp add: sub_get_cancelled_def)
next
  case EShutdown
  with assms show ?thesis
    using sub_ok_cleanup [OF assms] by (auto simp: sub_shutdown_def cleanup_result)
qed

lemma published_append [simp]: "published (a @ b) = published a @ published b"
  by (induction a rule: published.induct) auto

lemma sub_run_order:
  "sub_ok s \<Longrightarrow> subseq (sub_run es s) (frames_of (sq_queue s) @ published es)"
proof (induction es arbitrary: s)
  case (Cons e es)
  obtain out s' where ev: "sub_event e s = (out, s')" by fastforce
  with sub_event_order [OF Cons.prems, of e]
  have ok: "sub_ok s'" and sub: "subseq (out @ frames_of (sq_queue s')) (frames_of (sq_queue s) @ published [e])"
    by simp_all
  have "subseq (out @ sub_run es s') (out @ frames_of (sq_queue s') @ published es)"
    using list_emb_append_mono [OF subseq_order.order_refl Cons.IH [OF ok]] by blast
  also have "subseq \<dots> ((frames_of (sq_queue s) @ published [e]) @ published es)"
    using list_emb_append_mono [OF sub, of "published es" "published es"] by simp
  finally show ?case
    using published_append [of "[e]" es] by (simp add: ev)
qed simp

section \<open>Properties\<close>

lemma publish_list_window:
  assumes "sub_ok s" "\<not> sq_cancelled s"
  shows "let s' = fold (\<lambda>f s. snd (sub_publish f s)) fs s in
    sq_queue s' = keep_last QUEUE_MAXSIZE (sq_queue s @ map Frame fs) \<and> \<not> sq_cancelled s' \<and> sub_ok s'"
  using assms
proof (induction fs arbitrary: s)
  case Nil
  then show ?case by (simp add: keep_last_short sub_ok_def)
next
  case (Cons f fs)
  let ?s = "snd (sub_publish f s)"
  have "sub_ok ?s" "\<not> sq_cancelled ?s"
    using Cons.prems by (simp_all add: sub_ok_publish)
  from Cons.IH [OF this] Cons.prems show ?case
    by (simp add: sub_publish_live keep_last_append Let_def)
qed

text \<open>
  C19: freshness. Publishing any number of frames to a live subscriber leaves in its queue exactly
  the newest 15 of what was queued and what was published, in order: a slow rover loses the oldest
  frames, never the newest, and every publish succeeds.
\<close>
theorem slow_rover_keeps_newest:
  assumes "sub_ok s" "\<not> sq_cancelled s"
  shows "sq_queue (fold (\<lambda>f t. snd (sub_publish f t)) fs s)
           = keep_last QUEUE_MAXSIZE (sq_queue s @ map Frame fs) \<and>
         fst (sub_publish f (fold (\<lambda>f t. snd (sub_publish f t)) fs s))"
  using publish_list_window [OF assms, of fs] by (simp add: Let_def sub_publish_fst)

lemma slow_rover_keeps_newest_witness:
  "sq_queue (fold (\<lambda>f t. snd (sub_publish f t))
       [1::nat, 2, 3, 4, 5, 6, 7, 8, 9, 10, 11, 12, 13, 14, 15, 16, 17] new_subscriber)
     = map Frame [3, 4, 5, 6, 7, 8, 9, 10, 11, 12, 13, 14, 15, 16, 17]"
proof -
  have "sub_ok new_subscriber" "\<not> sq_cancelled new_subscriber"
    by (simp, simp add: new_subscriber_def)
  note slow_rover_keeps_newest [OF this, THEN conjunct1,
      of "[1::nat, 2, 3, 4, 5, 6, 7, 8, 9, 10, 11, 12, 13, 14, 15, 16, 17]"]
  also have "keep_last QUEUE_MAXSIZE (sq_queue new_subscriber @
        map Frame [1::nat, 2, 3, 4, 5, 6, 7, 8, 9, 10, 11, 12, 13, 14, 15, 16, 17])
      = map Frame [3, 4, 5, 6, 7, 8, 9, 10, 11, 12, 13, 14, 15, 16, 17]"
    by (simp add: new_subscriber_def keep_last_def QUEUE_MAXSIZE_def)
  finally show ?thesis .
qed

text \<open>
  C20: order of delivery. Whatever mix of publishes, reads, blocked reads that resume, cancellations
  and shutdowns a subscriber sees, the frames its rover receives are a subsequence of the frames
  published to it: none is reordered, duplicated or made up.
\<close>
theorem delivery_in_order: "subseq (sub_run events new_subscriber) (published events)"
  using sub_run_order [OF sub_ok_new, of events] by (simp add: new_subscriber_def)

text \<open>
  Fan-out. \<open>publish\<close> returns the number of registered subscribers that are not cancelled; each
  of them has the frame as the newest item of its queue afterwards, and every other subscriber is
  left as it was.
\<close>
theorem publish_reaches_every_active_rover:
  assumes "tq_ok t"
  shows "fst (tq_publish f t) = card (tq_active t) \<and>
    (\<forall>i. if i \<in> tq_active t
         then (\<exists>s. tq_subs (snd (tq_publish f t)) i = Some s \<and> sq_queue s \<noteq> [] \<and> last (sq_queue s) = Frame f)
         else tq_subs (snd (tq_publish f t)) i = tq_subs t i)"
proof -
  have "\<exists>s'. tq_subs (snd (tq_publish f t)) i = Some s' \<and> sq_queue s' \<noteq> [] \<and> last (sq_queue s') = Frame f"
    if "i \<in> tq_active t" for i
  proof -
    from that obtain s where s: "tq_subs t i = Some s" "\<not> sq_cancelled s" "i \<in> set (tq_queues t)"
      by (auto simp: tq_active_def live_sub_def)
    from tq_ok_sub [OF assms s(1)] s show ?thesis
      by (simp add: tq_publish_result assms sub_publish_live) (simp add: keep_last_def QUEUE_MAXSIZE_def)
  qed
  moreover have "tq_subs (snd (tq_publish f t)) i = tq_subs t i" if "i \<notin> tq_active t" for i
    using that by (cases "tq_subs t i") (auto simp: tq_publish_result assms tq_active_def live_sub_def)
  ultimately show ?thesis by (simp add: qt.publish_acks assms)
qed

lemma publish_reaches_every_active_rover_witness:
  "fst (tq_publish (7::nat) (snd (tq_subscribe new_transport))) = 1"
proof -
  have "tq_ok (snd (tq_subscribe (new_transport :: nat queue_transport)))"
    by (rule tq_ok_subscribe) simp
  from publish_reaches_every_active_rover [OF this, of 7] show ?thesis
    by (simp add: qt.active_subscribe)
qed

lemma sub_shutdown_idem [simp]: "sub_ok s \<Longrightarrow> sub_shutdown (sub_shutdown s) = sub_shutdown s"
  by (simp add: sub_shutdown_def [of "sub_shutdown s"])

lemma shutdown_tasks_subs:
  assumes "tq_ok t"
  shows "tq_subs (fold tq_shutdown_task is t) i =
    (if i \<in> set is then map_option sub_shutdown (tq_subs t i) else tq_subs t i)"
  using assms
proof (induction "is" arbitrary: t)
  case (Cons j "is")
  have "tq_subs (tq_shutdown_task j t) i = (if i = j then map_option sub_shutdown (tq_subs t i) else tq_subs t i)"
    by (simp add: tq_shutdown_task_def upd_sub_def)
  then show ?case
    using Cons.IH [OF tq_ok_shutdown_task [OF Cons.prems]]
    by (auto simp: option.map_comp comp_def intro!: option.map_cong0 dest!: tq_ok_sub [OF Cons.prems] split: if_splits)
qed simp

lemma ended_after_shutdown:
  "sub_ok s \<Longrightarrow> \<not> sq_cancelled s \<Longrightarrow>
     fst (sub_get (sub_shutdown s)) = Ended \<and> fst (sub_get_resume (sub_shutdown s)) = Ended"
  by (simp add: sub_shutdown_def cleanup_result sub_get_def sub_get_resume_def sub_defs)

lemma tq_active_ended:
  assumes "tq_ok t" "i \<in> tq_active t"
  shows "fst (tq_get i (tq_shutdown t)) = Ended \<and>
      (\<exists>s. tq_subs (tq_shutdown t) i = Some s \<and> fst (sub_get_resume s) = Ended)"
proof -
  from assms(2) obtain s where s: "tq_subs t i = Some s" "\<not> sq_cancelled s" "i \<in> set (tq_queues t)"
    by (auto simp: tq_active_def live_sub_def)
  have "tq_subs (tq_shutdown t) i = Some (sub_shutdown s)"
    using s shutdown_tasks_subs [OF tq_ok_shutdown_begin [OF assms(1)]]
    by (simp add: tq_shutdown_def) (simp add: tq_shutdown_begin_def)
  then show ?thesis
    using ended_after_shutdown [OF tq_ok_sub [OF assms(1) s(1)] s(2)]
    by (simp add: tq_get_def case_prod_beta)
qed

text \<open>
  Shutdown ends every stream. After \<open>shutdown\<close> a publish reaches nobody, and each rover that
  was active is told the stream has ended, both when it calls \<open>get\<close> again and when it was already
  blocked inside \<open>get\<close>: no reader hangs on a closed transport.
\<close>
theorem shutdown_ends_every_stream:
  assumes "tq_ok t"
  shows "fst (tq_publish f (tq_shutdown t)) = 0 \<and>
    (\<forall>i \<in> tq_active t. fst (tq_get i (tq_shutdown t)) = Ended \<and>
       (\<exists>s. tq_subs (tq_shutdown t) i = Some s \<and> fst (sub_get_resume s) = Ended))"
  using tq_active_ended [OF assms] by (simp add: qt.publish_after_shutdown assms)

lemma shutdown_ends_every_stream_witness:
  "fst (tq_get 0 (tq_shutdown (snd (tq_subscribe (new_transport :: nat queue_transport))))) = Ended"
proof -
  let ?t = "snd (tq_subscribe (new_transport :: nat queue_transport))"
  have "tq_ok ?t" by (rule tq_ok_subscribe) simp
  moreover have "0 \<in> tq_active ?t"
    by (simp add: qt.active_subscribe) (simp add: tq_subscribe_def new_transport_def)
  ultimately show ?thesis using shutdown_ends_every_stream [of ?t] by blast
qed

text \<open>
  No interleaving breaks a transport. In every state reachable by publishing, subscribing,
  unsubscribing, reading, resuming, cancelling and the separately scheduled shutdown tasks, in any
  order, no more than 15 frames wait per registered subscriber and no read ever raises (the
  \<open>task_done\<close> bookkeeping of the queue is never violated).
\<close>
theorem transport_safe_under_interleaving:
  assumes "reach (\<lambda>t. t = new_transport) tq_step t"
  shows "queue_depth t \<le> QUEUE_MAXSIZE * subscriber_count t \<and> fst (tq_get i t) \<noteq> Raised e"
  using tq_sys.reach_inv [OF assms] by (simp add: queue_depth_bound tq_get_no_error)

lemma transport_safe_under_interleaving_witness:
  "queue_depth (snd (tq_publish (7::nat) (snd (tq_subscribe new_transport)))) \<le> 15"
proof -
  let ?t1 = "snd (tq_subscribe (new_transport :: nat queue_transport))"
  have "reach (\<lambda>t. t = new_transport) tq_step ?t1"
    by (rule reach_step [where s = new_transport]) (auto intro: reach_start tq_step.subscribe)
  then have "reach (\<lambda>t. t = new_transport) tq_step (snd (tq_publish 7 ?t1))"
    by (rule reach_step) (rule tq_step.publish)
  from transport_safe_under_interleaving [OF this] show ?thesis
    by (simp add: subscriber_count_def QUEUE_MAXSIZE_def) (simp add: tq_subscribe_def new_transport_def)
qed

end
