(* ===== verification/PyFloat.thy ===== *)
theory PyFloat
  imports Complex_Main CorsPrelude
begin

text \<open>
  Python floats as the program uses them: exact real values, the two infinities and NaN. Rounding
  of intermediate results is not modelled (a finite value stands for the real number it denotes);
  the special values are, because the comparisons the code makes on positions received from the
  network behave differently on them: every comparison with NaN is false, and the \<open>math\<close>
  functions raise \<open>ValueError\<close> on an infinity.
\<close>

datatype pyfloat = Fin real | PInf | NInf | NaN

section \<open>Comparisons\<close>

instantiation pyfloat :: ord
begin

fun less_eq_pyfloat :: "pyfloat \<Rightarrow> pyfloat \<Rightarrow> bool" where
  "less_eq_pyfloat (Fin x) (Fin y) = (x \<le> y)"
| "less_eq_pyfloat NInf (Fin _) = True"
| "less_eq_pyfloat (Fin _) PInf = True"
| "less_eq_pyfloat NInf NInf = True"
| "less_eq_pyfloat NInf PInf = True"
| "less_eq_pyfloat PInf PInf = True"
| "less_eq_pyfloat _ _ = False"

fun less_pyfloat :: "pyfloat \<Rightarrow> pyfloat \<Rightarrow> bool" where
  "less_pyfloat (Fin x) (Fin y) = (x < y)"
| "less_pyfloat NInf (Fin _) = True"
| "less_pyfloat (Fin _) PInf = True"
| "less_pyfloat NInf PInf = True"
| "less_pyfloat _ _ = False"

instance ..

end

lemma nan_incomparable [simp]:
  "\<not> NaN \<le> x" "\<not> x \<le> NaN" "\<not> NaN < x" "\<not> x < NaN"
  by (cases x; simp)+

lemma pyfloat_less_trans: "(x::pyfloat) < y \<Longrightarrow> y < z \<Longrightarrow> x < z"
  by (cases x; cases y; cases z) simp_all

lemma pyfloat_less_irrefl [simp]: "\<not> (x::pyfloat) < x"
  by (cases x) simp_all

lemma pyfloat_not_less: "x \<noteq> NaN \<Longrightarrow> y \<noteq> NaN \<Longrightarrow> \<not> x < y \<longleftrightarrow> y \<le> (x::pyfloat)"
  by (cases x; cases y) auto

lemma pyfloat_le_trans: "(x::pyfloat) \<le> y \<Longrightarrow> y \<le> z \<Longrightarrow> x \<le> z"
  by (cases x; cases y; cases z) simp_all

lemma pyfloat_less_imp_le: "(x::pyfloat) < y \<Longrightarrow> x \<le> y"
  by (cases x; cases y) simp_all

lemma pyfloat_le_refl [simp]: "x \<le> (x::pyfloat) \<longleftrightarrow> x \<noteq> NaN"
  by (cases x) simp_all

lemma between_finite: "Fin a \<le> x \<Longrightarrow> x \<le> Fin b \<Longrightarrow> \<exists>r. x = Fin r \<and> a \<le> r \<and> r \<le> b"
  by (cases x) auto

section \<open>Arithmetic\<close>

fun fsgn :: "pyfloat \<Rightarrow> real" where
  "fsgn (Fin x) = sgn x"
| "fsgn PInf = 1"
| "fsgn NInf = - 1"
| "fsgn NaN = 0"

definition inf_of_sign :: "real \<Rightarrow> pyfloat" where
  "inf_of_sign s = (if 0 < s then PInf else if s < 0 then NInf else NaN)"

fun fadd :: "pyfloat \<Rightarrow> pyfloat \<Rightarrow> pyfloat" where
  "fadd (Fin x) (Fin y) = Fin (x + y)"
| "fadd NaN _ = NaN"
| "fadd _ NaN = NaN"
| "fadd PInf NInf = NaN"
| "fadd NInf PInf = NaN"
| "fadd PInf _ = PInf"
| "fadd _ PInf = PInf"
| "fadd NInf _ = NInf"
| "fadd _ NInf = NInf"

fun fneg :: "pyfloat \<Rightarrow> pyfloat" where
  "fneg (Fin x) = Fin (- x)"
| "fneg PInf = NInf"
| "fneg NInf = PInf"
| "fneg NaN = NaN"

definition fsub :: "pyfloat \<Rightarrow> pyfloat \<Rightarrow> pyfloat" where
  "fsub x y = fadd x (fneg y)"

fun fabs :: "pyfloat \<Rightarrow> pyfloat" where
  "fabs (Fin x) = Fin \<bar>x\<bar>"
| "fabs PInf = PInf"
| "fabs NInf = PInf"
| "fabs NaN = NaN"

fun fmul :: "pyfloat \<Rightarrow> pyfloat \<Rightarrow> pyfloat" where
  "fmul (Fin x) (Fin y) = Fin (x * y)"
| "fmul NaN _ = NaN"
| "fmul _ NaN = NaN"
| "fmul x y = inf_of_sign (fsgn x * fsgn y)"

lemma fsub_Fin [simp]: "fsub (Fin x) (Fin y) = Fin (x - y)"
  by (simp add: fsub_def)

lemma fsub_NaN [simp]: "fsub NaN y = NaN" "fsub x NaN = NaN"
  by (simp_all add: fsub_def) (cases x; simp)

text \<open>\<open>max\<close> of several floats: the running maximum is replaced by a strictly greater item only.\<close>

definition py_max3 :: "pyfloat \<Rightarrow> pyfloat \<Rightarrow> pyfloat \<Rightarrow> pyfloat" where
  "py_max3 a b c = (let m = (if a < b then b else a) in if m < c then c else m)"

section \<open>The math module\<close>

fun math_radians :: "pyfloat \<Rightarrow> pyfloat" where
  "math_radians (Fin x) = Fin (x * pi / 180)"
| "math_radians x = x"

fun fhalf :: "pyfloat \<Rightarrow> pyfloat" where
  "fhalf (Fin x) = Fin (x / 2)"
| "fhalf x = x"

fun fsquare :: "pyfloat \<Rightarrow> pyfloat" where
  "fsquare (Fin x) = Fin (x\<^sup>2)"
| "fsquare NaN = NaN"
| "fsquare _ = PInf"

fun math_sin :: "pyfloat \<Rightarrow> py_error + pyfloat" where
  "math_sin (Fin x) = Inr (Fin (sin x))"
| "math_sin NaN = Inr NaN"
| "math_sin _ = Inl ValueError"

fun math_cos :: "pyfloat \<Rightarrow> py_error + pyfloat" where
  "math_cos (Fin x) = Inr (Fin (cos x))"
| "math_cos NaN = Inr NaN"
| "math_cos _ = Inl ValueError"

fun math_sqrt :: "pyfloat \<Rightarrow> py_error + pyfloat" where
  "math_sqrt (Fin x) = (if x < 0 then Inl ValueError else Inr (Fin (sqrt x)))"
| "math_sqrt NaN = Inr NaN"
| "math_sqrt PInf = Inr PInf"
| "math_sqrt NInf = Inl ValueError"

fun math_asin :: "pyfloat \<Rightarrow> py_error + pyfloat" where
  "math_asin (Fin x) = (if - 1 \<le> x \<and> x \<le> 1 then Inr (Fin (arcsin x)) else Inl ValueError)"
| "math_asin NaN = Inr NaN"
| "math_asin _ = Inl ValueError"

section \<open>Rounding to the nearest integer, ties to even\<close>

definition round_half_even :: "real \<Rightarrow> int" where
  "round_half_even x =
     (let f = \<lfloor>x\<rfloor>; d = x - of_int f in
      if d < 1 / 2 then f else if 1 / 2 < d then f + 1 else if even f then f else f + 1)"

lemma round_half_even_near: "\<bar>of_int (round_half_even x) - x\<bar> \<le> 1 / 2"
proof -
  have "of_int \<lfloor>x\<rfloor> \<le> x" "x < of_int \<lfloor>x\<rfloor> + 1"
    by linarith+
  then show ?thesis
    unfolding round_half_even_def Let_def by (auto split: if_splits)
qed

lemma round_half_even_of_int [simp]: "round_half_even (of_int n) = n"
  by (simp add: round_half_even_def)

lemma round_half_even_nonneg: "0 \<le> x \<Longrightarrow> 0 \<le> round_half_even x"
  unfolding round_half_even_def Let_def by (auto intro: order_trans)

lemma round_half_even_le:
  assumes "x \<le> of_int n"
  shows "round_half_even x \<le> n"
proof -
  have "of_int (round_half_even x) \<le> x + 1 / 2"
    using round_half_even_near [of x] by linarith
  also have "\<dots> < of_int (n + 1)" using assms by simp
  finally show ?thesis by linarith
qed

text \<open>\<open>round(x, k)\<close> on a finite float, as the exact decimal it denotes.\<close>

definition py_round :: "real \<Rightarrow> nat \<Rightarrow> real" where
  "py_round x k = of_int (round_half_even (x * 10 ^ k)) / 10 ^ k"

lemma py_round_near: "\<bar>py_round x k - x\<bar> \<le> 1 / 2 / 10 ^ k"
proof -
  have "py_round x k - x = (of_int (round_half_even (x * 10 ^ k)) - x * 10 ^ k) / 10 ^ k"
    by (simp add: py_round_def diff_divide_distrib)
  then have "\<bar>py_round x k - x\<bar> = \<bar>of_int (round_half_even (x * 10 ^ k)) - x * 10 ^ k\<bar> / 10 ^ k"
    by (simp add: abs_divide)
  also have "\<dots> \<le> 1 / 2 / 10 ^ k"
    by (intro divide_right_mono round_half_even_near) simp
  finally show ?thesis .
qed

text \<open>\<open>int(x)\<close> on a finite float truncates.\<close>

definition py_trunc :: "real \<Rightarrow> int" where
  "py_trunc x = (if 0 \<le> x then \<lfloor>x\<rfloor> else \<lceil>x\<rceil>)"

end
