(* ===== verification/PyText.thy ===== *)
theory PyText
  imports PyFloat
begin

text \<open>
  The part of Python's \<open>str\<close>, \<open>int\<close> and \<open>float\<close> the program uses on header fields and source table
  records: \<open>strip\<close>, \<open>split\<close> and \<open>join\<close> on one character, \<open>upper\<close> and \<open>lower\<close>, the parsers \<open>int(s)\<close>
  and \<open>float(s)\<close>, \<open>str(n)\<close> and the format \<open>.2f\<close>. Text is ASCII: characters beyond it are left as they
  are by \<open>upper\<close> and \<open>lower\<close> and are never digits or white space.
\<close>

section \<open>Characters\<close>

definition is_space :: "char \<Rightarrow> bool" where
  "is_space c = (let n = (of_char c :: nat) in n = 32 \<or> (9 \<le> n \<and> n \<le> 13) \<or> (28 \<le> n \<and> n \<le> 31))"

definition is_digit :: "char \<Rightarrow> bool" where
  "is_digit c = (let n = (of_char c :: nat) in 48 \<le> n \<and> n \<le> 57)"

definition is_upper :: "char \<Rightarrow> bool" where
  "is_upper c = (let n = (of_char c :: nat) in 65 \<le> n \<and> n \<le> 90)"

definition is_lower :: "char \<Rightarrow> bool" where
  "is_lower c = (let n = (of_char c :: nat) in 97 \<le> n \<and> n \<le> 122)"

definition to_upper :: "char \<Rightarrow> char" where
  "to_upper c = (if is_lower c then char_of (of_char c - 32 :: nat) else c)"

definition to_lower :: "char \<Rightarrow> char" where
  "to_lower c = (if is_upper c then char_of (of_char c + 32 :: nat) else c)"

abbreviation py_upper :: "string \<Rightarrow> string" where "py_upper \<equiv> map to_upper"
abbreviation py_lower :: "string \<Rightarrow> string" where "py_lower \<equiv> map to_lower"

lemma to_upper_idem [simp]: "to_upper (to_upper c) = to_upper c"
  by (auto simp: to_upper_def is_lower_def Let_def)

lemma py_upper_idem [simp]: "py_upper (py_upper s) = py_upper s"
  by simp

section \<open>strip, split, join\<close>

definition py_strip :: "string \<Rightarrow> string" where
  "py_strip s = rev (dropWhile is_space (rev (dropWhile is_space s)))"

fun split_on :: "char \<Rightarrow> string \<Rightarrow> string list" where
  "split_on c [] = [[]]"
| "split_on c (x # xs) =
     (if x = c then [] # split_on c xs
      else case split_on c xs of y # ys \<Rightarrow> (x # y) # ys | [] \<Rightarrow> [[x]])"

fun py_join :: "string \<Rightarrow> string list \<Rightarrow> string" where
  "py_join sep [] = []"
| "py_join sep [x] = x"
| "py_join sep (x # y # ys) = x @ sep @ py_join sep (y # ys)"

text \<open>\<open>p in s\<close>\<close>

fun is_infix :: "string \<Rightarrow> string \<Rightarrow> bool" where
  "is_infix p [] = (p = [])"
| "is_infix p (c # s) = (take (length p) (c # s) = p \<or> is_infix p s)"

lemma split_on_nonempty [simp]: "split_on c s \<noteq> []"
  by (induction s) (auto split: list.splits)

lemma split_on_no_sep: "x \<in> set (split_on c s) \<Longrightarrow> c \<notin> set x"
  by (induction s arbitrary: x) (fastforce split: if_splits list.splits)+

lemma split_on_plain: "c \<notin> set s \<Longrightarrow> split_on c s = [s]"
  by (induction s) auto

lemma split_on_append: "c \<notin> set s \<Longrightarrow> split_on c (s @ c # t) = s # split_on c t"
  by (induction s) auto

lemma split_on_join:
  "xs \<noteq> [] \<Longrightarrow> \<forall>x \<in> set xs. c \<notin> set x \<Longrightarrow> split_on c (py_join [c] xs) = xs"
proof (induction xs rule: induct_list012)
  case 1
  then show ?case by simp
next
  case (2 x)
  then show ?case by (simp add: split_on_plain)
next
  case (3 x y zs)
  then show ?case by (simp add: split_on_append)
qed

lemma py_join_Cons: "ys \<noteq> [] \<Longrightarrow> py_join sep (x # ys) = x @ sep @ py_join sep ys"
  by (cases ys) auto

lemma split_on_Cons_other:
  "x \<noteq> c \<Longrightarrow> split_on c (x # xs) = (x # hd (split_on c xs)) # tl (split_on c xs)"
  by (cases "split_on c xs") auto

lemma join_split_on: "py_join [c] (split_on c s) = s"
proof (induction s)
  case Nil
  show ?case by simp
next
  case (Cons x xs)
  show ?case
  proof (cases "x = c")
    case True
    with Cons show ?thesis by (simp add: py_join_Cons)
  next
    case False
    obtain y ys where eq: "split_on c xs = y # ys"
      by (cases "split_on c xs") auto
    with False Cons show ?thesis
      by (cases ys) auto
  qed
qed

lemma length_split_on: "length (split_on c s) = Suc (count_list s c)"
  by (induction s) (auto split: list.splits)

text \<open>A field is clean when stripping leaves it unchanged.\<close>

definition stripped :: "string \<Rightarrow> bool" where
  "stripped s \<longleftrightarrow> s = [] \<or> (\<not> is_space (hd s) \<and> \<not> is_space (last s))"

lemma py_strip_stripped [simp]: "stripped s \<Longrightarrow> py_strip s = s"
proof (cases "s = []")
  case False
  assume "stripped s"
  with False have h: "\<not> is_space (hd s)" and l: "\<not> is_space (last s)"
    by (auto simp: stripped_def)
  from False h have 1: "dropWhile is_space s = s"
    by (cases s) auto
  from False l have "\<not> is_space (hd (rev s))"
    by (simp add: hd_rev)
  then have "dropWhile is_space (rev s) = rev s"
    using False by (cases "rev s") auto
  with 1 show ?thesis by (simp add: py_strip_def)
qed (simp add: py_strip_def)

lemma stripped_Nil [simp]: "stripped []"
  by (simp add: stripped_def)

lemma hd_dropWhile_space: "dropWhile is_space s \<noteq> [] \<Longrightarrow> \<not> is_space (hd (dropWhile is_space s))"
  by (rule hd_dropWhile)

lemma stripped_py_strip [simp]: "stripped (py_strip s)"
proof (cases "py_strip s = []")
  case True
  then show ?thesis by simp
next
  case False
  define d where "d = dropWhile is_space s"
  define e where "e = dropWhile is_space (rev d)"
  have strip: "py_strip s = rev e" by (simp add: py_strip_def d_def e_def)
  with False have e: "e \<noteq> []" by simp
  then have last_ok: "\<not> is_space (last (rev e))"
    unfolding last_rev e_def by (rule hd_dropWhile)
  obtain p where p: "rev d = p @ e"
    unfolding e_def by (metis takeWhile_dropWhile_id)
  then have "d = rev e @ rev p" by (metis rev_append rev_rev_ident)
  moreover from this e have "d \<noteq> []" by simp
  then have "\<not> is_space (hd d)" unfolding d_def by (rule hd_dropWhile)
  ultimately have "\<not> is_space (hd (rev e))" using e by (simp add: hd_append)
  with last_ok show ?thesis by (simp add: strip stripped_def)
qed

lemma py_strip_idem [simp]: "py_strip (py_strip s) = py_strip s"
  by simp

lemma set_py_strip: "set (py_strip s) \<subseteq> set s"
  by (auto simp: py_strip_def dest!: set_dropWhileD)

section \<open>Decimal numerals\<close>

definition digit_char :: "nat \<Rightarrow> char" where
  "digit_char d = char_of (48 + d)"

definition digit_val :: "char \<Rightarrow> nat option" where
  "digit_val c = (if is_digit c then Some (of_char c - 48) else None)"

lemma digit_val_char [simp]: "d < 10 \<Longrightarrow> digit_val (digit_char d) = Some d"
  by (simp add: digit_val_def digit_char_def is_digit_def Let_def)

lemma of_digit_char: "d < 10 \<Longrightarrow> (of_char (digit_char d) :: nat) = 48 + d"
  by (simp add: digit_char_def)

fun dec_digits :: "nat \<Rightarrow> nat list" where
  "dec_digits n = (if n < 10 then [n] else dec_digits (n div 10) @ [n mod 10])"

declare dec_digits.simps [simp del]

definition nat_of_digits :: "nat list \<Rightarrow> nat" where
  "nat_of_digits ds = foldl (\<lambda>a d. 10 * a + d) 0 ds"

lemma nat_of_digits_snoc [simp]: "nat_of_digits (ds @ [d]) = 10 * nat_of_digits ds + d"
  by (simp add: nat_of_digits_def)

lemma dec_digits_small: "d \<in> set (dec_digits n) \<Longrightarrow> d < 10"
proof (induction n rule: dec_digits.induct)
  case (1 n)
  then show ?case by (subst (asm) (2) dec_digits.simps) (auto split: if_splits)
qed

lemma nat_of_dec_digits [simp]: "nat_of_digits (dec_digits n) = n"
proof (induction n rule: dec_digits.induct)
  case (1 n)
  then show ?case
    by (subst dec_digits.simps) (auto simp: nat_of_digits_def)
qed

lemma dec_digits_nonempty [simp]: "dec_digits n \<noteq> []"
  by (subst dec_digits.simps) simp

definition str_of_nat :: "nat \<Rightarrow> string" where
  "str_of_nat n = map digit_char (dec_digits n)"

definition str_of_int :: "int \<Rightarrow> string" where
  "str_of_int i = (if i < 0 then ''-'' @ str_of_nat (nat (- i)) else str_of_nat (nat i))"

text \<open>
  A run of digits as \<open>int\<close> and \<open>float\<close> accept it: at least one digit, single underscores between
  digits only.
\<close>

fun digit_run :: "string \<Rightarrow> nat list option" where
  "digit_run [] = None"
| "digit_run (c # r) =
     (case digit_val c of
        None \<Rightarrow> None
      | Some d \<Rightarrow>
          (case r of
             [] \<Rightarrow> Some [d]
           | x # r' \<Rightarrow>
               if x = CHR ''_'' then map_option ((#) d) (digit_run r')
               else map_option ((#) d) (digit_run (x # r'))))"

definition py_sign :: "string \<Rightarrow> bool \<times> string" where
  "py_sign s =
     (case s of
        [] \<Rightarrow> (False, [])
      | c # r \<Rightarrow> if c = CHR ''-'' then (True, r) else if c = CHR ''+'' then (False, r) else (False, s))"

definition py_int :: "string \<Rightarrow> int option" where
  "py_int s =
     (let (neg, body) = py_sign (py_strip s) in
      map_option (\<lambda>ds. (if neg then - int (nat_of_digits ds) else int (nat_of_digits ds)))
        (digit_run body))"

text \<open>\<open>float(s)\<close>: sign, digits with an optional point and exponent, or an infinity or NaN.\<close>

fun break_at :: "char \<Rightarrow> string \<Rightarrow> string \<times> string option" where
  "break_at c [] = ([], None)"
| "break_at c (x # xs) =
     (if x = c then ([], Some xs) else case break_at c xs of (a, b) \<Rightarrow> (x # a, b))"

definition opt_run :: "string \<Rightarrow> nat list option" where
  "opt_run s = (if s = [] then Some [] else digit_run s)"

definition mantissa :: "string \<Rightarrow> real option" where
  "mantissa s =
     (case break_at (CHR ''.'') s of
        (a, None) \<Rightarrow> map_option (\<lambda>ds. real (nat_of_digits ds)) (digit_run a)
      | (a, Some b) \<Rightarrow>
          if a = [] \<and> b = [] then None
          else (case (opt_run a, opt_run b) of
                  (Some da, Some db) \<Rightarrow>
                    Some (real (nat_of_digits (da @ db)) / 10 ^ length db)
                | _ \<Rightarrow> None))"

definition exponent :: "string \<Rightarrow> real option" where
  "exponent s =
     (let (neg, body) = py_sign s in
      map_option (\<lambda>ds. if neg then 1 / 10 ^ nat_of_digits ds else 10 ^ nat_of_digits ds)
        (digit_run body))"

definition unsigned_float :: "string \<Rightarrow> pyfloat option" where
  "unsigned_float s =
     (if s = ''inf'' \<or> s = ''infinity'' then Some PInf
      else if s = ''nan'' then Some NaN
      else (case break_at (CHR ''e'') s of
              (m, None) \<Rightarrow> map_option Fin (mantissa m)
            | (m, Some e) \<Rightarrow>
                (case (mantissa m, exponent e) of
                   (Some x, Some k) \<Rightarrow> Some (Fin (x * k))
                 | _ \<Rightarrow> None)))"

definition py_float :: "string \<Rightarrow> pyfloat option" where
  "py_float s =
     (let (neg, body) = py_sign (py_lower (py_strip s)) in
      map_option (\<lambda>x. if neg then fneg x else x) (unsigned_float body))"

text \<open>The format \<open>f"{x:.2f}"\<close>; the sign of a negative number survives rounding to zero.\<close>

definition two_digits :: "nat \<Rightarrow> string" where
  "two_digits n = [digit_char (n div 10 mod 10), digit_char (n mod 10)]"

fun format_2f :: "pyfloat \<Rightarrow> string" where
  "format_2f (Fin x) =
     (let n = nat (round_half_even (\<bar>x\<bar> * 100)) in
      (if x < 0 then ''-'' else []) @ str_of_nat (n div 100) @ ''.'' @ two_digits n)"
| "format_2f PInf = ''inf''"
| "format_2f NInf = ''-inf''"
| "format_2f NaN = ''nan''"

section \<open>Parsing what was printed\<close>

lemma digit_char_facts:
  assumes "d < 10"
  shows "is_digit (digit_char d)" "\<not> is_space (digit_char d)" "to_lower (digit_char d) = digit_char d"
    and "to_upper (digit_char d) = digit_char d"
proof -
  have "(of_char (digit_char d) :: nat) = 48 + d" using assms by (rule of_digit_char)
  with assms show "is_digit (digit_char d)" "\<not> is_space (digit_char d)"
      "to_lower (digit_char d) = digit_char d" "to_upper (digit_char d) = digit_char d"
    by (simp_all add: is_digit_def is_space_def is_upper_def is_lower_def to_lower_def to_upper_def Let_def)
qed

lemma digit_char_neq:
  assumes "d < 10" "\<not> is_digit c"
  shows "digit_char d \<noteq> c"
  using assms digit_char_facts(1) by blast

lemma non_digits [simp]:
  "\<not> is_digit (CHR ''-'')" "\<not> is_digit (CHR ''+'')" "\<not> is_digit (CHR ''.'')"
  "\<not> is_digit (CHR ''_'')" "\<not> is_digit (CHR ''e'')" "\<not> is_digit (CHR '';'')"
  "\<not> is_digit (CHR ''i'')" "\<not> is_digit (CHR ''n'')"
  by (simp_all add: is_digit_def)

abbreviation digits_ok :: "nat list \<Rightarrow> bool" where
  "digits_ok ds \<equiv> ds \<noteq> [] \<and> (\<forall>d \<in> set ds. d < 10)"

lemma digits_ok_dec [simp]: "digits_ok (dec_digits n)"
  by (auto dest: dec_digits_small)

lemma digit_run_print: "digits_ok ds \<Longrightarrow> digit_run (map digit_char ds) = Some ds"
proof (induction ds)
  case (Cons d ds)
  then show ?case
    by (cases ds) (auto simp: digit_char_neq)
qed simp

lemma py_sign_digits: "digits_ok ds \<Longrightarrow> py_sign (map digit_char ds @ r) = (False, map digit_char ds @ r)"
  by (cases ds) (auto simp: py_sign_def digit_char_neq)

lemma py_sign_minus [simp]: "py_sign (CHR ''-'' # s) = (True, s)"
  by (simp add: py_sign_def)

lemma stripped_digits: "digits_ok ds \<Longrightarrow> stripped (map digit_char ds)"
  by (auto simp: stripped_def digit_char_facts(2) hd_map last_map)

lemma stripped_minus: "s \<noteq> [] \<Longrightarrow> stripped s \<Longrightarrow> stripped (CHR ''-'' # s)"
  by (auto simp: stripped_def is_space_def)

lemma stripped_str_of_int [simp]: "stripped (str_of_int i)"
  by (auto simp: str_of_int_def str_of_nat_def stripped_digits intro!: stripped_minus dest: dec_digits_small)

theorem py_int_str_of_int [simp]: "py_int (str_of_int i) = Some i"
proof (cases "i < 0")
  case True
  then have "str_of_int i = CHR ''-'' # map digit_char (dec_digits (nat (- i)))"
    by (simp add: str_of_int_def str_of_nat_def)
  moreover have "py_strip (str_of_int i) = str_of_int i" by simp
  ultimately show ?thesis
    using True by (simp add: py_int_def digit_run_print)
next
  case False
  then have eq: "str_of_int i = map digit_char (dec_digits (nat i))"
    by (simp add: str_of_int_def str_of_nat_def)
  have strip: "py_strip (str_of_int i) = str_of_int i" by simp
  show ?thesis
    using False py_sign_digits [OF digits_ok_dec, of "nat i" "[]"]
    by (simp add: py_int_def strip) (simp add: eq digit_run_print)
qed

lemma char_free_print: "\<not> is_digit c \<Longrightarrow> digits_ok ds \<Longrightarrow> c \<notin> set (map digit_char ds)"
  using digit_char_facts(1) by auto

lemma char_free_str_of_int: "\<not> is_digit c \<Longrightarrow> c \<noteq> CHR ''-'' \<Longrightarrow> c \<notin> set (str_of_int i)"
  using char_free_print [OF _ digits_ok_dec] by (simp add: str_of_int_def str_of_nat_def del: set_map)

lemma break_at_absent: "c \<notin> set s \<Longrightarrow> break_at c s = (s, None)"
  by (induction s) auto

lemma break_at_found: "c \<notin> set s \<Longrightarrow> break_at c (s @ c # t) = (s, Some t)"
  by (induction s) auto

text \<open>The value a two-decimal rendering denotes.\<close>

definition cents :: "real \<Rightarrow> nat" where
  "cents x = nat (round_half_even (\<bar>x\<bar> * 100))"

definition two_dp :: "real \<Rightarrow> real" where
  "two_dp x = (if x < 0 then - (real (cents x) / 100) else real (cents x) / 100)"

lemma two_dp_near: "\<bar>two_dp x - x\<bar> \<le> 1 / 200"
proof -
  have "real (cents x) = of_int (round_half_even (\<bar>x\<bar> * 100))"
    by (simp add: cents_def round_half_even_nonneg)
  then have "\<bar>real (cents x) - \<bar>x\<bar> * 100\<bar> \<le> 1 / 2"
    using round_half_even_near [of "\<bar>x\<bar> * 100"] by simp
  then show ?thesis
    unfolding two_dp_def abs_le_iff by (auto simp: abs_if split: if_splits)
qed

lemma two_dp_bound:
  assumes "\<bar>x\<bar> \<le> real n"
  shows "\<bar>two_dp x\<bar> \<le> real n"
proof -
  have "\<bar>x\<bar> * 100 \<le> of_int (int n * 100)" using assms by simp
  then have "round_half_even (\<bar>x\<bar> * 100) \<le> int n * 100" by (rule round_half_even_le)
  then have "cents x \<le> n * 100" by (simp add: cents_def)
  then have "real (cents x) \<le> real n * 100" by (metis of_nat_le_iff of_nat_mult of_nat_numeral)
  then show ?thesis by (simp add: two_dp_def)
qed

definition render_cents :: "nat \<Rightarrow> string" where
  "render_cents n = map digit_char (dec_digits (n div 100)) @ CHR ''.'' # map digit_char [n div 10 mod 10, n mod 10]"

lemma format_2f_Fin:
  "format_2f (Fin x) = (if x < 0 then CHR ''-'' # render_cents (cents x) else render_cents (cents x))"
  by (simp add: cents_def render_cents_def two_digits_def str_of_nat_def Let_def)

declare format_2f.simps(1) [simp del]

lemma py_sign_render [simp]: "py_sign (render_cents n) = (False, render_cents n)"
  unfolding render_cents_def by (rule py_sign_digits) simp

lemma render_cents_nonempty [simp]: "render_cents n \<noteq> []"
  by (simp add: render_cents_def)

lemma stripped_render: "stripped (render_cents n)"
proof -
  have ne: "dec_digits (n div 100) \<noteq> []" by simp
  then have "hd (dec_digits (n div 100)) < 10"
    using dec_digits_small hd_in_set by blast
  with ne show ?thesis
    by (simp add: render_cents_def stripped_def hd_append hd_map digit_char_facts(2))
qed

lemma lower_render [simp]: "py_lower (render_cents n) = render_cents n"
proof -
  have low: "py_lower (map digit_char ds) = map digit_char ds" if "digits_ok ds" for ds
    using that by (simp add: digit_char_facts(3))
  have "py_lower (map digit_char (dec_digits (n div 100))) = map digit_char (dec_digits (n div 100))"
    by (rule low) simp
  moreover have "py_lower (map digit_char [n div 10 mod 10, n mod 10]) = map digit_char [n div 10 mod 10, n mod 10]"
    by (rule low) simp
  moreover have "to_lower (CHR ''.'') = CHR ''.''"
    by (simp add: to_lower_def is_upper_def)
  ultimately show ?thesis
    unfolding render_cents_def map_append list.map(2) by simp
qed

lemma render_free: "\<not> is_digit c \<Longrightarrow> c \<noteq> CHR ''.'' \<Longrightarrow> c \<notin> set (render_cents n)"
  using char_free_print [of c "dec_digits (n div 100)"] char_free_print [of c "[n div 10 mod 10, n mod 10]"]
  by (simp add: render_cents_def)

lemma nat_of_digits_two: "nat_of_digits (ds @ [a, b]) = 100 * nat_of_digits ds + 10 * a + b"
  by (simp add: nat_of_digits_def)

lemma hundreds: "100 * (n div 100) + 10 * (n div 10 mod 10) + n mod 10 = (n::nat)"
proof -
  have "n div 100 = n div 10 div 10" by (simp add: div_mult2_eq [symmetric])
  moreover have "10 * (n div 10 div 10) + n div 10 mod 10 = n div 10"
    by (rule mult_div_mod_eq)
  moreover have "10 * (n div 10) + n mod 10 = n"
    by (rule mult_div_mod_eq)
  ultimately show ?thesis by linarith
qed

lemma mantissa_render: "mantissa (render_cents n) = Some (real n / 100)"
proof -
  let ?ds = "dec_digits (n div 100)" and ?fs = "[n div 10 mod 10, n mod 10]"
  have "break_at (CHR ''.'') (render_cents n) = (map digit_char ?ds, Some (map digit_char ?fs))"
    unfolding render_cents_def by (rule break_at_found) (rule char_free_print; simp)
  moreover have "digit_run (map digit_char ?ds) = Some ?ds"
    by (rule digit_run_print) simp
  moreover have "digit_run (map digit_char ?fs) = Some ?fs"
    by (rule digit_run_print) simp
  moreover have "nat_of_digits (?ds @ ?fs) = n"
    by (simp only: nat_of_digits_two nat_of_dec_digits hundreds)
  ultimately show ?thesis
    by (simp add: mantissa_def opt_run_def)
qed

lemma unsigned_render: "unsigned_float (render_cents n) = Some (Fin (real n / 100))"
proof -
  have "break_at (CHR ''e'') (render_cents n) = (render_cents n, None)"
    by (rule break_at_absent) (rule render_free; simp)
  moreover have "CHR ''i'' \<notin> set (render_cents n)" "CHR ''n'' \<notin> set (render_cents n)"
    by (rule render_free; simp)+
  then have "render_cents n \<noteq> ''inf''" "render_cents n \<noteq> ''infinity''" "render_cents n \<noteq> ''nan''"
    by auto
  ultimately show ?thesis
    by (simp add: unsigned_float_def mantissa_render)
qed

lemma stripped_format_2f [simp]: "stripped (format_2f (Fin x))"
  using stripped_minus [OF _ stripped_render]
  by (simp add: format_2f_Fin stripped_render render_cents_nonempty)

theorem py_float_format_2f: "py_float (format_2f (Fin x)) = Some (Fin (two_dp x))"
proof -
  have strip: "py_strip (format_2f (Fin x)) = format_2f (Fin x)" by simp
  have minus: "to_lower (CHR ''-'') = CHR ''-''" by (simp add: to_lower_def is_upper_def)
  show ?thesis
    by (simp add: py_float_def strip)
       (simp add: format_2f_Fin minus unsigned_render two_dp_def)
qed

lemma format_2f_free:
  "\<not> is_digit c \<Longrightarrow> c \<noteq> CHR ''.'' \<Longrightarrow> c \<noteq> CHR ''-'' \<Longrightarrow> c \<notin> set (format_2f (Fin x))"
  by (simp add: format_2f_Fin render_free)

lemma format_2f_nonempty [simp]: "format_2f (Fin x) \<noteq> []"
  by (simp add: format_2f_Fin render_cents_def)

end
