(* ===== verification/Quality.thy ===== *)
theory Quality
  imports PyText
begin

text \<open>
  \<open>ntrip/v2/quality.py\<close>: the rolling windows of carrier-to-noise values and satellite counts per
  constellation, and the summary computed from them (\<open>statistics.median\<close> and
  \<open>statistics.quantiles(n=20)\<close> of the standard library, on exact reals).
\<close>

section \<open>The statistics module\<close>

definition stat_median :: "real list \<Rightarrow> real" where
  "stat_median xs =
     (let d = sort xs; n = length d in
      if n mod 2 = 1 then d ! (n div 2) else (d ! (n div 2 - 1) + d ! (n div 2)) / 2)"

text \<open>\<open>quantiles(data, n=20)[-1]\<close>, exclusive method: the cut with index 19.\<close>

definition stat_cut :: "real list \<Rightarrow> int \<Rightarrow> int \<Rightarrow> real" where
  "stat_cut xs n i =
     (let d = sort xs; ld = int (length d); m = ld + 1; j0 = (i * m) div n;
          j = (if j0 < 1 then 1 else if ld - 1 < j0 then ld - 1 else j0);
          delta = i * m - j * n in
      (d ! nat (j - 1) * of_int (n - delta) + d ! nat j * of_int delta) / of_int n)"

definition last_of_20_quantiles :: "real list \<Rightarrow> real" where
  "last_of_20_quantiles xs = stat_cut xs 20 19"

section \<open>Windows per constellation\<close>

record constellation_quality =
  cq_cnr :: "real list"
  cq_sat_counts :: "int list"

definition new_constellation :: constellation_quality where
  "new_constellation = \<lparr>cq_cnr = [], cq_sat_counts = []\<rparr>"

definition cnr_p50 :: "constellation_quality \<Rightarrow> real option" where
  "cnr_p50 cq = (if cq_cnr cq = [] then None else Some (stat_median (cq_cnr cq)))"

definition cnr_p95 :: "constellation_quality \<Rightarrow> real option" where
  "cnr_p95 cq =
     (if length (cq_cnr cq) < 2
      then (case cq_cnr cq of [] \<Rightarrow> None | x # _ \<Rightarrow> Some x)
      else Some (last_of_20_quantiles (cq_cnr cq)))"

definition median_satellites :: "constellation_quality \<Rightarrow> real option" where
  "median_satellites cq =
     (if cq_sat_counts cq = [] then None else Some (stat_median (map of_int (cq_sat_counts cq))))"

type_synonym mountpoint_quality = "(string, constellation_quality) dict"

definition WINDOW :: nat where
  "WINDOW = 200"

function trim :: "'a list \<Rightarrow> 'a list" where
  "trim dq = (if WINDOW < length dq then trim (tl dq) else dq)"
  by auto
termination by (relation "measure length") (auto simp: WINDOW_def)

definition get_or_create :: "mountpoint_quality \<Rightarrow> string \<Rightarrow> constellation_quality" where
  "get_or_create mq c = opt_default new_constellation (map_of mq c)"

definition record_cnr :: "string \<Rightarrow> real list \<Rightarrow> mountpoint_quality \<Rightarrow> mountpoint_quality" where
  "record_cnr c values mq =
     (let cq = get_or_create mq c in
      AList.update c (cq\<lparr>cq_cnr := trim (cq_cnr cq @ values)\<rparr>) mq)"

definition record_sat_count :: "string \<Rightarrow> int \<Rightarrow> mountpoint_quality \<Rightarrow> mountpoint_quality" where
  "record_sat_count c count mq =
     (let cq = get_or_create mq c in
      AList.update c (cq\<lparr>cq_sat_counts := trim (cq_sat_counts cq @ [count])\<rparr>) mq)"

record quality_entry =
  qe_cnr_p50 :: "real option"
  qe_cnr_p95 :: "real option"
  qe_median_satellites :: "real option"

definition quality_entry_of :: "constellation_quality \<Rightarrow> quality_entry" where
  "quality_entry_of cq =
     \<lparr>qe_cnr_p50 = map_option (\<lambda>x. py_round x 2) (cnr_p50 cq),
      qe_cnr_p95 = map_option (\<lambda>x. py_round x 2) (cnr_p95 cq),
      qe_median_satellites = map_option (\<lambda>x. py_round x 1) (median_satellites cq)\<rparr>"

definition quality_to_dict :: "mountpoint_quality \<Rightarrow> (string, quality_entry) dict" where
  "quality_to_dict mq = map (\<lambda>(name, cq). (name, quality_entry_of cq)) mq"

section \<open>The windows hold the newest values\<close>

declare trim.simps [simp del]

lemma trim_keep_last: "trim dq = keep_last WINDOW dq"
proof (induction dq rule: trim.induct)
  case (1 dq)
  show ?case
  proof (cases "WINDOW < length dq")
    case True
    then have "length dq - WINDOW = Suc (length (tl dq) - WINDOW)" by simp
    then have "keep_last WINDOW (tl dq) = keep_last WINDOW dq"
      by (cases dq) (simp_all add: keep_last_def)
    with True 1 show ?thesis by (subst trim.simps) simp
  next
    case False
    then show ?thesis by (subst trim.simps) (simp add: window)
  qed
qed

definition cq_ok :: "constellation_quality \<Rightarrow> bool" where
  "cq_ok cq \<longleftrightarrow> length (cq_cnr cq) \<le> WINDOW \<and> length (cq_sat_counts cq) \<le> WINDOW"

definition mq_ok :: "mountpoint_quality \<Rightarrow> bool" where
  "mq_ok mq \<longleftrightarrow> dict_ok mq \<and> (\<forall>c cq. map_of mq c = Some cq \<longrightarrow> cq_ok cq)"

lemma cq_ok_new [simp]: "cq_ok new_constellation"
  by (simp add: cq_ok_def new_constellation_def)

lemma mq_ok_Nil [simp]: "mq_ok []"
  by (simp add: mq_ok_def)

lemma cq_ok_get: "mq_ok mq \<Longrightarrow> cq_ok (get_or_create mq c)"
  by (cases "map_of mq c") (auto simp: mq_ok_def get_or_create_def)

lemma mq_ok_set: "mq_ok mq \<Longrightarrow> cq_ok cq \<Longrightarrow> mq_ok (AList.update c cq mq)"
  by (auto simp: mq_ok_def dict_simps)

lemma mq_ok_record_cnr [intro]: "mq_ok mq \<Longrightarrow> mq_ok (record_cnr c vs mq)"
  using cq_ok_get [of mq c]
  by (auto simp: record_cnr_def Let_def cq_ok_def trim_keep_last length_keep_last intro!: mq_ok_set)

lemma mq_ok_record_sat [intro]: "mq_ok mq \<Longrightarrow> mq_ok (record_sat_count c n mq)"
  using cq_ok_get [of mq c]
  by (auto simp: record_sat_count_def Let_def cq_ok_def trim_keep_last length_keep_last intro!: mq_ok_set)

lemma get_record_cnr:
  "get_or_create (record_cnr c vs mq) c' =
     (if c' = c then (get_or_create mq c)\<lparr>cq_cnr := keep_last WINDOW (cq_cnr (get_or_create mq c) @ vs)\<rparr>
      else get_or_create mq c')"
  by (simp add: record_cnr_def get_or_create_def Let_def dict_simps trim_keep_last)

lemma get_record_sat:
  "get_or_create (record_sat_count c n mq) c' =
     (if c' = c
      then (get_or_create mq c)\<lparr>cq_sat_counts := keep_last WINDOW (cq_sat_counts (get_or_create mq c) @ [n])\<rparr>
      else get_or_create mq c')"
  by (simp add: record_sat_count_def get_or_create_def Let_def dict_simps trim_keep_last)

datatype quality_event = RecCnr string "real list" | RecSat string int

fun record_event :: "quality_event \<Rightarrow> mountpoint_quality \<Rightarrow> mountpoint_quality" where
  "record_event (RecCnr c vs) mq = record_cnr c vs mq"
| "record_event (RecSat c n) mq = record_sat_count c n mq"

fun cnr_of :: "string \<Rightarrow> quality_event \<Rightarrow> real list" where
  "cnr_of c (RecCnr c' vs) = (if c = c' then vs else [])"
| "cnr_of c (RecSat _ _) = []"

fun sat_of :: "string \<Rightarrow> quality_event \<Rightarrow> int list" where
  "sat_of c (RecSat c' n) = (if c = c' then [n] else [])"
| "sat_of c (RecCnr _ _) = []"

lemma windows_hold_newest:
  assumes "mq_ok mq"
  shows "cq_cnr (get_or_create (fold record_event es mq) c) =
      keep_last WINDOW (cq_cnr (get_or_create mq c) @ concat (map (cnr_of c) es)) \<and>
    cq_sat_counts (get_or_create (fold record_event es mq) c) =
      keep_last WINDOW (cq_sat_counts (get_or_create mq c) @ concat (map (sat_of c) es))"
  using assms
proof (induction es arbitrary: mq)
  case Nil
  then show ?case using cq_ok_get [of mq c] by (simp add: cq_ok_def window)
next
  case (Cons e es)
  have "mq_ok (record_event e mq)" using Cons.prems by (cases e) auto
  from Cons.IH [OF this] show ?case
    by (cases e) (auto simp: get_record_cnr get_record_sat window)
qed

section \<open>Where the percentiles lie\<close>

lemma sort_nth_mem: "i < length xs \<Longrightarrow> sort xs ! i \<in> set xs"
  using nth_mem [of i "sort xs"] by simp

lemma sort_nth_le: "i \<le> j \<Longrightarrow> j < length xs \<Longrightarrow> sort xs ! i \<le> sort xs ! j"
  using sorted_nth_mono [of "sort xs" i j] by simp

lemma sort_last_max: "x \<in> set xs \<Longrightarrow> x \<le> sort xs ! (length xs - 1)"
proof -
  assume "x \<in> set xs"
  then obtain i where "i < length xs" "sort xs ! i = x" by (metis in_set_conv_nth length_sort set_sort)
  then show ?thesis using sort_nth_le [of i "length xs - 1" xs] by auto
qed

lemma median_bounds:
  assumes "xs \<noteq> []"
  shows "sort xs ! 0 \<le> stat_median xs" "stat_median xs \<le> sort xs ! (length xs div 2)"
proof -
  have n: "length xs div 2 < length xs" using assms by simp
  have a: "sort xs ! 0 \<le> sort xs ! (length xs div 2 - 1)"
    using n by (intro sort_nth_le) auto
  have b: "sort xs ! (length xs div 2 - 1) \<le> sort xs ! (length xs div 2)"
    using n by (intro sort_nth_le) auto
  show "sort xs ! 0 \<le> stat_median xs" "stat_median xs \<le> sort xs ! (length xs div 2)"
    using a b by (auto simp: stat_median_def Let_def)
qed

lemma p95_small:
  assumes "2 \<le> length xs" "length xs \<le> 19"
  shows "last_of_20_quantiles xs = sort xs ! (length xs - 1) +
    (sort xs ! (length xs - 1) - sort xs ! (length xs - 2)) * (19 - real (length xs)) / 20"
proof -
  define n where "n = int (length xs)"
  have n: "2 \<le> n" "n \<le> 19" using assms by (simp_all add: n_def)
  then have "n \<le> 19 * (n + 1) div 20"
    using zdiv_mono1 [of "20 * n" "19 * (n + 1)" 20] by simp
  with n have j0: "n - 1 < 19 * (n + 1) div 20" "\<not> 19 * (n + 1) div 20 < 1" by linarith+
  have ix: "nat (n - 2) = length xs - 2" "nat (n - 1) = length xs - 1"
    using assms by (simp_all add: n_def nat_diff_distrib)
  have r: "real_of_int n = real (length xs)" by (simp add: n_def)
  show ?thesis
    unfolding last_of_20_quantiles_def stat_cut_def Let_def length_sort n_def [symmetric]
    using j0 n by (simp add: ix r field_simps)
qed

lemma p95_large:
  assumes "20 \<le> length xs"
  defines "j \<equiv> 19 * (length xs + 1) div 20"
  shows "length xs div 2 \<le> j - 1" "j < length xs" "sort xs ! (j - 1) \<le> last_of_20_quantiles xs"
    "last_of_20_quantiles xs \<le> sort xs ! j"
proof -
  define n where "n = int (length xs)"
  have n: "20 \<le> n" using assms by (simp add: n_def)
  have jn: "19 * (n + 1) div 20 = int j" by (simp add: n_def j_def zdiv_int)
  have "20 * (length xs div 2 + 1) \<le> 19 * (length xs + 1)"
    using assms(1) div_times_less_eq_dividend [of "length xs" 2] by simp
  from div_le_mono [OF this, of 20] have ge: "length xs div 2 + 1 \<le> j" by (simp add: j_def)
  then show "length xs div 2 \<le> j - 1" by linarith
  show lt: "j < length xs" unfolding j_def by (rule less_mult_imp_div_less) (use assms(1) in simp)
  from ge have j1: "1 \<le> j" by linarith
  define e where "e = real_of_int (19 * (n + 1) mod 20)"
  have e: "0 \<le> e" "e \<le> 20" unfolding e_def by simp_all
  have delta: "19 * (n + 1) - int j * 20 = 19 * (n + 1) mod 20"
    by (simp add: jn [symmetric] minus_div_mult_eq_mod)
  have ix: "nat (int j - 1) = j - 1" using j1 by simp
  have c: "\<not> int j < 1" "\<not> n - 1 < int j" using j1 lt by (auto simp: n_def)
  have eq: "last_of_20_quantiles xs = (sort xs ! (j - 1) * (20 - e) + sort xs ! j * e) / 20"
    unfolding last_of_20_quantiles_def stat_cut_def Let_def length_sort n_def [symmetric] jn
    by (simp only: c if_False delta ix nat_int e_def of_int_diff of_int_numeral)
  have m: "sort xs ! (j - 1) \<le> sort xs ! j" using lt by (intro sort_nth_le) auto
  have "sort xs ! (j - 1) * e \<le> sort xs ! j * e" "sort xs ! (j - 1) * (20 - e) \<le> sort xs ! j * (20 - e)"
    using m e by (auto intro: mult_right_mono)
  then show "sort xs ! (j - 1) \<le> last_of_20_quantiles xs" "last_of_20_quantiles xs \<le> sort xs ! j"
    unfolding eq by (simp_all add: field_simps)
qed

lemma median_le_p95:
  assumes "2 \<le> length xs"
  shows "stat_median xs \<le> last_of_20_quantiles xs"
proof (cases "length xs \<le> 19")
  case True
  have ne: "xs \<noteq> []" using assms by auto
  then have "stat_median xs \<le> sort xs ! (length xs - 1)"
    using median_bounds(2) [OF ne] sort_nth_le [of "length xs div 2" "length xs - 1" xs] assms by fastforce
  moreover have "0 \<le> (sort xs ! (length xs - 1) - sort xs ! (length xs - 2)) * (19 - real (length xs))"
    using True assms sort_nth_le [of "length xs - 2" "length xs - 1" xs] by (intro mult_nonneg_nonneg) auto
  ultimately show ?thesis using p95_small [OF assms True] by simp
next
  case False
  then have len: "20 \<le> length xs" by simp
  have ne: "xs \<noteq> []" using assms by auto
  from p95_large(1,2) [OF len] have "sort xs ! (length xs div 2) \<le> sort xs ! (19 * (length xs + 1) div 20 - 1)"
    by (intro sort_nth_le) auto
  with p95_large(3) [OF len] median_bounds(2) [OF ne] show ?thesis by linarith
qed

lemma p95_le_max:
  assumes "19 \<le> length xs"
  shows "last_of_20_quantiles xs \<le> sort xs ! (length xs - 1)"
proof (cases "length xs = 19")
  case True
  then show ?thesis using p95_small [of xs] by simp
next
  case False
  with assms have len: "20 \<le> length xs" by simp
  with p95_large(2) [OF len] have "sort xs ! (19 * (length xs + 1) div 20) \<le> sort xs ! (length xs - 1)"
    by (intro sort_nth_le) auto
  with p95_large(4) [OF len] show ?thesis by linarith
qed

text \<open>
  The summary of a non-empty window is ordered: the median lies between the smallest and the
  largest value, the 95th percentile is at least the median, and from nineteen values on it is at
  most the largest value.
\<close>
theorem percentiles_ordered:
  assumes "cq_cnr cq \<noteq> []" and "\<forall>x \<in> set (cq_cnr cq). lo \<le> x \<and> x \<le> hi"
  shows "\<exists>p50 p95. cnr_p50 cq = Some p50 \<and> cnr_p95 cq = Some p95 \<and> lo \<le> p50 \<and> p50 \<le> hi \<and>
    p50 \<le> p95 \<and> (19 \<le> length (cq_cnr cq) \<longrightarrow> p95 \<le> hi)"
proof -
  let ?xs = "cq_cnr cq"
  have in_range: "lo \<le> sort ?xs ! i \<and> sort ?xs ! i \<le> hi" if "i < length ?xs" for i
    using assms(2) sort_nth_mem [OF that] by blast
  have m: "lo \<le> stat_median ?xs" "stat_median ?xs \<le> hi"
    using median_bounds [OF assms(1)] in_range [of 0] in_range [of "length ?xs div 2"] assms(1)
    by (fastforce intro: order_trans)+
  show ?thesis
  proof (cases "length ?xs < 2")
    case True
    with assms obtain x where "?xs = [x]" by (cases ?xs) auto
    with m show ?thesis by (simp add: cnr_p50_def cnr_p95_def stat_median_def)
  next
    case False
    then have "2 \<le> length ?xs" by simp
    moreover have "last_of_20_quantiles ?xs \<le> hi" if "19 \<le> length ?xs"
      using p95_le_max [OF that] in_range [of "length ?xs - 1"] that by fastforce
    ultimately show ?thesis
      using m median_le_p95 [of ?xs] assms(1) by (simp add: cnr_p50_def cnr_p95_def)
  qed
qed

theorem percentiles_ordered_witness:
  "\<exists>p50 p95. cnr_p50 \<lparr>cq_cnr = [40, 50], cq_sat_counts = []\<rparr> = Some p50 \<and>
     cnr_p95 \<lparr>cq_cnr = [40, 50], cq_sat_counts = []\<rparr> = Some p95 \<and> 40 \<le> p50 \<and> p50 \<le> 50 \<and> p50 \<le> p95"
  using percentiles_ordered [of "\<lparr>cq_cnr = [40, 50], cq_sat_counts = []\<rparr>" 40 50] by auto

text \<open>
  With fewer than nineteen values in the window the reported 95th percentile overshoots: the
  exclusive method extrapolates, and whenever the two largest values differ the result is greater
  than every value observed.
\<close>
theorem p95_overshoots_small_windows:
  assumes "2 \<le> length (cq_cnr cq)" "length (cq_cnr cq) < 19"
    and "sort (cq_cnr cq) ! (length (cq_cnr cq) - 2) < sort (cq_cnr cq) ! (length (cq_cnr cq) - 1)"
  shows "\<exists>p. cnr_p95 cq = Some p \<and> (\<forall>x \<in> set (cq_cnr cq). x < p)"
proof -
  let ?xs = "cq_cnr cq"
  have "0 < (sort ?xs ! (length ?xs - 1) - sort ?xs ! (length ?xs - 2)) * (19 - real (length ?xs)) / 20"
    using assms by simp
  with p95_small [of ?xs] assms have "sort ?xs ! (length ?xs - 1) < last_of_20_quantiles ?xs" by simp
  then show ?thesis
    using sort_last_max [of _ ?xs] assms by (fastforce simp: cnr_p95_def)
qed

theorem p95_overshoots_small_windows_witness:
  "\<exists>p. cnr_p95 \<lparr>cq_cnr = [40, 50], cq_sat_counts = []\<rparr> = Some p \<and> 50 < p"
  using p95_overshoots_small_windows [of "\<lparr>cq_cnr = [40, 50], cq_sat_counts = []\<rparr>"] by auto

text \<open>
  The windows refine "the newest 200 observations": after any sequence of recordings, a
  constellation's two windows are the last \<open>WINDOW\<close> values recorded for it, in order, and recordings
  for other constellations do not touch them.
\<close>
theorem windows_keep_newest:
  "cq_cnr (get_or_create (fold record_event es []) c) = keep_last WINDOW (concat (map (cnr_of c) es)) \<and>
   cq_sat_counts (get_or_create (fold record_event es []) c) = keep_last WINDOW (concat (map (sat_of c) es))"
  using windows_hold_newest [of "[]" es c] by (simp add: get_or_create_def new_constellation_def)

end
