(* ===== verification/RtcmFraming.thy ===== *)
theory RtcmFraming
  imports CorsPrelude
begin

unbundle bit_operations_syntax

text \<open>
  RTCM3 framing (\<open>_split_rtcm_frames\<close> of \<open>ntrip/v2/caster.py\<close>). A position \<open>i\<close> of the code's loop is
  the suffix \<open>data[i:]\<close> here; the two are interchangeable because the loop only looks forward.
\<close>

section \<open>The splitter\<close>

definition RTCM3_PREAMBLE :: byte where
  "RTCM3_PREAMBLE = 0xD3"

definition RTCM3_MAX_FRAME :: nat where
  "RTCM3_MAX_FRAME = 1029"

text \<open>\<open>((data[i + 1] & 0x03) << 8) | data[i + 2]\<close>, on Python's integers.\<close>

definition frame_length_field :: "bytes \<Rightarrow> int" where
  "frame_length_field d = push_bit 8 (uint (d ! 1) AND 3) OR uint (d ! 2)"

definition frame_total :: "bytes \<Rightarrow> nat" where
  "frame_total d = nat (frame_length_field d + 6)"

lemma frame_length_field_arith:
  "frame_length_field d = (uint (d ! 1) mod 4) * 256 + uint (d ! 2)"
proof -
  have "uint (d ! 1) AND 3 = uint (d ! 1) mod 4"
    using take_bit_eq_mask [of 2 "uint (d ! 1)"]
    by (simp add: take_bit_eq_mod mask_eq_exp_minus_1)
  moreover have "push_bit 8 x OR uint (d ! 2) = push_bit 8 x + uint (d ! 2)" for x :: int
  proof -
    have y: "take_bit 8 (uint (d ! 2)) = uint (d ! 2)"
      using uint_lt2p [of "d ! 2"] by (simp add: take_bit_int_eq_self)
    have "concat_bit 8 (uint (d ! 2)) x = uint (d ! 2) + push_bit 8 x"
      by (simp add: concat_bit_eq y)
    moreover have "concat_bit 8 (uint (d ! 2)) x = uint (d ! 2) OR push_bit 8 x"
      by (simp add: concat_bit_def y)
    ultimately show ?thesis by (simp add: or.commute add.commute)
  qed
  ultimately show ?thesis
    by (simp add: frame_length_field_def push_bit_eq_mult)
qed

lemma frame_total_bounds: "6 \<le> frame_total d" "frame_total d \<le> RTCM3_MAX_FRAME"
proof -
  have "uint (d ! 2) < 256" using uint_lt2p [of "d ! 2"] by simp
  moreover have "0 \<le> uint (d ! 1) mod 4" "uint (d ! 1) mod 4 < 4" by simp_all
  moreover have "0 \<le> uint (d ! 2)" by simp
  ultimately have "0 \<le> frame_length_field d" "frame_length_field d \<le> 1023"
    unfolding frame_length_field_arith by linarith+
  then show "6 \<le> frame_total d" "frame_total d \<le> RTCM3_MAX_FRAME"
    by (simp_all add: frame_total_def RTCM3_MAX_FRAME_def)
qed

function split_rtcm_frames :: "bytes \<Rightarrow> bytes list \<times> bytes" where
  "split_rtcm_frames data =
     (case dropWhile (\<lambda>b. b \<noteq> RTCM3_PREAMBLE) data of
        [] \<Rightarrow> ([], [])
      | p # rest \<Rightarrow>
          if length (p # rest) < 3 then ([], p # rest)
          else if RTCM3_MAX_FRAME < frame_total (p # rest) then split_rtcm_frames rest
          else if length (p # rest) < frame_total (p # rest) then ([], p # rest)
          else (case split_rtcm_frames (drop (frame_total (p # rest)) (p # rest)) of
                  (frames, remainder) \<Rightarrow>
                    (take (frame_total (p # rest)) (p # rest) # frames, remainder)))"
  by pat_completeness auto
termination
proof (relation "measure length", goal_cases)
  case (2 data p rest)
  from length_dropWhile_le [of "\<lambda>b. b \<noteq> RTCM3_PREAMBLE" data] have "length (p # rest) \<le> length data"
    unfolding 2(1) .
  then show ?case by simp
next
  case (3 data p rest)
  from length_dropWhile_le [of "\<lambda>b. b \<noteq> RTCM3_PREAMBLE" data] have "length (p # rest) \<le> length data"
    unfolding 3(1) .
  with frame_total_bounds(1) [of "p # rest"] show ?case by simp
qed simp

declare split_rtcm_frames.simps [simp del]

section \<open>Frames\<close>

text \<open>What a complete RTCM3 frame looks like: the preamble and the announced length.\<close>

definition wf_frame :: "bytes \<Rightarrow> bool" where
  "wf_frame f \<longleftrightarrow> f \<noteq> [] \<and> hd f = RTCM3_PREAMBLE \<and> length f = frame_total f"

abbreviation no_preamble :: "bytes \<Rightarrow> bool" where
  "no_preamble j \<equiv> RTCM3_PREAMBLE \<notin> set j"

lemma frame_total_prefix: "3 \<le> length d \<Longrightarrow> frame_total (d @ b) = frame_total d"
  by (simp add: frame_total_def frame_length_field_def nth_append)

lemma frame_total_take: "frame_total (take (frame_total d) d) = frame_total d"
  using frame_total_bounds(1) [of d] by (simp add: frame_total_def frame_length_field_def)

lemma find_preamble_skip: "no_preamble j \<Longrightarrow> split_rtcm_frames (j @ d) = split_rtcm_frames d"
  by (subst (1 2) split_rtcm_frames.simps) (simp add: dropWhile_append3 dropWhile_append)

lemma split_no_preamble: "no_preamble d \<Longrightarrow> split_rtcm_frames d = ([], [])"
  using find_preamble_skip [of d "[]"] by (simp add: split_rtcm_frames.simps [of "[]"])

lemma find_preamble_cases:
  obtains (none) "no_preamble d"
  | (found) j d' where "d = j @ d'" "no_preamble j" "d' \<noteq> []" "hd d' = RTCM3_PREAMBLE"
proof (cases "dropWhile (\<lambda>b. b \<noteq> RTCM3_PREAMBLE) d")
  case Nil
  then have "no_preamble d" by (auto simp: dropWhile_eq_Nil_conv)
  then show ?thesis by (rule none)
next
  case (Cons p rest)
  have "d = takeWhile (\<lambda>b. b \<noteq> RTCM3_PREAMBLE) d @ p # rest"
    using takeWhile_dropWhile_id [of "\<lambda>b. b \<noteq> RTCM3_PREAMBLE" d] Cons by simp
  moreover have "no_preamble (takeWhile (\<lambda>b. b \<noteq> RTCM3_PREAMBLE) d)"
    using set_takeWhileD by fastforce
  moreover have "p = RTCM3_PREAMBLE" using Cons by (simp add: dropWhile_eq_Cons_conv)
  ultimately show ?thesis using found by (metis list.sel(1) list.distinct(1))
qed

text \<open>The three outcomes at a preamble; the "spurious 0xD3" branch of the code is never taken.\<close>

lemma split_at_preamble:
  assumes "d \<noteq> []" "hd d = RTCM3_PREAMBLE"
  shows "split_rtcm_frames d =
    (if length d < 3 \<or> length d < frame_total d then ([], d)
     else (take (frame_total d) d # fst (split_rtcm_frames (drop (frame_total d) d)),
           snd (split_rtcm_frames (drop (frame_total d) d))))"
proof -
  from assms obtain p rest where d: "d = p # rest" and p: "p = RTCM3_PREAMBLE"
    by (cases d) auto
  have "\<not> RTCM3_MAX_FRAME < frame_total d" using frame_total_bounds(2) [of d] by simp
  with d p show ?thesis
    by (subst split_rtcm_frames.simps) (simp add: case_prod_beta)
qed

text \<open>Induction over the data, one complete frame at a time.\<close>

lemma split_rtcm_induct [case_names junk partial frame]:
  assumes "\<And>d. no_preamble d \<Longrightarrow> P d"
    and "\<And>j d. no_preamble j \<Longrightarrow> d \<noteq> [] \<Longrightarrow> hd d = RTCM3_PREAMBLE \<Longrightarrow>
           length d < 3 \<or> length d < frame_total d \<Longrightarrow> P (j @ d)"
    and "\<And>j d. no_preamble j \<Longrightarrow> d \<noteq> [] \<Longrightarrow> hd d = RTCM3_PREAMBLE \<Longrightarrow>
           3 \<le> length d \<Longrightarrow> frame_total d \<le> length d \<Longrightarrow>
           P (drop (frame_total d) d) \<Longrightarrow> P (j @ d)"
  shows "P data"
proof (induction data rule: measure_induct_rule [where f = length])
  case (less data)
  show ?case
  proof (cases data rule: find_preamble_cases)
    case none
    then show ?thesis by (rule assms(1))
  next
    case (found j d')
    show ?thesis
    proof (cases "length d' < 3 \<or> length d' < frame_total d'")
      case True
      with found show ?thesis by (auto intro: assms(2))
    next
      case False
      from found(1,3) frame_total_bounds(1) [of d']
      have "length (drop (frame_total d') d') < length data"
        by (cases d') auto
      from False less.IH [OF this] found show ?thesis by (auto intro: assms(3))
    qed
  qed
qed

lemmas split_rtcm_simps = find_preamble_skip split_no_preamble split_at_preamble

section \<open>Chunk boundaries do not matter\<close>

lemma split_rtcm_append:
  "split_rtcm_frames (a @ b) =
     (fst (split_rtcm_frames a) @ fst (split_rtcm_frames (snd (split_rtcm_frames a) @ b)),
      snd (split_rtcm_frames (snd (split_rtcm_frames a) @ b)))"
proof (induction a rule: split_rtcm_induct)
  case (junk d)
  then show ?case by (simp add: split_rtcm_simps)
next
  case (partial j d)
  then show ?case by (simp add: split_rtcm_simps)
next
  case (frame j d)
  then have "frame_total (d @ b) = frame_total d" by (simp add: frame_total_prefix)
  with frame show ?case by (simp add: split_rtcm_simps hd_append)
qed

text \<open>The carry-over of \<open>_observe_rtcm_quality\<close>: the remainder is kept if it is short enough.\<close>

definition next_buffer :: "bytes \<Rightarrow> bytes" where
  "next_buffer r = (if r \<noteq> [] \<and> length r < RTCM3_MAX_FRAME then r else [])"

fun feed_chunks :: "bytes \<Rightarrow> bytes list \<Rightarrow> bytes list \<times> bytes" where
  "feed_chunks buf [] = ([], buf)"
| "feed_chunks buf (c # cs) =
     (case split_rtcm_frames (buf @ c) of
        (frames, remainder) \<Rightarrow>
          (case feed_chunks (next_buffer remainder) cs of (more, buf') \<Rightarrow> (frames @ more, buf')))"

lemma remainder_short: "length (snd (split_rtcm_frames d)) < RTCM3_MAX_FRAME"
proof (induction d rule: split_rtcm_induct)
  case (junk d)
  then show ?case by (simp add: split_rtcm_simps RTCM3_MAX_FRAME_def)
next
  case (partial j d)
  then show ?case
    using frame_total_bounds(2) [of d] by (auto simp: split_rtcm_simps RTCM3_MAX_FRAME_def)
next
  case (frame j d)
  then show ?case by (simp add: split_rtcm_simps)
qed

lemma next_buffer_remainder: "next_buffer (snd (split_rtcm_frames d)) = snd (split_rtcm_frames d)"
  using remainder_short [of d] by (simp add: next_buffer_def)

lemma split_remainder_again: "split_rtcm_frames (snd (split_rtcm_frames d)) = ([], snd (split_rtcm_frames d))"
  by (induction d rule: split_rtcm_induct) (auto simp: split_rtcm_simps split_no_preamble)

lemma feed_chunks_eq:
  "split_rtcm_frames buf = ([], buf) \<Longrightarrow> feed_chunks buf cs = split_rtcm_frames (buf @ concat cs)"
proof (induction cs arbitrary: buf)
  case (Cons c cs)
  obtain fs r where fr: "split_rtcm_frames (buf @ c) = (fs, r)" by fastforce
  then have "split_rtcm_frames r = ([], r)" and "next_buffer r = r"
    using split_remainder_again [of "buf @ c"] next_buffer_remainder [of "buf @ c"] by simp_all
  then have "feed_chunks (next_buffer r) cs = split_rtcm_frames (r @ concat cs)"
    using Cons.IH by simp
  then show ?case
    using split_rtcm_append [of "buf @ c" "concat cs"] fr by (simp add: case_prod_beta)
qed simp

section \<open>What is kept and what is discarded\<close>

lemma split_accounts:
  "\<exists>js j. length js = length (fst (split_rtcm_frames d)) \<and> list_all no_preamble (j # js) \<and>
     d = concat (map2 (@) js (fst (split_rtcm_frames d))) @ j @ snd (split_rtcm_frames d)"
proof (induction d rule: split_rtcm_induct)
  case (junk d)
  then show ?case by (intro exI [of _ "[]"] exI [of _ d]) (simp add: split_rtcm_simps)
next
  case (partial j d)
  then show ?case by (intro exI [of _ "[]"] exI [of _ j]) (simp add: split_rtcm_simps)
next
  case (frame j d)
  let ?t = "drop (frame_total d) d"
  from frame.IH obtain js j' where
    IH: "length js = length (fst (split_rtcm_frames ?t))" "list_all no_preamble (j' # js)"
      "?t = concat (map2 (@) js (fst (split_rtcm_frames ?t))) @ j' @ snd (split_rtcm_frames ?t)"
    by blast
  from frame.hyps have eq: "split_rtcm_frames (j @ d) =
      (take (frame_total d) d # fst (split_rtcm_frames ?t), snd (split_rtcm_frames ?t))"
    by (simp add: split_rtcm_simps)
  have "d = take (frame_total d) d @ concat (map2 (@) js (fst (split_rtcm_frames ?t))) @ j' @
      snd (split_rtcm_frames ?t)"
    using IH(3) by (metis append_take_drop_id)
  then show ?case
    using IH(1,2) frame.hyps(1) by (intro exI [of _ "j # js"] exI [of _ j']) (simp add: eq)
qed

lemma split_frames_wf: "f \<in> set (fst (split_rtcm_frames d)) \<Longrightarrow> wf_frame f"
proof (induction d rule: split_rtcm_induct)
  case (frame j d)
  have "take (frame_total d) d \<noteq> []" "hd (take (frame_total d) d) = hd d"
    using frame.hyps frame_total_bounds(1) [of d] by auto
  then have "wf_frame (take (frame_total d) d)"
    using frame.hyps frame_total_take [of d] by (simp add: wf_frame_def)
  with frame show ?case by (auto simp: split_rtcm_simps)
qed (auto simp: split_rtcm_simps)

lemma split_wf_frame:
  assumes "wf_frame f"
  shows "split_rtcm_frames (f @ d) = (f # fst (split_rtcm_frames d), snd (split_rtcm_frames d))"
proof -
  from assms have f: "f \<noteq> []" "hd f = RTCM3_PREAMBLE" "length f = frame_total f"
    by (auto simp: wf_frame_def)
  then have "6 \<le> length f" using frame_total_bounds(1) [of f] by simp
  moreover from this have "frame_total (f @ d) = length f"
    using f(3) by (simp add: frame_total_prefix)
  ultimately show ?thesis using f by (simp add: split_rtcm_simps hd_append)
qed

lemma split_resync:
  assumes "length js = length fs" "list_all no_preamble js" "list_all wf_frame fs"
  shows "split_rtcm_frames (concat (map2 (@) js fs) @ d) =
           (fs @ fst (split_rtcm_frames d), snd (split_rtcm_frames d))"
  using assms
  by (induction js fs rule: list_induct2) (simp_all add: split_rtcm_simps split_wf_frame)

section \<open>The loop as it is written\<close>

text \<open>\<open>data.find(b, i)\<close>; None stands for -1.\<close>

definition find_byte :: "byte \<Rightarrow> bytes \<Rightarrow> nat \<Rightarrow> nat option" where
  "find_byte b data i =
     (case dropWhile (\<lambda>x. x \<noteq> b) (drop i data) of
        [] \<Rightarrow> None
      | rest \<Rightarrow> Some (length data - length rest))"

text \<open>The index loop with its accumulator; None: the fuel ran out before the loop ended.\<close>

fun split_loop :: "nat \<Rightarrow> bytes \<Rightarrow> bytes list \<Rightarrow> nat \<Rightarrow> (bytes list \<times> bytes) option" where
  "split_loop 0 data frames i = None"
| "split_loop (Suc fuel) data frames i =
     (if i < length data
      then (case find_byte RTCM3_PREAMBLE data i of
              None \<Rightarrow> Some (frames, [])
            | Some j \<Rightarrow>
                if length data < j + 3 then Some (frames, drop j data)
                else
                  (let total = frame_total (drop j data) in
                   if RTCM3_MAX_FRAME < total then split_loop fuel data frames (j + 1)
                   else if length data < j + total then Some (frames, drop j data)
                   else split_loop fuel data (frames @ [take total (drop j data)]) (j + total)))
      else Some (frames, drop i data))"

lemma dropWhile_suffix: "dropWhile P (drop i data) = rest \<Longrightarrow> drop (length data - length rest) data = rest \<and> length rest \<le> length data - i"
proof -
  assume r: "dropWhile P (drop i data) = rest"
  then have "data = (take i data @ takeWhile P (drop i data)) @ rest"
    by (metis append.assoc append_take_drop_id takeWhile_dropWhile_id)
  moreover have "length rest \<le> length data - i"
    using length_dropWhile_le [of P "drop i data"] r by simp
  ultimately show ?thesis
    by (metis append_eq_conv_conj diff_add_inverse2 length_append)
qed

lemma split_loop_split:
  "length data - i < fuel \<Longrightarrow>
     split_loop fuel data frames i =
       Some (frames @ fst (split_rtcm_frames (drop i data)), snd (split_rtcm_frames (drop i data)))"
proof (induction fuel arbitrary: frames i)
  case (Suc fuel)
  show ?case
  proof (cases "i < length data")
    case False
    then show ?thesis by (simp add: split_rtcm_frames.simps [of "[]"])
  next
    case inside: True
    show ?thesis
    proof (cases "dropWhile (\<lambda>b. b \<noteq> RTCM3_PREAMBLE) (drop i data)")
      case Nil
      then have "no_preamble (drop i data)" by (auto simp: dropWhile_eq_Nil_conv)
      with inside Nil show ?thesis by (simp add: find_byte_def split_no_preamble del: dropWhile_eq_Nil_conv)
    next
      case (Cons p rest)
      from dropWhile_suffix [OF Cons] inside obtain j where
          j: "drop j data = p # rest" "find_byte RTCM3_PREAMBLE data i = Some j" "i \<le> j" "j < length data"
            "length (p # rest) = length data - j"
        by (auto simp: find_byte_def Cons)
      have step: "drop (j + k) data = drop k (p # rest)" for k
        using j(1) by (metis add.commute drop_drop)
      note total = frame_total_bounds(1) [of "p # rest"]
      have next_frame: "split_loop fuel data (frames @ [take (frame_total (p # rest)) (p # rest)]) (j + frame_total (p # rest)) =
          Some (frames @ take (frame_total (p # rest)) (p # rest) # fst (split_rtcm_frames (drop (frame_total (p # rest)) (p # rest))),
                snd (split_rtcm_frames (drop (frame_total (p # rest)) (p # rest))))"
        using Suc.prems j total by (subst Suc.IH) (simp_all add: step)
      have next_byte: "split_loop fuel data frames (j + 1) =
          Some (frames @ fst (split_rtcm_frames rest), snd (split_rtcm_frames rest))"
        using Suc.prems j by (subst Suc.IH) (simp_all add: step [of 1, simplified])
      have room: "length data < j + k \<longleftrightarrow> length (p # rest) < k" for k
        using j by linarith
      show ?thesis
        unfolding split_rtcm_frames.simps [of "drop i data"] Cons
        using inside by (simp add: j(1,2) room Let_def next_frame next_byte [simplified] split: prod.split del: length_Cons)
    qed
  qed
qed simp

section \<open>Properties\<close>

text \<open>
  C17: chunk boundaries do not matter. Feeding any sequence of HTTP chunks through the per-mountpoint
  buffer of \<open>_observe_rtcm_quality\<close> yields exactly the frames, and leaves exactly the remainder, that
  splitting the whole byte stream at once yields: no frame is lost, duplicated or cut.
\<close>
theorem chunked_stream_same_frames: "feed_chunks [] chunks = split_rtcm_frames (concat chunks)"
  by (subst feed_chunks_eq) (simp_all add: split_no_preamble)

text \<open>
  The splitter accounts for every byte. Its input is the frames it returns, in order, with
  only preamble-free junk before each of them and before the remainder; every returned frame starts
  with the preamble and has its announced length, and the remainder is always shorter than the
  largest frame, so the size guard on the buffer never discards one.
\<close>
theorem split_accounts_for_every_byte:
  "\<exists>js j. length js = length (fst (split_rtcm_frames d)) \<and> list_all no_preamble (j # js) \<and>
     d = concat (map2 (@) js (fst (split_rtcm_frames d))) @ j @ snd (split_rtcm_frames d) \<and>
     list_all wf_frame (fst (split_rtcm_frames d)) \<and>
     length (snd (split_rtcm_frames d)) < RTCM3_MAX_FRAME"
  using split_accounts [of d] split_frames_wf [of _ d] remainder_short [of d]
  by (fastforce simp: list_all_iff)

text \<open>
  Resynchronisation round trip. A stream made of well-formed frames, each preceded by any bytes
  that hold no preamble, followed by a tail that holds none, is split into exactly those frames with
  nothing left over.
\<close>
theorem split_recovers_frames:
  assumes "length js = length fs" "list_all no_preamble js" "list_all wf_frame fs" "no_preamble tail"
  shows "split_rtcm_frames (concat (map2 (@) js fs) @ tail) = (fs, [])"
  using split_resync [OF assms(1-3), of tail] assms(4) by (simp add: split_rtcm_simps)

lemma split_recovers_frames_witness:
  "split_rtcm_frames (concat (map2 (@) [[7, 8], []] [[0xD3, 0, 1, 42, 0xA, 0xB, 0xC], [0xD3, 0, 0, 1, 2, 3]]) @ [9])
     = ([[0xD3, 0, 1, 42, 0xA, 0xB, 0xC], [0xD3, 0, 0, 1, 2, 3]], [])"
  by (rule split_recovers_frames)
     (simp_all add: wf_frame_def RTCM3_PREAMBLE_def frame_total_def frame_length_field_def)

text \<open>
  C18: the splitter's loop ends and computes what its specification says: on every input it returns
  after at most one iteration per byte and a last one, with the frames and the remainder of
  \<open>split_rtcm_frames\<close>.
\<close>
theorem splitter_loop_returns: "split_loop (Suc (length data)) data [] 0 = Some (split_rtcm_frames data)"
  by (simp add: split_loop_split del: split_loop.simps)

end
