(* ===== verification/Observe.thy ===== *)
theory Observe
  imports Quality RtcmFraming
begin

text \<open>
  \<open>_observe_rtcm_quality\<close> of \<open>ntrip/v2/caster.py\<close>: reassembly of frames across chunks, one pass of the
  pyrtcm reader (a parameter) over each complete frame, message counters, tracking of the antenna
  reference point, satellite counts and carrier-to-noise values.
\<close>

section \<open>What the reader returns\<close>

text \<open>
  \<open>reader.read()\<close> raises, returns None as message, or returns a message with an identity and
  attributes in order. Numeric attributes of pyrtcm messages are finite scaled integers.
\<close>

datatype attr_value = AInt int | AReal real | AText string | AObj

datatype rtcm_outcome = RtcmRaises | RtcmUnknown | RtcmMsg string "(string \<times> attr_value) list"

record quality_config =
  qc_parse :: "bytes \<Rightarrow> rtcm_outcome"
  qc_arp_threshold :: pyfloat
  qc_high_cnr :: pyfloat

type_synonym position3 = "pyfloat \<times> pyfloat \<times> pyfloat"

record quality_state =
  qs_arp :: "(string, position3) dict"
  qs_buffer :: "(string, bytes) dict"
  qs_quality :: "(string, mountpoint_quality) dict"
  qs_log :: "pyfloat metric_op list"

definition log_metric :: "pyfloat metric_op list \<Rightarrow> quality_state \<Rightarrow> quality_state" where
  "log_metric ops s = s\<lparr>qs_log := qs_log s @ ops\<rparr>"

definition MSM_CONSTELLATION :: "int \<Rightarrow> string option" where
  "MSM_CONSTELLATION k = map_of
     [(107, ''GPS''), (108, ''GLONASS''), (109, ''Galileo''), (110, ''SBAS''), (111, ''QZSS''),
      (112, ''BeiDou''), (113, ''NavIC'')] k"

section \<open>One frame\<close>

text \<open>\<open>float(msg.DF025)\<close> and its two siblings, evaluated in order.\<close>

fun attr_float :: "attr_value option \<Rightarrow> py_error + pyfloat" where
  "attr_float None = Inl AttributeError"
| "attr_float (Some (AInt i)) = Inr (Fin (of_int i))"
| "attr_float (Some (AReal x)) = Inr (Fin x)"
| "attr_float (Some (AText s)) = (case py_float s of None \<Rightarrow> Inl ValueError | Some x \<Rightarrow> Inr x)"
| "attr_float (Some AObj) = Inl TypeError"

definition arp_of :: "(string \<times> attr_value) list \<Rightarrow> py_error + position3" where
  "arp_of attrs =
     andThen (attr_float (map_of attrs ''DF025'')) (\<lambda>x.
     andThen (attr_float (map_of attrs ''DF026'')) (\<lambda>y.
     andThen (attr_float (map_of attrs ''DF027'')) (\<lambda>z. Inr (x, y, z))))"

definition arp_deviation :: "position3 \<Rightarrow> position3 \<Rightarrow> pyfloat" where
  "arp_deviation p r =
     (case (p, r) of ((x, y, z), (rx, ry, rz)) \<Rightarrow>
        py_max3 (fabs (fsub x rx)) (fabs (fsub y ry)) (fabs (fsub z rz)))"

definition arp_gauges :: "string \<Rightarrow> position3 \<Rightarrow> pyfloat metric_op list" where
  "arp_gauges mountpoint p =
     (case p of (x, y, z) \<Rightarrow>
       [MSet ''base_station_arp_ecef_meters'' [mountpoint, ''x''] x,
        MSet ''base_station_arp_ecef_meters'' [mountpoint, ''y''] y,
        MSet ''base_station_arp_ecef_meters'' [mountpoint, ''z''] z])"

definition observe_arp :: "quality_config \<Rightarrow> string \<Rightarrow> position3 \<Rightarrow> quality_state \<Rightarrow> quality_state" where
  "observe_arp cfg mountpoint p s =
     (let s = log_metric (arp_gauges mountpoint p) s in
      case map_of (qs_arp s) mountpoint of
        None \<Rightarrow> s\<lparr>qs_arp := AList.update mountpoint p (qs_arp s)\<rparr>
      | Some ref \<Rightarrow>
          if qc_arp_threshold cfg < arp_deviation p ref
          then (log_metric [MInc ''base_station_arp_changes_total'' [mountpoint] 1] s)
                 \<lparr>qs_arp := AList.update mountpoint p (qs_arp s)\<rparr>
          else s)"

definition starts_with :: "string \<Rightarrow> string \<Rightarrow> bool" where
  "starts_with p s = (take (length p) s = p)"

fun positive_number :: "attr_value \<Rightarrow> real option" where
  "positive_number (AInt i) = (if 0 < i then Some (of_int i) else None)"
| "positive_number (AReal x) = (if 0 < x then Some x else None)"
| "positive_number _ = None"

definition cnr_batch :: "string \<Rightarrow> (string \<times> attr_value) list \<Rightarrow> real list" where
  "cnr_batch pre attrs =
     List.map_filter (\<lambda>(attr, v). if starts_with pre attr then positive_number v else None) attrs"

definition cnr_metrics :: "quality_config \<Rightarrow> string \<Rightarrow> string \<Rightarrow> real \<Rightarrow> pyfloat metric_op list" where
  "cnr_metrics cfg mountpoint constellation cnr =
     MObserve ''rtcm_signal_cnr_dbhz'' [mountpoint, constellation] (Fin cnr) #
     (if qc_high_cnr cfg < Fin cnr then [MInc ''rtcm_high_cnr_total'' [mountpoint, constellation] 1] else [])"

definition with_snapshot :: "bool \<Rightarrow> string \<Rightarrow> (mountpoint_quality \<Rightarrow> mountpoint_quality) \<Rightarrow> quality_state \<Rightarrow> quality_state" where
  "with_snapshot snapshots mountpoint f s =
     (if snapshots
      then s\<lparr>qs_quality := AList.update mountpoint (f (opt_default [] (map_of (qs_quality s) mountpoint))) (qs_quality s)\<rparr>
      else s)"

definition observe_satellites ::
  "bool \<Rightarrow> string \<Rightarrow> string \<Rightarrow> (string \<times> attr_value) list \<Rightarrow> quality_state \<Rightarrow> quality_state" where
  "observe_satellites snapshots mountpoint constellation attrs s =
     (let nsat = length (filter (\<lambda>(k, _). starts_with ''PRN_'' k) attrs) in
      if nsat = 0 then s
      else with_snapshot snapshots mountpoint (record_sat_count constellation (int nsat))
             (log_metric [MObserve ''rtcm_satellites_tracked'' [mountpoint, constellation] (Fin (real nsat))] s))"

definition observe_cnr ::
  "quality_config \<Rightarrow> bool \<Rightarrow> string \<Rightarrow> string \<Rightarrow> int \<Rightarrow> (string \<times> attr_value) list \<Rightarrow> quality_state \<Rightarrow> quality_state" where
  "observe_cnr cfg snapshots mountpoint constellation msm_variant attrs s =
     (if 4 \<le> msm_variant
      then (let batch = cnr_batch (if 6 \<le> msm_variant then ''DF408_'' else ''DF403_'') attrs;
                s = log_metric (concat (map (cnr_metrics cfg mountpoint constellation) batch)) s in
            if batch = [] then s
            else with_snapshot snapshots mountpoint (record_cnr constellation batch) s)
      else s)"

definition observe_msg ::
  "quality_config \<Rightarrow> bool \<Rightarrow> string \<Rightarrow> int \<Rightarrow> (string \<times> attr_value) list \<Rightarrow> quality_state \<Rightarrow> py_error option \<times> quality_state" where
  "observe_msg cfg snapshots mountpoint msg_type attrs s =
     (let s = log_metric [MInc ''rtcm_messages_total'' [mountpoint, str_of_int msg_type] 1] s in
      if msg_type = 1005 \<or> msg_type = 1006
      then (case arp_of attrs of
              Inl AttributeError \<Rightarrow> (None, s)
            | Inl e \<Rightarrow> (Some e, s)
            | Inr p \<Rightarrow> (None, observe_arp cfg mountpoint p s))
      else (case MSM_CONSTELLATION (msg_type div 10) of
              None \<Rightarrow> (None, s)
            | Some constellation \<Rightarrow>
                (None, observe_cnr cfg snapshots mountpoint constellation (msg_type mod 10) attrs
                         (observe_satellites snapshots mountpoint constellation attrs s))))"

definition observe_frame ::
  "quality_config \<Rightarrow> bool \<Rightarrow> string \<Rightarrow> bytes \<Rightarrow> quality_state \<Rightarrow> py_error option \<times> quality_state" where
  "observe_frame cfg snapshots mountpoint frame s =
     (case qc_parse cfg frame of
        RtcmRaises \<Rightarrow> (None, log_metric [MInc ''rtcm_parse_errors_total'' [mountpoint] 1] s)
      | RtcmUnknown \<Rightarrow> (None, s)
      | RtcmMsg identity attrs \<Rightarrow>
          (case py_int identity of
             None \<Rightarrow> (Some ValueError, s)
           | Some msg_type \<Rightarrow> observe_msg cfg snapshots mountpoint msg_type attrs s))"

section \<open>A chunk\<close>

text \<open>The loop over the frames: an uncaught exception ends it.\<close>

fun observe_frames ::
  "quality_config \<Rightarrow> bool \<Rightarrow> string \<Rightarrow> bytes list \<Rightarrow> quality_state \<Rightarrow> py_error option \<times> quality_state" where
  "observe_frames cfg snapshots mountpoint [] s = (None, s)"
| "observe_frames cfg snapshots mountpoint (f # fs) s =
     (case observe_frame cfg snapshots mountpoint f s of
        (Some e, s') \<Rightarrow> (Some e, s')
      | (None, s') \<Rightarrow> observe_frames cfg snapshots mountpoint fs s')"

definition buffered :: "string \<Rightarrow> quality_state \<Rightarrow> bytes" where
  "buffered mountpoint s = opt_default [] (map_of (qs_buffer s) mountpoint)"

definition set_remainder :: "string \<Rightarrow> bytes \<Rightarrow> (string, bytes) dict \<Rightarrow> (string, bytes) dict" where
  "set_remainder mountpoint r buf =
     (let buf = AList.delete mountpoint buf in
      if r \<noteq> [] \<and> length r < RTCM3_MAX_FRAME then AList.update mountpoint r buf else buf)"

definition observe_rtcm_quality ::
  "quality_config \<Rightarrow> bool \<Rightarrow> string \<Rightarrow> bytes \<Rightarrow> quality_state \<Rightarrow> py_error option \<times> quality_state" where
  "observe_rtcm_quality cfg snapshots mountpoint chunk s =
     (case split_rtcm_frames (buffered mountpoint s @ chunk) of
        (complete_frames, remainder) \<Rightarrow>
          observe_frames cfg snapshots mountpoint complete_frames
            (s\<lparr>qs_buffer := set_remainder mountpoint remainder (qs_buffer s)\<rparr>))"

section \<open>Parsing does not touch the buffers\<close>

named_theorems buffer_free \<open>steps that neither read nor write the frame buffers\<close>

lemma log_metric_buffer [buffer_free]: "log_metric ops (s\<lparr>qs_buffer := b\<rparr>) = (log_metric ops s)\<lparr>qs_buffer := b\<rparr>"
  by (simp add: log_metric_def)

lemma with_snapshot_buffer [buffer_free]:
  "with_snapshot sn mp f (s\<lparr>qs_buffer := b\<rparr>) = (with_snapshot sn mp f s)\<lparr>qs_buffer := b\<rparr>"
  by (simp add: with_snapshot_def)

lemma observe_arp_buffer [buffer_free]:
  "observe_arp cfg mp p (s\<lparr>qs_buffer := b\<rparr>) = (observe_arp cfg mp p s)\<lparr>qs_buffer := b\<rparr>"
  by (simp add: observe_arp_def log_metric_def Let_def split: option.split)

lemma observe_satellites_buffer [buffer_free]:
  "observe_satellites sn mp c attrs (s\<lparr>qs_buffer := b\<rparr>) = (observe_satellites sn mp c attrs s)\<lparr>qs_buffer := b\<rparr>"
  by (simp add: observe_satellites_def buffer_free Let_def)

lemma observe_cnr_buffer [buffer_free]:
  "observe_cnr cfg sn mp c v attrs (s\<lparr>qs_buffer := b\<rparr>) = (observe_cnr cfg sn mp c v attrs s)\<lparr>qs_buffer := b\<rparr>"
  by (simp add: observe_cnr_def buffer_free Let_def)

text \<open>Which exception a frame raises depends on the reader alone.\<close>

definition msg_error :: "int \<Rightarrow> (string \<times> attr_value) list \<Rightarrow> py_error option" where
  "msg_error msg_type attrs =
     (if msg_type = 1005 \<or> msg_type = 1006
      then (case arp_of attrs of Inl e \<Rightarrow> (if e = AttributeError then None else Some e) | Inr _ \<Rightarrow> None)
      else None)"

definition frame_error :: "quality_config \<Rightarrow> bytes \<Rightarrow> py_error option" where
  "frame_error cfg frame =
     (case qc_parse cfg frame of
        RtcmMsg identity attrs \<Rightarrow>
          (case py_int identity of None \<Rightarrow> Some ValueError | Some t \<Rightarrow> msg_error t attrs)
      | _ \<Rightarrow> None)"

lemma observe_msg_error: "fst (observe_msg cfg sn mp t attrs s) = msg_error t attrs"
  by (auto simp: observe_msg_def msg_error_def Let_def split: sum.split py_error.split option.split)

lemma observe_frame_error: "fst (observe_frame cfg sn mp f s) = frame_error cfg f"
  by (auto simp: observe_frame_def frame_error_def observe_msg_error split: rtcm_outcome.split option.split)

lemma observe_msg_buffer:
  "observe_msg cfg sn mp t attrs (s\<lparr>qs_buffer := b\<rparr>) =
     (let (e, s') = observe_msg cfg sn mp t attrs s in (e, s'\<lparr>qs_buffer := b\<rparr>))"
  by (simp add: observe_msg_def buffer_free Let_def split: sum.split py_error.split option.split)

lemma observe_frame_buffer:
  "observe_frame cfg sn mp f (s\<lparr>qs_buffer := b\<rparr>) =
     (let (e, s') = observe_frame cfg sn mp f s in (e, s'\<lparr>qs_buffer := b\<rparr>))"
  by (simp add: observe_frame_def observe_msg_buffer buffer_free split: rtcm_outcome.split option.split)

lemma observe_frames_buffer:
  "observe_frames cfg sn mp fs (s\<lparr>qs_buffer := b\<rparr>) =
     (let (e, s') = observe_frames cfg sn mp fs s in (e, s'\<lparr>qs_buffer := b\<rparr>))"
proof (induction fs arbitrary: s)
  case (Cons f fs)
  obtain e s' where "observe_frame cfg sn mp f s = (e, s')" by fastforce
  with Cons show ?case by (cases e) (simp_all add: observe_frame_buffer Let_def)
qed simp

lemma observe_frames_keeps_buffer: "qs_buffer (snd (observe_frames cfg sn mp fs s)) = qs_buffer s"
proof -
  let ?t = "snd (observe_frames cfg sn mp fs s)"
  have "?t = ?t\<lparr>qs_buffer := qs_buffer s\<rparr>"
    using observe_frames_buffer [where s = s and b = "qs_buffer s"]
    by (metis (no_types, lifting) case_prod_beta quality_state.surjective quality_state.update_convs(2)
        quality_state.select_convs(2) snd_conv)
  from arg_cong [OF this, of qs_buffer] show ?thesis by simp
qed

lemma observe_frames_error:
  "fst (observe_frames cfg sn mp fs s) = None \<longleftrightarrow> list_all (\<lambda>f. frame_error cfg f = None) fs"
proof (induction fs arbitrary: s)
  case (Cons f fs)
  obtain e s' where e: "observe_frame cfg sn mp f s = (e, s')" by fastforce
  then have "frame_error cfg f = e" using observe_frame_error [of cfg sn mp f s] by simp
  with e Cons show ?case by (cases e) simp_all
qed simp

lemma observe_frames_append:
  "list_all (\<lambda>f. frame_error cfg f = None) fs \<Longrightarrow>
     observe_frames cfg sn mp (fs @ gs) s = observe_frames cfg sn mp gs (snd (observe_frames cfg sn mp fs s))"
proof (induction fs arbitrary: s)
  case (Cons f fs)
  obtain e s' where e: "observe_frame cfg sn mp f s = (e, s')" by fastforce
  then have "frame_error cfg f = e" using observe_frame_error [of cfg sn mp f s] by simp
  with e Cons show ?case by simp
qed simp

section \<open>Chunk boundaries do not change the metrics\<close>

lemma set_remainder_twice: "set_remainder mp r2 (set_remainder mp r1 b) = set_remainder mp r2 b"
  by (simp add: set_remainder_def Let_def delete_update_same dict_simps)

lemma buffered_set_remainder:
  "buffered mp (s\<lparr>qs_buffer := set_remainder mp r b\<rparr>) = next_buffer r"
  by (simp add: buffered_def set_remainder_def next_buffer_def Let_def dict_simps)

lemma observe_two_chunks:
  assumes "list_all (\<lambda>f. frame_error cfg f = None) (fst (split_rtcm_frames (buffered mp s @ c1)))"
  shows "observe_rtcm_quality cfg sn mp c2 (snd (observe_rtcm_quality cfg sn mp c1 s)) =
         observe_rtcm_quality cfg sn mp (c1 @ c2) s"
proof -
  obtain fs1 r1 where 1: "split_rtcm_frames (buffered mp s @ c1) = (fs1, r1)" by fastforce
  obtain fs2 r2 where 2: "split_rtcm_frames (r1 @ c2) = (fs2, r2)" by fastforce
  have 3: "split_rtcm_frames (buffered mp s @ c1 @ c2) = (fs1 @ fs2, r2)"
    using split_rtcm_append [of "buffered mp s @ c1" c2] 1 2 by simp
  have r1: "next_buffer r1 = r1"
    using next_buffer_remainder [of "buffered mp s @ c1"] 1 by simp
  let ?S = "\<lambda>fs r. s\<lparr>qs_buffer := set_remainder mp r (qs_buffer s)\<rparr>"
  let ?s1 = "snd (observe_frames cfg sn mp fs1 s)"
  have s1: "snd (observe_rtcm_quality cfg sn mp c1 s) = ?s1\<lparr>qs_buffer := set_remainder mp r1 (qs_buffer s)\<rparr>"
    by (simp add: observe_rtcm_quality_def 1 observe_frames_buffer Let_def case_prod_beta)
  have buf: "buffered mp (?s1\<lparr>qs_buffer := set_remainder mp r1 (qs_buffer s)\<rparr>) = r1"
    by (simp add: buffered_set_remainder r1)
  show ?thesis
    using assms
    by (simp add: s1 observe_rtcm_quality_def buf 1 2 3 set_remainder_twice observe_frames_buffer
        observe_frames_append Let_def case_prod_beta)
qed

fun observe_chunks ::
  "quality_config \<Rightarrow> bool \<Rightarrow> string \<Rightarrow> bytes list \<Rightarrow> quality_state \<Rightarrow> quality_state" where
  "observe_chunks cfg sn mp [] s = s"
| "observe_chunks cfg sn mp (c # cs) s = observe_chunks cfg sn mp cs (snd (observe_rtcm_quality cfg sn mp c s))"

lemma observe_buffered_after:
  assumes "list_all (\<lambda>f. frame_error cfg f = None) (fst (split_rtcm_frames (buffered mp s @ c)))"
  shows "buffered mp (snd (observe_rtcm_quality cfg sn mp c s)) = snd (split_rtcm_frames (buffered mp s @ c))"
  by (simp add: observe_rtcm_quality_def observe_frames_buffer buffered_set_remainder next_buffer_remainder
      Let_def case_prod_beta)

lemma observe_chunks_concat:
  "cs \<noteq> [] \<Longrightarrow>
   list_all (\<lambda>f. frame_error cfg f = None) (fst (split_rtcm_frames (buffered mp s @ concat cs))) \<Longrightarrow>
     observe_chunks cfg sn mp cs s = snd (observe_rtcm_quality cfg sn mp (concat cs) s)"
proof (induction cs arbitrary: s)
  case (Cons c cs)
  let ?s = "snd (observe_rtcm_quality cfg sn mp c s)"
  from Cons.prems(2) have fine: "list_all (\<lambda>f. frame_error cfg f = None) (fst (split_rtcm_frames (buffered mp s @ c)))"
    and rest: "list_all (\<lambda>f. frame_error cfg f = None) (fst (split_rtcm_frames (buffered mp ?s @ concat cs)))"
    using split_rtcm_append [of "buffered mp s @ c" "concat cs"] by (simp_all add: observe_buffered_after)
  show ?case
  proof (cases "cs = []")
    case False
    from Cons.IH [OF False rest] observe_two_chunks [OF fine] show ?thesis by simp
  qed simp
qed simp

section \<open>Isolation and bounds\<close>

text \<open>Only the entries of one mountpoint change.\<close>

definition only_at :: "string \<Rightarrow> quality_state \<Rightarrow> quality_state \<Rightarrow> bool" where
  "only_at mp s s' \<longleftrightarrow> (\<forall>m. m \<noteq> mp \<longrightarrow> map_of (qs_arp s') m = map_of (qs_arp s) m \<and>
     map_of (qs_buffer s') m = map_of (qs_buffer s) m \<and> map_of (qs_quality s') m = map_of (qs_quality s) m)"

definition windows_ok :: "quality_state \<Rightarrow> bool" where
  "windows_ok s \<longleftrightarrow> dict_ok (qs_arp s) \<and> dict_ok (qs_quality s) \<and>
     (\<forall>m mq. map_of (qs_quality s) m = Some mq \<longrightarrow> mq_ok mq)"

definition buffers_ok :: "quality_state \<Rightarrow> bool" where
  "buffers_ok s \<longleftrightarrow> dict_ok (qs_buffer s) \<and>
     (\<forall>m b. map_of (qs_buffer s) m = Some b \<longrightarrow>
        b \<noteq> [] \<and> length b < RTCM3_MAX_FRAME \<and> split_rtcm_frames b = ([], b))"

text \<open>One step keeps both: it changes only the mountpoint's entries and keeps the windows bounded.\<close>

definition good_step :: "string \<Rightarrow> quality_state \<Rightarrow> quality_state \<Rightarrow> bool" where
  "good_step mp s s' \<longleftrightarrow> only_at mp s s' \<and> (windows_ok s \<longrightarrow> windows_ok s')"

named_theorems good_steps

lemma good_step_refl [good_steps]: "good_step mp s s"
  by (simp add: good_step_def only_at_def)

lemma good_step_trans: "good_step mp s t \<Longrightarrow> good_step mp t u \<Longrightarrow> good_step mp s u"
  by (auto simp: good_step_def only_at_def)

lemma good_log [good_steps]: "good_step mp s (log_metric ops s)"
  by (simp add: good_step_def only_at_def windows_ok_def log_metric_def)

lemma good_set_arp: "good_step mp s (s\<lparr>qs_arp := AList.update mp p (qs_arp s)\<rparr>)"
  by (auto simp: good_step_def only_at_def windows_ok_def dict_simps)

lemma good_arp [good_steps]: "good_step mp s (observe_arp cfg mp p s)"
proof -
  let ?s = "log_metric (arp_gauges mp p) s"
  have 1: "good_step mp s ?s" by (rule good_log)
  have 2: "good_step mp ?s (?s\<lparr>qs_arp := AList.update mp p (qs_arp ?s)\<rparr>)" by (rule good_set_arp)
  have 3: "good_step mp ?s ((log_metric ops ?s)\<lparr>qs_arp := AList.update mp p (qs_arp ?s)\<rparr>)" for ops
    by (auto simp: good_step_def only_at_def windows_ok_def dict_simps log_metric_def)
  show ?thesis
    using 1 2 3 good_step_trans by (auto simp: observe_arp_def Let_def split: option.split)
qed

lemma good_snapshot:
  assumes "\<And>mq. mq_ok mq \<Longrightarrow> mq_ok (f mq)"
  shows "good_step mp s (with_snapshot sn mp f s)"
  using assms
  by (cases "map_of (qs_quality s) mp")
     (auto simp: with_snapshot_def good_step_def only_at_def windows_ok_def dict_simps)

lemma good_satellites [good_steps]: "good_step mp s (observe_satellites sn mp c attrs s)"
  unfolding observe_satellites_def Let_def
  by (auto intro: good_steps good_step_trans [OF good_log] good_snapshot)

lemma good_cnr [good_steps]: "good_step mp s (observe_cnr cfg sn mp c v attrs s)"
  unfolding observe_cnr_def Let_def
  by (auto intro: good_steps good_step_trans [OF good_log] good_snapshot)

lemma good_msm: "good_step mp s (observe_cnr cfg sn mp c v attrs (observe_satellites sn mp c attrs (log_metric ops s)))"
  by (rule good_step_trans [OF good_log good_step_trans [OF good_satellites good_cnr]])

lemma good_msg: "good_step mp s (snd (observe_msg cfg sn mp t attrs s))"
  unfolding observe_msg_def Let_def
  by (simp add: good_log good_msm good_step_trans [OF good_log good_arp]
      split: sum.split py_error.split option.split)

lemma good_frame: "good_step mp s (snd (observe_frame cfg sn mp f s))"
  by (auto simp: observe_frame_def intro: good_steps good_msg split: rtcm_outcome.split option.split)

lemma good_frames: "good_step mp s (snd (observe_frames cfg sn mp fs s))"
proof (induction fs arbitrary: s)
  case (Cons f fs)
  obtain e s' where e: "observe_frame cfg sn mp f s = (e, s')" by fastforce
  with good_frame [of mp s cfg sn f] Cons.IH [of s'] show ?case
    by (cases e) (auto intro: good_step_trans)
qed (simp add: good_steps)

lemma buffers_ok_observe:
  assumes "buffers_ok s"
  shows "buffers_ok (snd (observe_rtcm_quality cfg sn mp c s))"
proof -
  obtain fs r where sp: "split_rtcm_frames (buffered mp s @ c) = (fs, r)" by fastforce
  then have "split_rtcm_frames r = ([], r)" using split_remainder_again [of "buffered mp s @ c"] by simp
  with assms sp show ?thesis
    by (auto simp: buffers_ok_def observe_rtcm_quality_def observe_frames_keeps_buffer set_remainder_def
        Let_def dict_simps split: if_splits)
qed

lemma good_observe: "good_step mp s (snd (observe_rtcm_quality cfg sn mp c s))"
proof -
  let ?s = "s\<lparr>qs_buffer := set_remainder mp (snd (split_rtcm_frames (buffered mp s @ c))) (qs_buffer s)\<rparr>"
  have "good_step mp s ?s"
    by (auto simp: good_step_def only_at_def windows_ok_def set_remainder_def Let_def dict_simps)
  from good_step_trans [OF this good_frames [of mp ?s cfg sn]] show ?thesis
    by (simp add: observe_rtcm_quality_def case_prod_beta)
qed

definition quality_ok :: "quality_state \<Rightarrow> bool" where
  "quality_ok s \<longleftrightarrow> windows_ok s \<and> buffers_ok s"

definition empty_quality :: quality_state where
  "empty_quality = \<lparr>qs_arp = [], qs_buffer = [], qs_quality = [], qs_log = []\<rparr>"

lemma quality_ok_empty [simp]: "quality_ok empty_quality"
  by (simp add: quality_ok_def windows_ok_def buffers_ok_def empty_quality_def)

lemma quality_ok_observe: "quality_ok s \<Longrightarrow> quality_ok (snd (observe_rtcm_quality cfg sn mp c s))"
  using good_observe [of mp s cfg sn c] buffers_ok_observe [of s]
  by (simp add: quality_ok_def good_step_def)

section \<open>Properties\<close>

text \<open>
  C33: observing a chunk keeps the quality state well formed whatever the bytes are and whatever the
  reader does with them, exceptions included: every window holds at most \<open>WINDOW\<close> values, every
  buffer holds one incomplete frame shorter than the largest frame, and no other mountpoint's
  reference position, buffer or windows change.
\<close>
theorem observe_bounded_and_isolated:
  assumes "quality_ok s"
  shows "quality_ok (snd (observe_rtcm_quality cfg snapshots mountpoint chunk s)) \<and>
         only_at mountpoint s (snd (observe_rtcm_quality cfg snapshots mountpoint chunk s))"
  using quality_ok_observe [OF assms] good_observe by (simp add: good_step_def)

definition demo_config :: quality_config where
  "demo_config = \<lparr>qc_parse = (\<lambda>f. if length f = 6 then RtcmMsg ''1074'' [(''PRN_01'', AText ''G01''), (''DF403_01'', AInt 44)]
       else RtcmRaises), qc_arp_threshold = Fin (1 / 100), qc_high_cnr = Fin 55\<rparr>"

theorem observe_bounded_and_isolated_witness:
  "quality_ok (snd (observe_rtcm_quality demo_config True ''BASE-1'' [0xD3, 0, 0, 1, 2, 3] empty_quality))"
  using observe_bounded_and_isolated [of empty_quality demo_config True "''BASE-1''" "[0xD3, 0, 0, 1, 2, 3]"]
  by simp



definition arp_changes :: "string \<Rightarrow> quality_state \<Rightarrow> int" where
  "arp_changes mp s = counter_value (qs_log s) ''base_station_arp_changes_total'' [mp]"

lemma arp_changes_step:
  "map_of (qs_arp s) mp = Some r \<Longrightarrow>
     arp_changes mp (observe_arp cfg mp p s) = arp_changes mp s + (if qc_arp_threshold cfg < arp_deviation p r then 1 else 0)"
  by (simp add: arp_changes_def observe_arp_def log_metric_def arp_gauges_def Let_def case_prod_beta)

lemma arp_reference_step:
  "map_of (qs_arp s) mp = Some r \<Longrightarrow>
     map_of (qs_arp (observe_arp cfg mp p s)) mp =
       Some (if qc_arp_threshold cfg < arp_deviation p r then p else r)"
  by (simp add: observe_arp_def log_metric_def Let_def dict_simps)

lemma arp_changes_mono:
  "map_of (qs_arp s) mp = Some r \<Longrightarrow> arp_changes mp s \<le> arp_changes mp (fold (observe_arp cfg mp) ps s)"
proof (induction ps arbitrary: s r)
  case (Cons p ps)
  from Cons.IH [OF arp_reference_step [OF Cons.prems, of cfg p]] arp_changes_step [OF Cons.prems, of cfg p]
  show ?case by (simp split: if_splits)
qed simp

lemma arp_unchanged_iff:
  "map_of (qs_arp s) mp = Some r \<Longrightarrow>
     arp_changes mp (fold (observe_arp cfg mp) ps s) = arp_changes mp s \<longleftrightarrow>
       list_all (\<lambda>q. \<not> qc_arp_threshold cfg < arp_deviation q r) ps"
proof (induction ps arbitrary: s)
  case (Cons p ps)
  note ref = arp_reference_step [OF Cons.prems, of cfg p]
  note chg = arp_changes_step [OF Cons.prems, of cfg p]
  show ?case
  proof (cases "qc_arp_threshold cfg < arp_deviation p r")
    case True
    then show ?thesis
      using arp_changes_mono [OF ref, of cfg ps] chg by simp
  next
    case False
    with Cons.IH [of "observe_arp cfg mp p s"] ref chg show ?thesis by simp
  qed
qed simp

text \<open>
  A moving antenna cannot hide behind small steps. Over any sequence of reported reference
  positions, starting with none known, the change counter stays put exactly when every position is
  within the threshold of the first one: the reference moves only when a change is counted, so
  drift accumulates until it is noticed.
\<close>
theorem arp_drift_is_counted:
  assumes "map_of (qs_arp s) mountpoint = None"
  shows "arp_changes mountpoint (fold (observe_arp cfg mountpoint) (p # ps) s) = arp_changes mountpoint s \<longleftrightarrow>
           list_all (\<lambda>q. \<not> qc_arp_threshold cfg < arp_deviation q p) ps"
proof -
  let ?s = "observe_arp cfg mountpoint p s"
  have "map_of (qs_arp ?s) mountpoint = Some p" "arp_changes mountpoint ?s = arp_changes mountpoint s"
    using assms
    by (simp_all add: observe_arp_def arp_changes_def log_metric_def arp_gauges_def Let_def dict_simps case_prod_beta)
  with arp_unchanged_iff [of ?s mountpoint p cfg ps] show ?thesis by simp
qed

theorem arp_drift_is_counted_witness:
  "arp_changes ''B'' (fold (observe_arp demo_config ''B'') [(Fin 0, Fin 0, Fin 0), (Fin 1, Fin 0, Fin 0)] empty_quality)
     \<noteq> arp_changes ''B'' empty_quality"
  using arp_drift_is_counted [of empty_quality "''B''" demo_config "(Fin 0, Fin 0, Fin 0)" "[(Fin 1, Fin 0, Fin 0)]"]
  by (simp add: empty_quality_def demo_config_def arp_deviation_def py_max3_def)

end
