(* ===== verification/NtripHeaders.thy ===== *)
theory NtripHeaders
  imports PyText
begin

text \<open>
  The NTRIP v2 header parsers and the distance function of \<open>ntrip/v2/headers.py\<close>: the base station's
  self-description \<open>Ntrip-STR\<close>, the rover's position \<open>Ntrip-GGA\<close> (the NMEA reader of pynmeagps is a
  parameter) and the haversine distance.
\<close>

section \<open>Ntrip-STR\<close>

text \<open>
  The keyword arguments that describe a mountpoint; \<open>None\<close> stands for a key that is absent. (The
  parser below never passes a Python None: it fills every key but \<open>identifier\<close> and \<open>mask\<close>.)
\<close>

record metadata =
  md_name :: "string option"
  md_identifier :: "string option"
  md_format :: "string option"
  md_format_detail :: "string option"
  md_carrier :: "int option"
  md_nav_system :: "string option"
  md_network :: "string option"
  md_country :: "string option"
  md_latitude :: "pyfloat option"
  md_longitude :: "pyfloat option"
  md_nmea :: "bool option"
  md_mask :: "pyfloat option"
  md_solution :: "int option"
  md_generator :: "string option"
  md_compression :: "string option"
  md_auth :: "string option"
  md_fee :: "string option"
  md_bitrate :: "int option"

definition no_metadata :: metadata where
  "no_metadata = \<lparr>md_name = None, md_identifier = None, md_format = None, md_format_detail = None,
     md_carrier = None, md_nav_system = None, md_network = None, md_country = None,
     md_latitude = None, md_longitude = None, md_nmea = None, md_mask = None, md_solution = None,
     md_generator = None, md_compression = None, md_auth = None, md_fee = None, md_bitrate = None\<rparr>"

definition str_defaults :: "string \<Rightarrow> metadata" where
  "str_defaults mountpoint_id = \<lparr>md_name = Some mountpoint_id, md_identifier = None,
     md_format = Some ''RTCM 3.3'', md_format_detail = Some [],
     md_carrier = Some 0, md_nav_system = Some [], md_network = Some [], md_country = Some ''UNK'',
     md_latitude = Some (Fin 0), md_longitude = Some (Fin 0), md_nmea = Some False, md_mask = None,
     md_solution = Some 0, md_generator = Some [], md_compression = Some [], md_auth = Some ''B'',
     md_fee = Some ''N'', md_bitrate = Some 0\<rparr>"

text \<open>Positions of the fields of an STR record, without its leading \<open>STR;\<close>.\<close>

abbreviation (input) STR_MOUNTPOINT :: nat where "STR_MOUNTPOINT \<equiv> 0"
abbreviation (input) STR_IDENTIFIER :: nat where "STR_IDENTIFIER \<equiv> 1"
abbreviation (input) STR_FORMAT :: nat where "STR_FORMAT \<equiv> 2"
abbreviation (input) STR_FORMAT_DETAIL :: nat where "STR_FORMAT_DETAIL \<equiv> 3"
abbreviation (input) STR_CARRIER :: nat where "STR_CARRIER \<equiv> 4"
abbreviation (input) STR_NAV_SYSTEM :: nat where "STR_NAV_SYSTEM \<equiv> 5"
abbreviation (input) STR_NETWORK :: nat where "STR_NETWORK \<equiv> 6"
abbreviation (input) STR_COUNTRY :: nat where "STR_COUNTRY \<equiv> 7"
abbreviation (input) STR_LATITUDE :: nat where "STR_LATITUDE \<equiv> 8"
abbreviation (input) STR_LONGITUDE :: nat where "STR_LONGITUDE \<equiv> 9"
abbreviation (input) STR_NMEA :: nat where "STR_NMEA \<equiv> 10"
abbreviation (input) STR_SOLUTION :: nat where "STR_SOLUTION \<equiv> 11"
abbreviation (input) STR_GENERATOR :: nat where "STR_GENERATOR \<equiv> 12"
abbreviation (input) STR_COMPRESSION :: nat where "STR_COMPRESSION \<equiv> 13"
abbreviation (input) STR_AUTH :: nat where "STR_AUTH \<equiv> 14"
abbreviation (input) STR_FEE :: nat where "STR_FEE \<equiv> 15"
abbreviation (input) STR_BITRATE :: nat where "STR_BITRATE \<equiv> 16"

definition str_field :: "string list \<Rightarrow> nat \<Rightarrow> string option" where
  "str_field fs i =
     (if length fs \<le> i then None else if fs ! i = [] then None else Some (fs ! i))"

definition int_field :: "string list \<Rightarrow> nat \<Rightarrow> int option" where
  "int_field fs i = (if length fs \<le> i then None else py_int (fs ! i))"

definition float_field :: "string list \<Rightarrow> nat \<Rightarrow> pyfloat option" where
  "float_field fs i = (if length fs \<le> i then None else py_float (fs ! i))"

text \<open>\<open>if (v := ...) is not None and P(v): defaults[key] = v\<close>\<close>

definition accept :: "('a \<Rightarrow> bool) \<Rightarrow> 'a option \<Rightarrow> 'a option \<Rightarrow> 'a option" where
  "accept P v d = (case v of None \<Rightarrow> d | Some x \<Rightarrow> if P x then Some x else d)"

abbreviation accept_any :: "'a option \<Rightarrow> 'a option \<Rightarrow> 'a option" where
  "accept_any \<equiv> accept (\<lambda>_. True)"

definition str_header_fields :: "string \<Rightarrow> string list" where
  "str_header_fields header =
     (let fs = map py_strip (split_on (CHR '';'') header) in
      if py_upper (hd fs) = ''STR'' then tl fs else fs)"

definition parse_str_fields :: "string list \<Rightarrow> string \<Rightarrow> metadata" where
  "parse_str_fields fs mountpoint_id =
     (let d = str_defaults mountpoint_id; coords = STR_LONGITUDE < length fs in
      \<lparr>md_name = accept_any (str_field fs STR_MOUNTPOINT) (md_name d),
       md_identifier = str_field fs STR_IDENTIFIER,
       md_format = accept_any (str_field fs STR_FORMAT) (md_format d),
       md_format_detail = accept_any (str_field fs STR_FORMAT_DETAIL) (md_format_detail d),
       md_carrier = accept (\<lambda>i. i \<in> set [0, 1, 2]) (int_field fs STR_CARRIER) (md_carrier d),
       md_nav_system = accept_any (str_field fs STR_NAV_SYSTEM) (md_nav_system d),
       md_network = accept_any (str_field fs STR_NETWORK) (md_network d),
       md_country = (if coords then map_option py_upper (accept (\<lambda>v. length v = 3) (str_field fs STR_COUNTRY) (md_country d))
                     else md_country d),
       md_latitude = (if coords then accept (\<lambda>f. Fin (- 90) \<le> f \<and> f \<le> Fin 90) (float_field fs STR_LATITUDE) (md_latitude d)
                      else md_latitude d),
       md_longitude = (if coords then accept (\<lambda>f. Fin (- 180) \<le> f \<and> f \<le> Fin 180) (float_field fs STR_LONGITUDE) (md_longitude d)
                       else md_longitude d),
       md_nmea = map_option (\<lambda>i. i = 1) (accept (\<lambda>i. i \<in> set [0, 1]) (int_field fs STR_NMEA) (Some 0)),
       md_mask = None,
       md_solution = accept (\<lambda>i. i \<in> set [0, 1]) (int_field fs STR_SOLUTION) (md_solution d),
       md_generator = accept_any (str_field fs STR_GENERATOR) (md_generator d),
       md_compression = accept_any (str_field fs STR_COMPRESSION) (md_compression d),
       md_auth = accept (\<lambda>v. v \<in> set [''N'', ''B'', ''D'']) (str_field fs STR_AUTH) (md_auth d),
       md_fee = accept (\<lambda>v. v \<in> set [''N'', ''Y'']) (str_field fs STR_FEE) (md_fee d),
       md_bitrate = accept (\<lambda>i. 0 \<le> i) (int_field fs STR_BITRATE) (md_bitrate d)\<rparr>)"

definition parse_ntrip_str :: "string option \<Rightarrow> string \<Rightarrow> metadata" where
  "parse_ntrip_str header mountpoint_id =
     (case header of
        None \<Rightarrow> str_defaults mountpoint_id
      | Some h \<Rightarrow>
          if h = [] then str_defaults mountpoint_id
          else parse_str_fields (str_header_fields h) mountpoint_id)"

section \<open>Ntrip-GGA\<close>

text \<open>
  What \<open>NMEAReader.parse\<close> may do: raise, return nothing, or return a message with an id and the
  attributes \<open>lat\<close> and \<open>lon\<close> (absent, None, a number or text).
\<close>

datatype nmea_value = NvMissing | NvNone | NvFloat pyfloat | NvText string

datatype nmea_outcome = NmeaRaises | NmeaNothing | NmeaMsg string nmea_value nmea_value

fun nmea_float :: "nmea_value \<Rightarrow> pyfloat option" where
  "nmea_float (NvFloat x) = Some x"
| "nmea_float (NvText s) = py_float s"
| "nmea_float _ = None"

definition parse_ntrip_gga :: "(string \<Rightarrow> nmea_outcome) \<Rightarrow> string option \<Rightarrow> (pyfloat \<times> pyfloat) option" where
  "parse_ntrip_gga nmea_parse header =
     (case header of
        None \<Rightarrow> None
      | Some h \<Rightarrow>
          if h = [] then None
          else (case nmea_parse (py_strip h) of
                  NmeaMsg msg_id lat lon \<Rightarrow>
                    if msg_id \<noteq> ''GGA'' then None
                    else (case (nmea_float lat, nmea_float lon) of
                            (Some x, Some y) \<Rightarrow> Some (x, y)
                          | _ \<Rightarrow> None)
                | _ \<Rightarrow> None))"

section \<open>Great-circle distance\<close>

definition R_EARTH_KM :: real where
  "R_EARTH_KM = 6371"

definition haversine :: "pyfloat \<Rightarrow> pyfloat \<Rightarrow> pyfloat \<Rightarrow> pyfloat \<Rightarrow> py_error + pyfloat" where
  "haversine lat1 lon1 lat2 lon2 =
     (let dlat = math_radians (fsub lat2 lat1); dlon = math_radians (fsub lon2 lon1) in
      andThen (math_sin (fhalf dlat)) (\<lambda>s1.
      andThen (math_cos (math_radians lat1)) (\<lambda>c1.
      andThen (math_cos (math_radians lat2)) (\<lambda>c2.
      andThen (math_sin (fhalf dlon)) (\<lambda>s2.
      let a = fadd (fsquare s1) (fmul (fmul c1 c2) (fsquare s2)) in
      andThen (math_sqrt a) (\<lambda>r.
      andThen (math_asin r) (\<lambda>t.
        Inr (fmul (fmul (Fin R_EARTH_KM) (Fin 2)) t))))))))"

text \<open>The haversine of the central angle, for angles in radians.\<close>

definition hav_arg :: "real \<Rightarrow> real \<Rightarrow> real \<Rightarrow> real \<Rightarrow> real" where
  "hav_arg p1 l1 p2 l2 = (sin ((p2 - p1) / 2))\<^sup>2 + cos p1 * cos p2 * (sin ((l2 - l1) / 2))\<^sup>2"

definition distance_km :: "real \<Rightarrow> real \<Rightarrow> real \<Rightarrow> real \<Rightarrow> real" where
  "distance_km lat1 lon1 lat2 lon2 =
     R_EARTH_KM * 2 * arcsin (sqrt (hav_arg (lat1 * pi / 180) (lon1 * pi / 180) (lat2 * pi / 180) (lon2 * pi / 180)))"

lemma sin_half_squared: "(sin (x / 2))\<^sup>2 = (1 - cos x) / (2::real)"
  using cos_double_sin [of "x / 2"] by simp

text \<open>
  The argument of the square root is half of one minus the inner product of two unit vectors, hence
  between 0 and 1: the calls of \<open>sqrt\<close> and \<open>asin\<close> never raise on finite positions.
\<close>

lemma hav_arg_inner:
  "hav_arg p1 l1 p2 l2 = (1 - (sin p1 * sin p2 + cos p1 * cos p2 * cos (l2 - l1))) / 2"
  by (simp add: hav_arg_def sin_half_squared cos_diff [of p2 p1] field_simps)

lemma amgm: "x * y \<le> (x\<^sup>2 + y\<^sup>2) / (2::real)"
  using sum_squares_bound [of x y] by (simp add: field_simps)

lemma inner_bound:
  fixes s1 s2 c1 c2 c :: real
  assumes "s1\<^sup>2 + c1\<^sup>2 = 1" "s2\<^sup>2 + c2\<^sup>2 = 1" "\<bar>c\<bar> \<le> 1"
  shows "\<bar>s1 * s2 + c1 * c2 * c\<bar> \<le> 1"
proof -
  have "\<bar>s1 * s2 + c1 * c2 * c\<bar> \<le> \<bar>s1\<bar> * \<bar>s2\<bar> + \<bar>c1\<bar> * \<bar>c2\<bar> * \<bar>c\<bar>"
    by (metis abs_mult abs_triangle_ineq)
  also have "\<dots> \<le> \<bar>s1\<bar> * \<bar>s2\<bar> + \<bar>c1\<bar> * \<bar>c2\<bar>"
    using assms(3) by (simp add: mult_left_le)
  also have "\<dots> \<le> (\<bar>s1\<bar>\<^sup>2 + \<bar>s2\<bar>\<^sup>2) / 2 + (\<bar>c1\<bar>\<^sup>2 + \<bar>c2\<bar>\<^sup>2) / 2"
    by (intro add_mono amgm)
  also have "\<dots> = 1" using assms(1,2) by (simp add: field_simps)
  finally show ?thesis .
qed

lemma hav_arg_range: "0 \<le> hav_arg p1 l1 p2 l2" "hav_arg p1 l1 p2 l2 \<le> 1"
proof -
  have "\<bar>sin p1 * sin p2 + cos p1 * cos p2 * cos (l2 - l1)\<bar> \<le> 1"
    by (rule inner_bound) (simp_all add: sin_cos_squared_add)
  then show "0 \<le> hav_arg p1 l1 p2 l2" "hav_arg p1 l1 p2 l2 \<le> 1"
    unfolding hav_arg_inner by (simp_all add: abs_le_iff)
qed

lemma hav_arg_sym: "hav_arg p1 l1 p2 l2 = hav_arg p2 l2 p1 l1"
  by (simp add: hav_arg_inner cos_diff mult.commute)

lemma hav_arg_same [simp]: "hav_arg p l p l = 0"
  by (simp add: hav_arg_def)

lemma hav_arg_degrees:
  "hav_arg (a * pi / 180) (b * pi / 180) (c * pi / 180) (d * pi / 180) =
     (sin ((c - a) * pi / 360))\<^sup>2 + cos (a * pi / 180) * cos (c * pi / 180) * (sin ((d - b) * pi / 360))\<^sup>2"
proof -
  have "(c * pi / 180 - a * pi / 180) / 2 = (c - a) * pi / 360"
    and "(d * pi / 180 - b * pi / 180) / 2 = (d - b) * pi / 360"
    by (simp_all add: field_simps)
  then show ?thesis by (simp only: hav_arg_def)
qed

lemma haversine_Fin: "haversine (Fin a) (Fin b) (Fin c) (Fin d) = Inr (Fin (distance_km a b c d))"
proof -
  define h where "h = hav_arg (a * pi / 180) (b * pi / 180) (c * pi / 180) (d * pi / 180)"
  have "0 \<le> h" "sqrt h \<le> 1" unfolding h_def using hav_arg_range by simp_all
  moreover from this have "- 1 \<le> sqrt h" using real_sqrt_ge_zero [of h] by linarith
  ultimately show ?thesis
    by (simp add: haversine_def distance_km_def Let_def flip: hav_arg_degrees h_def)
qed

lemma distance_sym: "distance_km a b c d = distance_km c d a b"
  by (simp add: distance_km_def hav_arg_sym)

lemma distance_same [simp]: "distance_km a b a b = 0"
  by (simp add: distance_km_def)

lemma distance_range: "0 \<le> distance_km a b c d" "distance_km a b c d \<le> R_EARTH_KM * pi"
proof -
  let ?h = "hav_arg (a * pi / 180) (b * pi / 180) (c * pi / 180) (d * pi / 180)"
  have h: "0 \<le> sqrt ?h" "sqrt ?h \<le> 1" using hav_arg_range by simp_all
  then have "- 1 \<le> sqrt ?h" by linarith
  with h have "0 \<le> arcsin (sqrt ?h)" "arcsin (sqrt ?h) \<le> pi / 2"
    using arcsin_le_arcsin [of 0 "sqrt ?h"] arcsin_le_arcsin [of "sqrt ?h" 1] by simp_all
  then show "0 \<le> distance_km a b c d" "distance_km a b c d \<le> R_EARTH_KM * pi"
    by (simp_all add: distance_km_def R_EARTH_KM_def)
qed

text \<open>
  On a NaN rover coordinate the distance is NaN; on an infinite one the call raises ValueError.
\<close>

lemma haversine_NaN: "haversine (Fin a) (Fin b) NaN (Fin d) = Inr NaN"
  by (simp add: haversine_def)

lemma haversine_NaN_lon: "haversine (Fin a) (Fin b) (Fin c) NaN = Inr NaN"
  by (simp add: haversine_def)

lemma haversine_PInf: "haversine (Fin a) (Fin b) PInf d = Inl ValueError"
  by (simp add: haversine_def fsub_def)

section \<open>Properties\<close>

definition opt_all :: "('a \<Rightarrow> bool) \<Rightarrow> 'a option \<Rightarrow> bool" where
  "opt_all P v = (case v of None \<Rightarrow> False | Some x \<Rightarrow> P x)"

lemma accept_all: "opt_all P d \<Longrightarrow> opt_all P (accept P v d)"
  by (auto simp: opt_all_def accept_def split: option.splits)

lemma accept_any_some: "opt_all (\<lambda>_. True) d \<Longrightarrow> opt_all (\<lambda>_. True) (accept_any v d)"
  by (rule accept_all)

text \<open>What \<open>Mountpoint\<close> and the source table expect of a description.\<close>

definition description_ok :: "metadata \<Rightarrow> bool" where
  "description_ok m \<longleftrightarrow>
     opt_all (\<lambda>_. True) (md_name m) \<and> opt_all (\<lambda>_. True) (md_format m) \<and>
     opt_all (\<lambda>i. i \<in> {0, 1, 2}) (md_carrier m) \<and>
     opt_all (\<lambda>v. length v = 3 \<and> py_upper v = v) (md_country m) \<and>
     opt_all (\<lambda>f. Fin (- 90) \<le> f \<and> f \<le> Fin 90) (md_latitude m) \<and>
     opt_all (\<lambda>f. Fin (- 180) \<le> f \<and> f \<le> Fin 180) (md_longitude m) \<and>
     opt_all (\<lambda>i. i \<in> {0, 1}) (md_solution m) \<and>
     opt_all (\<lambda>v. v \<in> {''N'', ''B'', ''D''}) (md_auth m) \<and>
     opt_all (\<lambda>v. v \<in> {''N'', ''Y''}) (md_fee m) \<and>
     opt_all (\<lambda>i. 0 \<le> i) (md_bitrate m) \<and>
     (\<forall>v. md_identifier m = Some v \<longrightarrow> v \<noteq> [])"

lemma description_ok_defaults: "description_ok (str_defaults i)"
  by (simp add: description_ok_def str_defaults_def opt_all_def to_upper_def is_lower_def)

lemma opt_all_country:
  "opt_all (\<lambda>v. length v = 3) d \<Longrightarrow>
     opt_all (\<lambda>v. length v = 3 \<and> py_upper v = v) (map_option py_upper (accept (\<lambda>v. length v = 3) v d))"
  by (auto simp: opt_all_def accept_def split: option.splits)

lemma str_field_nonempty: "str_field fs i = Some v \<Longrightarrow> v \<noteq> []"
  by (auto simp: str_field_def split: if_splits)

lemma description_ok_parsed: "description_ok (parse_str_fields fs i)"
proof -
  have d: "description_ok (str_defaults i)" by (rule description_ok_defaults)
  then have c: "opt_all (\<lambda>v. length v = 3) (md_country (str_defaults i))"
    by (simp add: description_ok_def opt_all_def str_defaults_def)
  show ?thesis
    unfolding description_ok_def parse_str_fields_def Let_def metadata.simps
    using d opt_all_country [OF c]
    by (auto simp: description_ok_def accept_all accept_any_some str_field_nonempty)
qed

lemma description_ok_parse: "description_ok (parse_ntrip_str header i)"
  by (simp add: parse_ntrip_str_def description_ok_parsed description_ok_defaults split: option.split)

text \<open>
  Whatever bytes a base station puts in \<open>Ntrip-STR\<close>, parsing it yields a usable description:
  a name and format are present, carrier, solution, auth and fee are legal codes, the coordinates
  are finite and in range (an out-of-range, infinite or NaN value is dropped), the country is three
  characters without lower case and the bit rate is not negative.
\<close>
theorem parse_ntrip_str_well_formed: "description_ok (parse_ntrip_str header mountpoint_id)"
  by (rule description_ok_parse)

text \<open>
  The distance function is total on finite positions (its calls of \<open>sqrt\<close> and \<open>asin\<close> never
  raise), symmetric, zero between equal positions, never negative and at most half the
  circumference of the Earth.
\<close>
theorem haversine_distance:
  "\<exists>d. haversine (Fin a) (Fin b) (Fin c) (Fin e) = Inr (Fin d) \<and>
     haversine (Fin c) (Fin e) (Fin a) (Fin b) = Inr (Fin d) \<and>
     haversine (Fin a) (Fin b) (Fin a) (Fin b) = Inr (Fin 0) \<and>
     0 \<le> d \<and> d \<le> R_EARTH_KM * pi"
  using distance_range [of a b c e] by (simp add: haversine_Fin distance_sym [of c e a b])

end
