(* ===== verification/Mountpoint.thy ===== *)
theory Mountpoint
  imports NtripHeaders
begin

text \<open>
  The dataclass \<open>Mountpoint\<close> of \<open>ntrip/v2/caster.py\<close>: its fields, the validation of \<open>__post_init__\<close>,
  construction from keyword arguments, and the attribute updates \<open>register\<close> makes when the
  mountpoint is already known (which do not validate).
\<close>

section \<open>The dataclass\<close>

record mountpoint =
  mp_name :: string
  mp_identifier :: "string option"
  mp_format :: "string option"
  mp_country :: "string option"
  mp_latitude :: "pyfloat option"
  mp_longitude :: "pyfloat option"
  mp_format_detail :: string
  mp_carrier :: int
  mp_nav_system :: string
  mp_network :: string
  mp_nmea :: bool
  mp_mask :: pyfloat
  mp_solution :: int
  mp_generator :: string
  mp_compression :: string
  mp_auth :: string
  mp_fee :: string
  mp_bitrate :: int
  mp_last_seen :: real

text \<open>
  A pattern that ends in the dollar anchor, used with \<open>re.match\<close>, also accepts its language
  followed by one newline at the very end of the text.
\<close>

definition re_dollar :: "(string \<Rightarrow> bool) \<Rightarrow> string \<Rightarrow> bool" where
  "re_dollar P s = (P s \<or> (s \<noteq> [] \<and> last s = CHR 0x0A \<and> P (butlast s)))"

definition name_char :: "char \<Rightarrow> bool" where
  "name_char c = (is_upper c \<or> is_lower c \<or> is_digit c \<or> c = CHR ''_'' \<or> c = CHR ''-'')"

definition plain_name :: "string \<Rightarrow> bool" where
  "plain_name s = (list_all name_char s \<and> 1 \<le> length s \<and> length s \<le> 100)"

definition mountpoint_re :: "string \<Rightarrow> bool" where
  "mountpoint_re s = re_dollar plain_name s"

definition identifier_re :: "string \<Rightarrow> bool" where
  "identifier_re s = (case s of [] \<Rightarrow> False | c # _ \<Rightarrow> c \<noteq> CHR '';'')"

definition plain_country :: "string \<Rightarrow> bool" where
  "plain_country s = (list_all is_upper s \<and> length s = 3)"

definition country_re :: "string \<Rightarrow> bool" where
  "country_re s = re_dollar plain_country s"

text \<open>\<open>if v and not P(v)\<close> and \<open>if v is not None and not P(v)\<close>\<close>

definition present_and_not :: "(string \<Rightarrow> bool) \<Rightarrow> string option \<Rightarrow> bool" where
  "present_and_not P v = (case v of None \<Rightarrow> False | Some s \<Rightarrow> s \<noteq> [] \<and> \<not> P s)"

definition given_and_not :: "('a \<Rightarrow> bool) \<Rightarrow> 'a option \<Rightarrow> bool" where
  "given_and_not P v = (case v of None \<Rightarrow> False | Some x \<Rightarrow> \<not> P x)"

definition post_init :: "mountpoint \<Rightarrow> py_error + mountpoint" where
  "post_init mp =
     (if \<not> mountpoint_re (mp_name mp) then Inl ValueError
      else if present_and_not identifier_re (mp_identifier mp) then Inl ValueError
      else if present_and_not country_re (mp_country mp) then Inl ValueError
      else if given_and_not (\<lambda>f. Fin (- 90) \<le> f \<and> f \<le> Fin 90) (mp_latitude mp) then Inl ValueError
      else if given_and_not (\<lambda>f. Fin (- 180) \<le> f \<and> f \<le> Fin 180) (mp_longitude mp) then Inl ValueError
      else if mp_mask mp < Fin 0 then Inl ValueError
      else Inr mp)"

text \<open>\<open>Mountpoint(name=name, **kwargs)\<close> at monotonic time \<open>now\<close>; \<open>name\<close> was popped from \<open>kwargs\<close>.\<close>

definition new_mountpoint :: "string \<Rightarrow> metadata \<Rightarrow> real \<Rightarrow> py_error + mountpoint" where
  "new_mountpoint name md now = post_init
     \<lparr>mp_name = name, mp_identifier = md_identifier md, mp_format = md_format md,
      mp_country = md_country md, mp_latitude = md_latitude md, mp_longitude = md_longitude md,
      mp_format_detail = opt_default [] (md_format_detail md),
      mp_carrier = opt_default 0 (md_carrier md),
      mp_nav_system = opt_default [] (md_nav_system md),
      mp_network = opt_default [] (md_network md),
      mp_nmea = opt_default False (md_nmea md), mp_mask = opt_default (Fin 0) (md_mask md),
      mp_solution = opt_default 0 (md_solution md),
      mp_generator = opt_default [] (md_generator md),
      mp_compression = opt_default [] (md_compression md),
      mp_auth = opt_default ''B'' (md_auth md), mp_fee = opt_default ''N'' (md_fee md),
      mp_bitrate = opt_default 0 (md_bitrate md), mp_last_seen = now\<rparr>"

text \<open>
  The \<open>setattr\<close> loop over \<open>_METADATA_FIELDS\<close>: every given value replaces the attribute, \<open>name\<close>
  included; \<open>identifier\<close> is not among the fields and \<open>last_seen\<close> is untouched.
\<close>

definition or_keep :: "'a option \<Rightarrow> 'a option \<Rightarrow> 'a option" where
  "or_keep new old = (case new of None \<Rightarrow> old | Some x \<Rightarrow> Some x)"

definition update_metadata :: "metadata \<Rightarrow> mountpoint \<Rightarrow> mountpoint" where
  "update_metadata md mp = mp
     \<lparr>mp_name := opt_default (mp_name mp) (md_name md),
      mp_format := or_keep (md_format md) (mp_format mp),
      mp_format_detail := opt_default (mp_format_detail mp) (md_format_detail md),
      mp_carrier := opt_default (mp_carrier mp) (md_carrier md),
      mp_nav_system := opt_default (mp_nav_system mp) (md_nav_system md),
      mp_network := opt_default (mp_network mp) (md_network md),
      mp_country := or_keep (md_country md) (mp_country mp),
      mp_latitude := or_keep (md_latitude md) (mp_latitude mp),
      mp_longitude := or_keep (md_longitude md) (mp_longitude mp),
      mp_nmea := opt_default (mp_nmea mp) (md_nmea md),
      mp_mask := opt_default (mp_mask mp) (md_mask md),
      mp_solution := opt_default (mp_solution mp) (md_solution md),
      mp_generator := opt_default (mp_generator mp) (md_generator md),
      mp_compression := opt_default (mp_compression mp) (md_compression md),
      mp_auth := opt_default (mp_auth mp) (md_auth md),
      mp_fee := opt_default (mp_fee mp) (md_fee md),
      mp_bitrate := opt_default (mp_bitrate mp) (md_bitrate md)\<rparr>"

section \<open>What validation gives\<close>

definition mountpoint_valid :: "mountpoint \<Rightarrow> bool" where
  "mountpoint_valid mp \<longleftrightarrow>
     mountpoint_re (mp_name mp) \<and>
     (\<forall>v. mp_identifier mp = Some v \<longrightarrow> v = [] \<or> identifier_re v) \<and>
     (\<forall>v. mp_country mp = Some v \<longrightarrow> v = [] \<or> country_re v) \<and>
     (\<forall>f. mp_latitude mp = Some f \<longrightarrow> (\<exists>x. f = Fin x \<and> \<bar>x\<bar> \<le> 90)) \<and>
     (\<forall>f. mp_longitude mp = Some f \<longrightarrow> (\<exists>x. f = Fin x \<and> \<bar>x\<bar> \<le> 180)) \<and>
     \<not> mp_mask mp < Fin 0"

lemma within_iff: "Fin (- b) \<le> f \<and> f \<le> Fin b \<longleftrightarrow> (\<exists>x. f = Fin x \<and> \<bar>x\<bar> \<le> b)"
  by (cases f) auto

lemma post_init_iff: "post_init mp = Inr mp' \<longleftrightarrow> mp' = mp \<and> mountpoint_valid mp"
  by (auto simp: post_init_def mountpoint_valid_def present_and_not_def given_and_not_def within_iff
      split: option.splits)

lemma post_init_error: "post_init mp = Inl e \<longleftrightarrow> e = ValueError \<and> \<not> mountpoint_valid mp"
proof (cases "post_init mp")
  case (Inl e')
  then have "e' = ValueError" by (auto simp: post_init_def split: if_splits)
  with Inl post_init_iff [of mp mp] show ?thesis by auto
next
  case (Inr mp')
  then show ?thesis using post_init_iff [of mp mp'] by auto
qed

lemmas post_init_simps = post_init_iff post_init_error

lemma new_mountpoint_name: "new_mountpoint name md now = Inr mp \<Longrightarrow> mp_name mp = name"
  by (auto simp: new_mountpoint_def post_init_iff)

lemma new_mountpoint_seen: "new_mountpoint name md now = Inr mp \<Longrightarrow> mp_last_seen mp = now"
  by (auto simp: new_mountpoint_def post_init_iff)

lemma new_mountpoint_valid: "new_mountpoint name md now = Inr mp \<Longrightarrow> mountpoint_valid mp"
  by (auto simp: new_mountpoint_def post_init_iff)

lemma new_mountpoint_errors: "new_mountpoint name md now = Inl e \<Longrightarrow> e = ValueError"
  by (auto simp: new_mountpoint_def post_init_error)

lemma update_metadata_keeps [simp]:
  "mp_identifier (update_metadata md mp) = mp_identifier mp"
  "mp_last_seen (update_metadata md mp) = mp_last_seen mp"
  by (simp_all add: update_metadata_def)

lemma update_metadata_name: "mp_name (update_metadata md mp) = opt_default (mp_name mp) (md_name md)"
  by (simp add: update_metadata_def)

lemma update_no_metadata [simp]: "update_metadata no_metadata mp = mp"
  by (simp add: update_metadata_def no_metadata_def or_keep_def)

text \<open>
  What a parsed \<open>Ntrip-STR\<close> leaves to check when the mountpoint is created: the path segment and
  the letters of the country.
\<close>

lemma header_fields_from: "set (str_header_fields h) \<subseteq> py_strip ` set (split_on CHR '';'' h)"
  by (cases "split_on CHR '';'' h") (auto simp: str_header_fields_def Let_def)

lemma header_fields_clean: "x \<in> set (str_header_fields h) \<Longrightarrow> CHR '';'' \<notin> set x"
  using header_fields_from [of h] set_py_strip split_on_no_sep by fastforce

lemma identifier_parsed:
  assumes "md_identifier (parse_str_fields (str_header_fields h) i) = Some v"
  shows "identifier_re v"
proof -
  from assms have "v \<in> set (str_header_fields h)" "v \<noteq> []"
    by (auto simp: parse_str_fields_def str_field_def Let_def not_le split: if_splits)
  with header_fields_clean [of v h] show ?thesis
    by (cases v) (auto simp: identifier_re_def)
qed

lemma description_identifier: "md_identifier (parse_ntrip_str header i) = Some v \<Longrightarrow> identifier_re v"
  by (auto simp: parse_ntrip_str_def str_defaults_def dest: identifier_parsed split: option.splits if_splits)

lemma description_mask: "md_mask (parse_ntrip_str header i) = None"
  by (auto simp: parse_ntrip_str_def str_defaults_def parse_str_fields_def Let_def split: option.splits)

definition creatable :: "string \<Rightarrow> metadata \<Rightarrow> bool" where
  "creatable name md \<longleftrightarrow> mountpoint_re name \<and> \<not> present_and_not country_re (md_country md)"

lemma described_coordinates:
  assumes "description_ok md"
  shows "\<not> given_and_not (\<lambda>f. Fin (- 90) \<le> f \<and> f \<le> Fin 90) (md_latitude md)"
    "\<not> given_and_not (\<lambda>f. Fin (- 180) \<le> f \<and> f \<le> Fin 180) (md_longitude md)"
  using assms by (auto simp: description_ok_def opt_all_def given_and_not_def split: option.splits)

lemma described_identifier: "\<not> present_and_not identifier_re (md_identifier (parse_ntrip_str header i))"
  by (auto simp: present_and_not_def dest: description_identifier split: option.splits)

lemma new_mountpoint_described:
  fixes header name
  defines "md \<equiv> parse_ntrip_str header name"
  shows "(\<exists>mp. new_mountpoint name md now = Inr mp) \<longleftrightarrow> creatable name md"
proof -
  have d: "description_ok md"
    by (simp add: md_def parse_ntrip_str_def description_ok_parsed description_ok_defaults split: option.split)
  show ?thesis
    using described_coordinates [OF d] described_identifier [of header name] description_mask [of header name]
    by (simp add: new_mountpoint_def post_init_def creatable_def flip: md_def)
qed

text \<open>
  Creating a mountpoint from any \<open>Ntrip-STR\<close> header succeeds exactly when the path segment
  passes the name pattern and the described country passes the country pattern; the new entry
  carries the path segment as its name, starts its silence clock at the time of the call and
  satisfies every validated constraint; every failure is a ValueError.
\<close>
theorem creation_validates:
  "case new_mountpoint name (parse_ntrip_str header name) now of
     Inr mp \<Rightarrow> creatable name (parse_ntrip_str header name) \<and>
               mp_name mp = name \<and> mp_last_seen mp = now \<and> mountpoint_valid mp
   | Inl e \<Rightarrow> e = ValueError \<and> \<not> creatable name (parse_ntrip_str header name)"
proof (cases "new_mountpoint name (parse_ntrip_str header name) now")
  case (Inl e)
  with new_mountpoint_described [where header = header and name = name and now = now] show ?thesis
    by (auto dest: new_mountpoint_errors)
next
  case (Inr mp)
  with new_mountpoint_described [where header = header and name = name and now = now] show ?thesis
    by (auto dest: new_mountpoint_valid new_mountpoint_name new_mountpoint_seen)
qed

end
