(* ===== verification/Sourcetable.thy ===== *)
theory Sourcetable
  imports Mountpoint
begin

text \<open>
  The source table of \<open>ntrip/v2/sourcetable.py\<close>: one STR record per registered mountpoint, CRLF
  line ends, closed by ENDSOURCETABLE. The theorems read the table back, line by line and field by
  field, with the parser of \<open>headers.py\<close>.
\<close>

section \<open>Rendering\<close>

abbreviation CRLF :: string where
  "CRLF \<equiv> [CHR 0x0D, CHR 0x0A]"

definition coordinate_text :: "pyfloat option \<Rightarrow> string" where
  "coordinate_text v = (case v of None \<Rightarrow> [] | Some f \<Rightarrow> format_2f f)"

definition str_record_fields :: "mountpoint \<Rightarrow> string list" where
  "str_record_fields mp =
     [''STR'',
      mp_name mp,
      opt_default [] (mp_identifier mp),
      opt_default [] (mp_format mp),
      mp_format_detail mp,
      str_of_int (mp_carrier mp),
      mp_nav_system mp,
      mp_network mp,
      opt_default [] (mp_country mp),
      coordinate_text (mp_latitude mp),
      coordinate_text (mp_longitude mp),
      (if mp_nmea mp then ''1'' else ''0''),
      str_of_int (mp_solution mp),
      mp_generator mp,
      mp_compression mp,
      mp_auth mp,
      mp_fee mp,
      str_of_int (mp_bitrate mp),
      []]"

definition str_record :: "mountpoint \<Rightarrow> string" where
  "str_record mp = py_join '';'' (str_record_fields mp)"

definition format_sourcetable :: "(string, mountpoint) dict \<Rightarrow> string" where
  "format_sourcetable mountpoints =
     py_join CRLF (map (\<lambda>e. str_record (snd e)) mountpoints @ [''ENDSOURCETABLE'']) @ CRLF"

section \<open>Reading the table back\<close>

text \<open>A client's view: the lines between CRLFs, up to the sentinel.\<close>

fun crlf_lines :: "string \<Rightarrow> string list" where
  "crlf_lines [] = [[]]"
| "crlf_lines [c] = [[c]]"
| "crlf_lines (c # d # s) =
     (if c = CHR 0x0D \<and> d = CHR 0x0A then [] # crlf_lines s
      else (c # hd (crlf_lines (d # s))) # tl (crlf_lines (d # s)))"

definition read_table :: "string \<Rightarrow> string list" where
  "read_table text = takeWhile (\<lambda>l. l \<noteq> ''ENDSOURCETABLE'') (crlf_lines text)"

lemma crlf_lines_nonempty [simp]: "crlf_lines s \<noteq> []"
  by (induction s rule: crlf_lines.induct) auto

lemma crlf_lines_append: "CHR 0x0D \<notin> set l \<Longrightarrow> crlf_lines (l @ CRLF @ s) = l # crlf_lines s"
proof (induction l)
  case Nil
  show ?case by simp
next
  case (Cons c l)
  then show ?case by (cases l) auto
qed

lemma crlf_lines_join:
  "xs \<noteq> [] \<Longrightarrow> list_all (\<lambda>x. CHR 0x0D \<notin> set x) xs \<Longrightarrow> crlf_lines (py_join CRLF xs @ CRLF) = xs @ [[]]"
proof (induction xs rule: induct_list012)
  case (2 x)
  then show ?case using crlf_lines_append [of x "[]"] by simp
next
  case (3 x y zs)
  then show ?case using crlf_lines_append [of x "py_join CRLF (y # zs) @ CRLF"] by simp
qed simp

text \<open>A text field that survives: no separator, no line end, no surrounding white space.\<close>

definition field_ok :: "string \<Rightarrow> bool" where
  "field_ok s \<longleftrightarrow> stripped s \<and> CHR '';'' \<notin> set s \<and> CHR 0x0D \<notin> set s"

lemma field_ok_literals [simp]:
  "field_ok []" "field_ok ''0''" "field_ok ''1''" "field_ok ''STR''" "field_ok ''UNK''"
  "field_ok ''RTCM 3.3''" "field_ok ''B''" "field_ok ''N''" "field_ok ''D''" "field_ok ''Y''"
  by (simp_all add: field_ok_def stripped_def is_space_def)

lemma field_ok_str_of_int [simp]: "field_ok (str_of_int i)"
  by (simp add: field_ok_def char_free_str_of_int is_digit_def)

lemma field_ok_format_2f [simp]: "field_ok (format_2f (Fin x))"
  by (simp add: field_ok_def format_2f_free is_digit_def)

text \<open>What the record of a mountpoint must satisfy to be read back.\<close>

definition coordinate_ok :: "nat \<Rightarrow> pyfloat option \<Rightarrow> bool" where
  "coordinate_ok b v = (case v of None \<Rightarrow> True | Some f \<Rightarrow> (\<exists>x. f = Fin x \<and> \<bar>x\<bar> \<le> real b))"

lemma coordinate_ok_Fin [simp]: "coordinate_ok b (Some (Fin x)) \<longleftrightarrow> \<bar>x\<bar> \<le> real b"
  by (simp add: coordinate_ok_def)

definition text_field_ok :: "string option \<Rightarrow> bool" where
  "text_field_ok v = field_ok (opt_default [] v)"

definition table_ok :: "mountpoint \<Rightarrow> bool" where
  "table_ok mp \<longleftrightarrow>
     mp_name mp \<noteq> [] \<and> field_ok (mp_name mp) \<and> text_field_ok (mp_identifier mp) \<and>
     text_field_ok (mp_format mp) \<and> field_ok (mp_format_detail mp) \<and>
     mp_carrier mp \<in> {0, 1, 2} \<and> field_ok (mp_nav_system mp) \<and> field_ok (mp_network mp) \<and>
     text_field_ok (mp_country mp) \<and>
     (\<forall>v. mp_country mp = Some v \<longrightarrow> v = [] \<or> (length v = 3 \<and> py_upper v = v)) \<and>
     coordinate_ok 90 (mp_latitude mp) \<and> coordinate_ok 180 (mp_longitude mp) \<and>
     mp_solution mp \<in> {0, 1} \<and> field_ok (mp_generator mp) \<and> field_ok (mp_compression mp) \<and>
     mp_auth mp \<in> {''N'', ''B'', ''D''} \<and> mp_fee mp \<in> {''N'', ''Y''} \<and> 0 \<le> mp_bitrate mp"

text \<open>What the table says of a mountpoint: coordinates to two decimals, absent texts as defaults.\<close>

definition or_text :: "string \<Rightarrow> string option \<Rightarrow> string option" where
  "or_text d v = (case v of None \<Rightarrow> Some d | Some s \<Rightarrow> if s = [] then Some d else Some s)"

definition shown_coordinate :: "pyfloat option \<Rightarrow> pyfloat option" where
  "shown_coordinate v = (case v of Some (Fin x) \<Rightarrow> Some (Fin (two_dp x)) | _ \<Rightarrow> Some (Fin 0))"

definition advertised :: "mountpoint \<Rightarrow> metadata" where
  "advertised mp =
     \<lparr>md_name = Some (mp_name mp),
      md_identifier = (if opt_default [] (mp_identifier mp) = [] then None else mp_identifier mp),
      md_format = or_text ''RTCM 3.3'' (mp_format mp), md_format_detail = Some (mp_format_detail mp),
      md_carrier = Some (mp_carrier mp), md_nav_system = Some (mp_nav_system mp),
      md_network = Some (mp_network mp), md_country = or_text ''UNK'' (mp_country mp),
      md_latitude = shown_coordinate (mp_latitude mp),
      md_longitude = shown_coordinate (mp_longitude mp), md_nmea = Some (mp_nmea mp),
      md_mask = None, md_solution = Some (mp_solution mp), md_generator = Some (mp_generator mp),
      md_compression = Some (mp_compression mp), md_auth = Some (mp_auth mp),
      md_fee = Some (mp_fee mp), md_bitrate = Some (mp_bitrate mp)\<rparr>"

lemma coordinate_text_ok: "coordinate_ok b v \<Longrightarrow> field_ok (coordinate_text v)"
  by (auto simp: coordinate_ok_def coordinate_text_def simp del: format_2f.simps split: option.splits)

lemma record_fields_ok: "table_ok mp \<Longrightarrow> list_all field_ok (str_record_fields mp)"
  unfolding str_record_fields_def table_ok_def text_field_ok_def
  using coordinate_text_ok [of 90 "mp_latitude mp"] coordinate_text_ok [of 180 "mp_longitude mp"]
  by auto

lemma record_split: "table_ok mp \<Longrightarrow> split_on CHR '';'' (str_record mp) = str_record_fields mp"
  unfolding str_record_def
  by (rule split_on_join) (use record_fields_ok [of mp] in \<open>auto simp: list_all_iff field_ok_def str_record_fields_def\<close>)

lemma record_header_fields: "table_ok mp \<Longrightarrow> str_header_fields (str_record mp) = tl (str_record_fields mp)"
proof -
  assume ok: "table_ok mp"
  then have "map py_strip (str_record_fields mp) = str_record_fields mp"
    using record_fields_ok by (auto simp: list_all_iff field_ok_def intro!: map_idI)
  moreover have "py_upper (hd (str_record_fields mp)) = ''STR''"
    by (simp add: str_record_fields_def to_upper_def is_lower_def)
  ultimately show ?thesis
    by (simp add: str_header_fields_def record_split [OF ok] Let_def)
qed

lemma coordinate_back:
  assumes "coordinate_ok b v"
  shows "accept (\<lambda>f. Fin (- real b) \<le> f \<and> f \<le> Fin (real b)) (py_float (coordinate_text v)) (Some (Fin 0)) =
     shown_coordinate v"
proof (cases v)
  case None
  have "py_float [] = None" by code_simp
  with None show ?thesis by (simp add: accept_def shown_coordinate_def coordinate_text_def)
next
  case (Some f)
  with assms obtain x where x: "f = Fin x" "\<bar>x\<bar> \<le> real b" by (auto simp: coordinate_ok_def)
  then have "\<bar>two_dp x\<bar> \<le> real b" by (rule_tac two_dp_bound)
  with Some x show ?thesis
    by (simp add: accept_def shown_coordinate_def coordinate_text_def py_float_format_2f abs_le_iff
        del: format_2f.simps)
qed

definition given_text :: "string \<Rightarrow> string option" where
  "given_text s = (if s = [] then None else Some s)"

lemma parse_str_fields_18:
  "parse_str_fields [a0, a1, a2, a3, a4, a5, a6, a7, a8, a9, a10, a11, a12, a13, a14, a15, a16, a17] i =
   \<lparr>md_name = accept_any (given_text a0) (Some i), md_identifier = given_text a1,
    md_format = accept_any (given_text a2) (Some ''RTCM 3.3''),
    md_format_detail = accept_any (given_text a3) (Some []),
    md_carrier = accept (\<lambda>i. i \<in> set [0, 1, 2]) (py_int a4) (Some 0),
    md_nav_system = accept_any (given_text a5) (Some []),
    md_network = accept_any (given_text a6) (Some []),
    md_country = map_option py_upper (accept (\<lambda>v. length v = 3) (given_text a7) (Some ''UNK'')),
    md_latitude = accept (\<lambda>f. Fin (- 90) \<le> f \<and> f \<le> Fin 90) (py_float a8) (Some (Fin 0)),
    md_longitude = accept (\<lambda>f. Fin (- 180) \<le> f \<and> f \<le> Fin 180) (py_float a9) (Some (Fin 0)),
    md_nmea = map_option (\<lambda>i. i = 1) (accept (\<lambda>i. i \<in> set [0, 1]) (py_int a10) (Some 0)),
    md_mask = None,
    md_solution = accept (\<lambda>i. i \<in> set [0, 1]) (py_int a11) (Some 0),
    md_generator = accept_any (given_text a12) (Some []),
    md_compression = accept_any (given_text a13) (Some []),
    md_auth = accept (\<lambda>v. v \<in> set [''N'', ''B'', ''D'']) (given_text a14) (Some ''B''),
    md_fee = accept (\<lambda>v. v \<in> set [''N'', ''Y'']) (given_text a15) (Some ''N''),
    md_bitrate = accept (\<lambda>i. 0 \<le> i) (py_int a16) (Some 0)\<rparr>"
  by (simp add: parse_str_fields_def str_field_def int_field_def float_field_def str_defaults_def
      given_text_def Let_def del: set_simps)

named_theorems field_back \<open>parsing one rendered field\<close>

lemma text_back [field_back]: "accept_any (given_text s) (Some []) = Some s"
  by (auto simp: accept_def given_text_def)

lemma name_back [field_back]: "s \<noteq> [] \<Longrightarrow> accept_any (given_text s) d = Some s"
  by (simp add: accept_def given_text_def)

lemma optional_back [field_back]: "accept_any (if opt_default [] v = [] then None else v) (Some ''RTCM 3.3'') = or_text ''RTCM 3.3'' v"
  by (auto simp: accept_def or_text_def split: option.split)

lemma identifier_back [field_back]:
  "given_text (opt_default [] v) = (if opt_default [] v = [] then None else v)"
  by (cases v) (auto simp: given_text_def)

lemma country_back:
  "\<forall>v. c = Some v \<longrightarrow> v = [] \<or> (length v = 3 \<and> py_upper v = v) \<Longrightarrow>
     map_option py_upper (accept (\<lambda>v. length v = 3) (if opt_default [] c = [] then None else c) (Some ''UNK'')) = or_text ''UNK'' c"
  by (cases c) (auto simp: accept_def given_text_def or_text_def to_upper_def is_lower_def)

lemma code_back [field_back]: "P i \<Longrightarrow> accept P (py_int (str_of_int i)) d = Some i"
  by (simp add: accept_def)

lemma choice_back [field_back]: "P s \<Longrightarrow> s \<noteq> [] \<Longrightarrow> accept P (given_text s) d = Some s"
  by (simp add: accept_def given_text_def)

lemma py_int_flag [simp]: "py_int ''0'' = Some 0" "py_int ''1'' = Some 1"
  by code_simp+

lemma nmea_back [field_back]:
  "map_option (\<lambda>i. i = 1) (accept (\<lambda>i. i \<in> set [0, 1]) (py_int (if b then ''1'' else ''0'')) (Some 0)) = Some b"
  by (simp add: accept_def)

lemma record_parsed:
  assumes ok: "table_ok mp"
  shows "parse_str_fields (tl (str_record_fields mp)) i = advertised mp"
proof -
  note lat = coordinate_back [of 90 "mp_latitude mp", simplified]
  note lon = coordinate_back [of 180 "mp_longitude mp", simplified]
  from ok have country: "map_option py_upper (accept (\<lambda>v. length v = 3)
      (if opt_default [] (mp_country mp) = [] then None else mp_country mp) (Some ''UNK'')) = or_text ''UNK'' (mp_country mp)"
    by (intro country_back) (simp add: table_ok_def)
  from ok have auth: "mp_auth mp \<noteq> []" "mp_fee mp \<noteq> []" "mp_name mp \<noteq> []" by (auto simp: table_ok_def)
  have codes: "mp_carrier mp \<in> set [0, 1, 2]" "mp_solution mp \<in> set [0, 1]" "0 \<le> mp_bitrate mp"
      "mp_auth mp \<in> set [''N'', ''B'', ''D'']" "mp_fee mp \<in> set [''N'', ''Y'']"
    using ok by (simp_all add: table_ok_def)
  have co: "coordinate_ok 90 (mp_latitude mp)" "coordinate_ok 180 (mp_longitude mp)"
    using ok by (simp_all add: table_ok_def)
  show ?thesis
    unfolding str_record_fields_def list.sel parse_str_fields_18 advertised_def
    by (simp only: field_back country lat [OF co(1)] lon [OF co(2)] auth codes not_False_eq_True)
qed

text \<open>
  The STR record of a mountpoint, parsed by the caster's own header parser, gives back every field
  of it: texts and codes unchanged, coordinates rounded to two decimals, absent texts as the
  documented defaults.
\<close>
lemma str_record_round_trip:
  assumes "table_ok mp"
  shows "parse_ntrip_str (Some (str_record mp)) i = advertised mp"
proof -
  have "str_record mp \<noteq> []"
    by (simp add: str_record_def str_record_fields_def)
  then show ?thesis
    by (simp add: parse_ntrip_str_def record_header_fields assms record_parsed)
qed

lemma table_ok_line:
  assumes "table_ok mp"
  shows "CHR 0x0D \<notin> set (str_record mp)" "str_record mp \<noteq> ''ENDSOURCETABLE''"
proof -
  have join: "list_all (\<lambda>x. CHR 0x0D \<notin> set x) xs \<Longrightarrow> CHR 0x0D \<notin> set (py_join '';'' xs)" for xs
    by (induction xs rule: induct_list012) auto
  from record_fields_ok [OF assms] have "list_all (\<lambda>x. CHR 0x0D \<notin> set x) (str_record_fields mp)"
    by (auto simp: list_all_iff field_ok_def)
  from join [OF this] show "CHR 0x0D \<notin> set (str_record mp)" by (simp add: str_record_def)
  show "str_record mp \<noteq> ''ENDSOURCETABLE''"
    by (simp add: str_record_def str_record_fields_def)
qed

lemma read_format_sourcetable:
  assumes "list_all (\<lambda>e. table_ok (snd e)) mountpoints"
  shows "read_table (format_sourcetable mountpoints) = map (\<lambda>e. str_record (snd e)) mountpoints"
proof -
  let ?ls = "map (\<lambda>e. str_record (snd e)) mountpoints"
  have "list_all (\<lambda>x. CHR 0x0D \<notin> set x) (?ls @ [''ENDSOURCETABLE''])"
    using assms by (auto simp: list_all_iff table_ok_line)
  then have "crlf_lines (format_sourcetable mountpoints) = (?ls @ [''ENDSOURCETABLE'']) @ [[]]"
    unfolding format_sourcetable_def by (intro crlf_lines_join) simp
  moreover have "\<forall>l \<in> set ?ls. l \<noteq> ''ENDSOURCETABLE''"
    using assms by (auto simp: list_all_iff table_ok_line)
  ultimately show ?thesis
    by (simp add: read_table_def takeWhile_append)
qed


definition demo_mountpoint :: mountpoint where
  "demo_mountpoint = \<lparr>mp_name = ''BASE-1'', mp_identifier = Some ''Ghent'', mp_format = Some ''RTCM 3.2'',
     mp_country = Some ''BEL'', mp_latitude = Some (Fin 51.054), mp_longitude = Some (Fin 3.72),
     mp_format_detail = ''1005(5)'', mp_carrier = 2, mp_nav_system = ''GPS'', mp_network = [],
     mp_nmea = True, mp_mask = Fin 0, mp_solution = 0, mp_generator = [], mp_compression = [],
     mp_auth = ''B'', mp_fee = ''N'', mp_bitrate = 9600, mp_last_seen = 0\<rparr>"

lemma demo_mountpoint_ok: "table_ok demo_mountpoint"
  by (simp add: demo_mountpoint_def table_ok_def text_field_ok_def field_ok_def stripped_def
      is_space_def to_upper_def is_lower_def)


section \<open>From the base station's header to the rover's table\<close>

definition texts_ok :: "string option \<Rightarrow> bool" where
  "texts_ok v \<longleftrightarrow> (\<forall>s. v = Some s \<longrightarrow> field_ok s)"

lemma texts_ok_simps [simp]: "texts_ok None" "texts_ok (Some s) \<longleftrightarrow> field_ok s"
  by (simp_all add: texts_ok_def)

lemma texts_ok_accept [intro]: "texts_ok v \<Longrightarrow> texts_ok d \<Longrightarrow> texts_ok (accept P v d)"
  by (auto simp: accept_def split: option.splits)

lemma py_join_mem: "y \<in> set xs \<Longrightarrow> set y \<subseteq> set (py_join sep xs)"
  by (induction xs rule: induct_list012) auto

lemma header_field_ok: "CHR 0x0D \<notin> set h \<Longrightarrow> x \<in> set (str_header_fields h) \<Longrightarrow> field_ok x"
proof -
  assume cr: "CHR 0x0D \<notin> set h" and x: "x \<in> set (str_header_fields h)"
  then obtain y where y: "y \<in> set (split_on CHR '';'' h)" "x = py_strip y"
    using header_fields_from by blast
  from py_join_mem [OF y(1), of "'';''"] have "set y \<subseteq> set h"
    by (simp add: join_split_on)
  with cr y x show ?thesis
    using header_fields_clean [of x h] set_py_strip [of y] by (auto simp: field_ok_def)
qed

lemma texts_ok_str_field:
  "CHR 0x0D \<notin> set h \<Longrightarrow> texts_ok (str_field (str_header_fields h) i)"
  by (auto simp: texts_ok_def str_field_def header_field_ok split: if_splits)

lemma plain_name_ok:
  assumes "plain_name s"
  shows "s \<noteq> []" "field_ok s"
proof -
  have c: "\<not> is_space c" "c \<noteq> CHR '';''" "c \<noteq> CHR 0x0D" if "name_char c" for c
    using that by (auto simp: name_char_def is_space_def is_upper_def is_lower_def is_digit_def Let_def)
  from assms show s: "s \<noteq> []" by (auto simp: plain_name_def)
  from assms have "\<forall>c \<in> set s. name_char c" by (simp add: plain_name_def list_all_iff)
  with c s show "field_ok s" by (auto simp: field_ok_def stripped_def)
qed

lemma plain_country_ok: "plain_country s \<Longrightarrow> field_ok s \<and> py_upper s = s"
proof -
  have c: "name_char c" "to_upper c = c" if "is_upper c" for c
    using that by (auto simp: name_char_def to_upper_def is_lower_def is_upper_def Let_def)
  assume "plain_country s"
  then have u: "\<forall>c \<in> set s. is_upper c" and "length s = 3" by (auto simp: plain_country_def list_all_iff)
  with c have "plain_name s" by (auto simp: plain_name_def list_all_iff)
  with u c show ?thesis by (simp add: plain_name_ok map_idI)
qed

lemma country_re_3: "country_re s \<Longrightarrow> length s = 3 \<Longrightarrow> plain_country s"
  by (auto simp: country_re_def re_dollar_def plain_country_def)

lemma given_default: "opt_all (\<lambda>_. True) v \<Longrightarrow> v = Some (opt_default d v)"
  by (cases v) (auto simp: opt_all_def)

text \<open>A parsed header leaves only clean texts in the description.\<close>

lemma described_texts:
  fixes h i
  defines "md \<equiv> parse_ntrip_str (Some h) i"
  assumes "CHR 0x0D \<notin> set h"
  shows "texts_ok (md_identifier md)" "texts_ok (md_format md)" "texts_ok (md_format_detail md)"
    "texts_ok (md_nav_system md)" "texts_ok (md_network md)" "texts_ok (md_generator md)"
    "texts_ok (md_compression md)"
  using assms(2) by (auto simp: md_def parse_ntrip_str_def parse_str_fields_def str_defaults_def Let_def
      intro!: texts_ok_str_field texts_ok_accept)

lemma described_some:
  fixes h i
  defines "md \<equiv> parse_ntrip_str (Some h) i"
  shows "\<exists>a b c d e. md_format_detail md = Some a \<and> md_nav_system md = Some b \<and> md_network md = Some c \<and>
    md_generator md = Some d \<and> md_compression md = Some e"
    "\<exists>n f. md_nmea md = Some n \<and> md_format md = Some f \<and> f \<noteq> []"
  by (auto simp: md_def parse_ntrip_str_def parse_str_fields_def str_defaults_def accept_def Let_def
      dest: str_field_nonempty split: option.splits)

lemma described_record:
  assumes cr: "CHR 0x0D \<notin> set h" and name: "plain_name name"
    and created: "new_mountpoint name (parse_ntrip_str (Some h) name) now = Inr mp"
  defines "md \<equiv> parse_ntrip_str (Some h) name"
  shows "table_ok mp"
    and "advertised mp = md\<lparr>md_name := Some name, md_latitude := shown_coordinate (md_latitude md),
           md_longitude := shown_coordinate (md_longitude md)\<rparr>"
proof -
  have d: "description_ok md"
    by (simp add: md_def parse_ntrip_str_def description_ok_parsed description_ok_defaults)
  note texts = described_texts [OF cr, of name, folded md_def]
  obtain a b c e f n g where some: "md_format_detail md = Some a" "md_nav_system md = Some b" "md_network md = Some c"
      "md_generator md = Some e" "md_compression md = Some f" "md_nmea md = Some n" "md_format md = Some g" "g \<noteq> []"
    using described_some [of h name, folded md_def] by auto
  from d obtain carrier country lat lon sol auth fee rate where codes:
      "md_carrier md = Some carrier" "carrier \<in> {0, 1, 2}" "md_country md = Some country" "length country = 3"
      "md_latitude md = Some lat" "Fin (- 90) \<le> lat" "lat \<le> Fin 90"
      "md_longitude md = Some lon" "Fin (- 180) \<le> lon" "lon \<le> Fin 180"
      "md_solution md = Some sol" "sol \<in> {0, 1}" "md_auth md = Some auth" "auth \<in> {''N'', ''B'', ''D''}"
      "md_fee md = Some fee" "fee \<in> {''N'', ''Y''}" "md_bitrate md = Some rate" "0 \<le> rate"
    unfolding description_ok_def opt_all_def by (auto split: option.splits simp del: insert_iff)
  have "creatable name md"
    using new_mountpoint_described [of name "Some h" now] created by (auto simp: md_def)
  with codes have "plain_country country"
    by (auto simp: creatable_def present_and_not_def intro: country_re_3)
  then have country: "field_ok country" "py_upper country = country" using plain_country_ok by auto
  have ident: "md_identifier md = Some v \<Longrightarrow> v \<noteq> []" for v using d by (simp add: description_ok_def)
  have mask: "md_mask md = None" using description_mask by (simp add: md_def)
  have mp: "mp = \<lparr>mp_name = name, mp_identifier = md_identifier md, mp_format = md_format md,
      mp_country = Some country, mp_latitude = Some lat, mp_longitude = Some lon,
      mp_format_detail = a, mp_carrier = carrier, mp_nav_system = b, mp_network = c,
      mp_nmea = n, mp_mask = Fin 0, mp_solution = sol, mp_generator = e,
      mp_compression = f, mp_auth = auth, mp_fee = fee, mp_bitrate = rate, mp_last_seen = now\<rparr>"
    using created unfolding new_mountpoint_def post_init_iff
    by (simp add: some codes mask flip: md_def)
  have coord: "coordinate_ok 90 (Some lat)" "coordinate_ok 180 (Some lon)"
    using codes(6,7,9,10) between_finite [of "- 90" lat 90] between_finite [of "- 180" lon 180]
    by (auto simp: coordinate_ok_def abs_le_iff)
  show "table_ok mp"
    unfolding mp table_ok_def mountpoint.simps text_field_ok_def
    using texts some codes coord country plain_name_ok [OF name]
    by (cases "md_identifier md") simp_all
  show "advertised mp = md\<lparr>md_name := Some name, md_latitude := shown_coordinate (md_latitude md),
           md_longitude := shown_coordinate (md_longitude md)\<rparr>"
    unfolding mp advertised_def mountpoint.simps
    using some codes mask ident by (cases "md_identifier md") (auto simp: or_text_def)
qed



end
