(* ===== verification/Caster.thy ===== *)
theory Caster
  imports Transport Observe Sourcetable
begin

text \<open>
  \<open>NTRIPCaster\<close> of \<open>ntrip/v2/caster.py\<close>: the registry of mountpoints and their transports, rover
  positions, publishing with the quality pipeline behind a bounded queue, subscriptions, start and
  stop, and the reaper. Every definition is the code between two suspension points of the event
  loop; the coroutines that \<open>await transport.shutdown()\<close> and the reaper's loop are split there.
\<close>

section \<open>State\<close>

text \<open>
  Transports are objects that outlive their entry in \<open>_transports\<close> (a rover keeps streaming from
  the object it subscribed to), so the dictionary holds object numbers and \<open>cs_store\<close> the objects.
  \<open>cs_queue\<close> is None until \<open>start\<close> has created the quality queue.
\<close>

text \<open>
  A chunk handed to \<open>publish\<close> is one \<open>bytes\<close> object that every queue shares: its number stands for
  its identity, which the UDP egress compares with \<open>is\<close>.
\<close>

type_synonym frame = "nat \<times> bytes"

record caster =
  cs_expiry :: "real option"
  cs_queue_maxsize :: nat
  cs_mountpoints :: "(string, mountpoint) dict"
  cs_transports :: "(string, nat) dict"
  cs_store :: "nat \<Rightarrow> frame queue_transport"
  cs_next :: nat
  cs_queue :: "(string \<times> bytes) list option"
  cs_quality :: quality_state
  cs_positions :: "(string, (string, pyfloat \<times> pyfloat) dict) dict"

definition new_caster :: "real option \<Rightarrow> nat \<Rightarrow> caster" where
  "new_caster expiry queue_maxsize =
     \<lparr>cs_expiry = expiry, cs_queue_maxsize = queue_maxsize, cs_mountpoints = [], cs_transports = [],
      cs_store = (\<lambda>_. new_transport), cs_next = 0, cs_queue = None, cs_quality = empty_quality,
      cs_positions = []\<rparr>"

type_synonym 'a outcome = "(py_error + 'a) \<times> caster"

definition log_caster :: "pyfloat metric_op list \<Rightarrow> caster \<Rightarrow> caster" where
  "log_caster ops c = c\<lparr>cs_quality := log_metric ops (cs_quality c)\<rparr>"

definition upd_transport :: "nat \<Rightarrow> (frame queue_transport \<Rightarrow> frame queue_transport) \<Rightarrow> caster \<Rightarrow> caster" where
  "upd_transport t f c = c\<lparr>cs_store := (cs_store c)(t := f (cs_store c t))\<rparr>"

section \<open>Registration\<close>

text \<open>\<open>self._transports[mountpoint] = self._transport_factory()\<close>\<close>

definition open_transport :: "string \<Rightarrow> caster \<Rightarrow> caster" where
  "open_transport mountpoint c =
     c\<lparr>cs_transports := AList.update mountpoint (cs_next c) (cs_transports c),
       cs_store := (cs_store c)(cs_next c := new_transport),
       cs_next := Suc (cs_next c)\<rparr>"

definition register :: "real \<Rightarrow> string \<Rightarrow> metadata \<Rightarrow> caster \<Rightarrow> mountpoint outcome" where
  "register now mountpoint kwargs c =
     (case map_of (cs_mountpoints c) mountpoint of
        Some instance \<Rightarrow>
          (let instance = update_metadata kwargs instance;
               c = c\<lparr>cs_mountpoints := AList.update mountpoint instance (cs_mountpoints c)\<rparr> in
           (Inr instance,
            if map_of (cs_transports c) mountpoint = None then open_transport mountpoint c else c))
      | None \<Rightarrow>
          (case new_mountpoint mountpoint kwargs now of
             Inl e \<Rightarrow> (Inl e, c)
           | Inr mp \<Rightarrow>
               (Inr mp, open_transport mountpoint
                          (c\<lparr>cs_mountpoints := AList.update mountpoint mp (cs_mountpoints c)\<rparr>))))"

definition available :: "string \<Rightarrow> caster \<Rightarrow> bool" where
  "available mountpoint c =
     (if map_of (cs_mountpoints c) mountpoint = None then False
      else map_of (cs_transports c) mountpoint \<noteq> None)"

section \<open>Rover positions\<close>

definition set_rover_position :: "string \<Rightarrow> string \<Rightarrow> pyfloat \<Rightarrow> pyfloat \<Rightarrow> caster \<Rightarrow> caster" where
  "set_rover_position mountpoint rover_username lat lon c =
     c\<lparr>cs_positions := AList.update mountpoint
         (AList.update rover_username (lat, lon) (opt_default [] (map_of (cs_positions c) mountpoint)))
         (cs_positions c)\<rparr>"

definition clear_rover_position :: "string \<Rightarrow> string \<Rightarrow> caster \<Rightarrow> caster" where
  "clear_rover_position mountpoint rover_username c =
     (case map_of (cs_positions c) mountpoint of
        None \<Rightarrow> c
      | Some per_mp \<Rightarrow>
          (let per_mp = AList.delete rover_username per_mp in
           if per_mp = []
           then c\<lparr>cs_positions := AList.delete mountpoint (cs_positions c)\<rparr>
           else c\<lparr>cs_positions := AList.update mountpoint per_mp (cs_positions c)\<rparr>))"

definition get_rover_positions :: "string \<Rightarrow> caster \<Rightarrow> (string, pyfloat \<times> pyfloat) dict" where
  "get_rover_positions mountpoint c = opt_default [] (map_of (cs_positions c) mountpoint)"

section \<open>Closing and unregistering\<close>

text \<open>\<open>_frame_buffer.pop\<close>, \<open>_quality.pop\<close> and \<open>_rover_positions.pop\<close>\<close>

definition forget :: "string \<Rightarrow> caster \<Rightarrow> caster" where
  "forget mountpoint c =
     c\<lparr>cs_quality := (cs_quality c)
          \<lparr>qs_buffer := AList.delete mountpoint (qs_buffer (cs_quality c)),
           qs_quality := AList.delete mountpoint (qs_quality (cs_quality c))\<rparr>,
       cs_positions := AList.delete mountpoint (cs_positions c)\<rparr>"

text \<open>
  Both run up to the suspension inside \<open>transport.shutdown()\<close>: the subscribers are detached, their
  own shutdown coroutines run later (\<open>shutdown_task\<close>).
\<close>

definition close_mountpoint :: "string \<Rightarrow> caster \<Rightarrow> unit outcome" where
  "close_mountpoint mountpoint c =
     (if map_of (cs_mountpoints c) mountpoint = None then (Inr (), c)
      else (case map_of (cs_transports c) mountpoint of
              None \<Rightarrow> (Inl (KeyError mountpoint), c)
            | Some t \<Rightarrow>
                (Inr (), upd_transport t tq_shutdown_begin
                   (forget mountpoint
                      (c\<lparr>cs_transports := AList.delete mountpoint (cs_transports c)\<rparr>)))))"

definition unregister :: "string \<Rightarrow> caster \<Rightarrow> caster" where
  "unregister mountpoint c =
     (if map_of (cs_mountpoints c) mountpoint = None then c
      else (let transport = map_of (cs_transports c) mountpoint;
                c = forget mountpoint (c\<lparr>cs_transports := AList.delete mountpoint (cs_transports c)\<rparr>);
                c = c\<lparr>cs_mountpoints := AList.delete mountpoint (cs_mountpoints c)\<rparr> in
            case transport of None \<Rightarrow> c | Some t \<Rightarrow> upd_transport t tq_shutdown_begin c))"

definition shutdown_task :: "nat \<Rightarrow> nat \<Rightarrow> caster \<Rightarrow> caster" where
  "shutdown_task t i c = upd_transport t (tq_shutdown_task i) c"

section \<open>Publishing and the quality pipeline\<close>

definition process_quality :: "quality_config \<Rightarrow> string \<Rightarrow> bytes \<Rightarrow> caster \<Rightarrow> unit outcome" where
  "process_quality cfg mountpoint frame c =
     (case observe_rtcm_quality cfg True mountpoint frame (cs_quality c) of
        (e, q) \<Rightarrow> ((case e of None \<Rightarrow> Inr () | Some ex \<Rightarrow> Inl ex), c\<lparr>cs_quality := q\<rparr>))"

text \<open>A queue created with \<open>maxsize=0\<close> is unbounded.\<close>

definition quality_queue_full :: "caster \<Rightarrow> (string \<times> bytes) list \<Rightarrow> bool" where
  "quality_queue_full c q = (0 < cs_queue_maxsize c \<and> cs_queue_maxsize c \<le> length q)"

definition enqueue_quality :: "quality_config \<Rightarrow> string \<Rightarrow> bytes \<Rightarrow> caster \<Rightarrow> unit outcome" where
  "enqueue_quality cfg mountpoint frame c =
     (case cs_queue c of
        None \<Rightarrow> process_quality cfg mountpoint frame c
      | Some q \<Rightarrow>
          (Inr (),
           if quality_queue_full c q
           then log_caster [MInc ''rtcm_quality_samples_dropped_total'' [mountpoint] 1] c
           else c\<lparr>cs_queue := Some (q @ [(mountpoint, frame)])\<rparr>))"

definition publish_metrics :: "string \<Rightarrow> bytes \<Rightarrow> nat \<Rightarrow> real \<Rightarrow> pyfloat metric_op list" where
  "publish_metrics mountpoint frame delivered interval =
     [MInc ''frames_published_total'' [mountpoint] 1,
      MInc ''bytes_published_total'' [mountpoint] (int (length frame)),
      MObserve ''frame_size_bytes'' [mountpoint] (Fin (real (length frame))),
      MInc ''frames_delivered_total'' [mountpoint] (int delivered),
      MObserve ''frame_interval_seconds'' [mountpoint] (Fin interval)]"

definition publish :: "quality_config \<Rightarrow> real \<Rightarrow> string \<Rightarrow> frame \<Rightarrow> caster \<Rightarrow> nat outcome" where
  "publish cfg now mountpoint frame c =
     (case map_of (cs_transports c) mountpoint of
        None \<Rightarrow> (Inr 0, c)
      | Some t \<Rightarrow>
          (case map_of (cs_mountpoints c) mountpoint of
             None \<Rightarrow> (Inl (KeyError mountpoint), c)
           | Some mp \<Rightarrow>
               (let interval = now - mp_last_seen mp;
                    c = c\<lparr>cs_mountpoints := AList.update mountpoint (mp\<lparr>mp_last_seen := now\<rparr>) (cs_mountpoints c)\<rparr>;
                    (delivered, transport) = tq_publish frame (cs_store c t);
                    c = c\<lparr>cs_store := (cs_store c)(t := transport)\<rparr>;
                    c = log_caster (publish_metrics mountpoint (snd frame) delivered interval) c in
                case enqueue_quality cfg mountpoint (snd frame) c of
                  (Inl e, c) \<Rightarrow> (Inl e, c)
                | (Inr _, c) \<Rightarrow> (Inr delivered, c))))"

text \<open>One turn of the quality worker: exceptions are logged, the next sample is awaited.\<close>

definition quality_turn :: "quality_config \<Rightarrow> caster \<Rightarrow> caster option" where
  "quality_turn cfg c =
     (case cs_queue c of
        Some ((mountpoint, frame) # q) \<Rightarrow>
          Some (snd (process_quality cfg mountpoint frame (c\<lparr>cs_queue := Some q\<rparr>)))
      | _ \<Rightarrow> None)"

section \<open>Subscriptions, start, stop\<close>

text \<open>
  \<open>subscribe\<close> looks the transport up; entering the context it returns counts the session and
  subscribes; leaving it unsubscribes from the same transport object.
\<close>

definition subscribe :: "string \<Rightarrow> caster \<Rightarrow> py_error + nat" where
  "subscribe mountpoint c =
     (case map_of (cs_transports c) mountpoint of
        None \<Rightarrow> Inl (KeyError mountpoint)
      | Some t \<Rightarrow> Inr t)"

definition metered_subscribe :: "string \<Rightarrow> nat \<Rightarrow> caster \<Rightarrow> nat \<times> caster" where
  "metered_subscribe mountpoint t c =
     (let c = log_caster [MInc ''rover_sessions_total'' [mountpoint] 1] c;
          (sub, transport) = tq_subscribe (cs_store c t) in
      (sub, c\<lparr>cs_store := (cs_store c)(t := transport)\<rparr>))"

definition leave_subscription :: "nat \<Rightarrow> nat \<Rightarrow> caster \<Rightarrow> caster" where
  "leave_subscription t sub c = upd_transport t (tq_unsubscribe sub) c"

definition start :: "caster \<Rightarrow> caster" where
  "start c = c\<lparr>cs_queue := Some []\<rparr>"

definition stop :: "caster \<Rightarrow> caster" where
  "stop c = c\<lparr>cs_queue := None\<rparr>"

section \<open>The reaper\<close>

definition stale_names :: "real \<Rightarrow> caster \<Rightarrow> string list" where
  "stale_names now c =
     (case cs_expiry c of
        None \<Rightarrow> []
      | Some expiry \<Rightarrow>
          map fst (filter (\<lambda>(name, mp). mp_last_seen mp < now - expiry) (cs_mountpoints c)))"

definition reap_count :: "string list \<Rightarrow> caster \<Rightarrow> caster" where
  "reap_count stale c =
     (if stale = [] then c
      else log_caster [MInc ''mountpoints_reaped_total'' [] (int (length stale))] c)"

text \<open>The whole pass, with nothing interleaved at the suspension points.\<close>

definition reap :: "real \<Rightarrow> caster \<Rightarrow> caster" where
  "reap now c = (let stale = stale_names now c in reap_count stale (fold unregister stale c))"

section \<open>The invariant\<close>

definition positions_ok :: "(string, (string, pyfloat \<times> pyfloat) dict) dict \<Rightarrow> bool" where
  "positions_ok ps \<longleftrightarrow> dict_ok ps \<and> (\<forall>m d. map_of ps m = Some d \<longrightarrow> d \<noteq> [] \<and> dict_ok d)"

definition transports_ok :: "caster \<Rightarrow> bool" where
  "transports_ok c \<longleftrightarrow>
     dict_ok (cs_transports c) \<and>
     (\<forall>m t. map_of (cs_transports c) m = Some t \<longrightarrow> t < cs_next c) \<and>
     (\<forall>m m' t. map_of (cs_transports c) m = Some t \<longrightarrow> map_of (cs_transports c) m' = Some t \<longrightarrow> m = m') \<and>
     (\<forall>t. tq_ok (cs_store c t))"

definition registry_ok :: "caster \<Rightarrow> bool" where
  "registry_ok c \<longleftrightarrow>
     dict_ok (cs_mountpoints c) \<and>
     (\<forall>m. map_of (cs_mountpoints c) m = None \<longrightarrow> map_of (cs_transports c) m = None)"

definition queue_ok :: "caster \<Rightarrow> bool" where
  "queue_ok c \<longleftrightarrow> (\<forall>q. cs_queue c = Some q \<longrightarrow> 0 < cs_queue_maxsize c \<longrightarrow> length q \<le> cs_queue_maxsize c)"

definition caster_ok :: "caster \<Rightarrow> bool" where
  "caster_ok c \<longleftrightarrow> transports_ok c \<and> registry_ok c \<and> queue_ok c \<and> quality_ok (cs_quality c) \<and>
     positions_ok (cs_positions c)"

named_theorems caster_oks \<open>the parts of the caster's invariant\<close>

lemmas [caster_oks] = caster_ok_def transports_ok_def registry_ok_def queue_ok_def positions_ok_def

lemma caster_ok_new [simp]: "caster_ok (new_caster e n)"
  by (simp add: caster_oks new_caster_def)

lemma quality_ok_log [simp]: "quality_ok (log_metric ops q) \<longleftrightarrow> quality_ok q"
  by (simp add: quality_ok_def windows_ok_def buffers_ok_def log_metric_def)

lemma quality_ok_forget:
  "quality_ok q \<Longrightarrow> quality_ok (q\<lparr>qs_buffer := AList.delete m (qs_buffer q), qs_quality := AList.delete m (qs_quality q)\<rparr>)"
  by (auto simp: quality_ok_def windows_ok_def buffers_ok_def dict_simps split: if_splits)

lemma caster_ok_log [simp]: "caster_ok (log_caster ops c) \<longleftrightarrow> caster_ok c"
  by (simp add: caster_oks log_caster_def)

lemma caster_ok_upd_transport:
  "caster_ok c \<Longrightarrow> (\<And>t. tq_ok t \<Longrightarrow> tq_ok (f t)) \<Longrightarrow> caster_ok (upd_transport t f c)"
  by (simp add: caster_oks upd_transport_def)

lemma caster_ok_open:
  assumes "caster_ok c" "map_of (cs_mountpoints c) m \<noteq> None"
  shows "caster_ok (open_transport m c)"
  using assms
  by (auto simp: caster_oks open_transport_def dict_simps less_Suc_eq dom_def split: if_splits)
     (metis less_irrefl)+

lemma caster_ok_set_mountpoint:
  "caster_ok c \<Longrightarrow> caster_ok (c\<lparr>cs_mountpoints := AList.update m mp (cs_mountpoints c)\<rparr>)"
  by (auto simp: caster_oks dict_simps dom_def)

lemma caster_ok_register: "caster_ok c \<Longrightarrow> caster_ok (snd (register now m md c))"
  by (auto simp: register_def Let_def dict_simps intro!: caster_ok_open caster_ok_set_mountpoint
      split: option.split sum.split)

lemma caster_ok_forget: "caster_ok c \<Longrightarrow> caster_ok (forget m c)"
  by (auto simp: caster_oks forget_def dict_simps quality_ok_forget split: if_splits)

lemma caster_ok_drop_transport:
  "caster_ok c \<Longrightarrow> caster_ok (c\<lparr>cs_transports := AList.delete m (cs_transports c)\<rparr>)"
  by (auto simp: caster_oks dict_simps dom_def split: if_splits)

lemma caster_ok_close: "caster_ok c \<Longrightarrow> caster_ok (snd (close_mountpoint m c))"
  by (auto simp: close_mountpoint_def intro!: caster_ok_upd_transport caster_ok_forget caster_ok_drop_transport
      tq_ok_shutdown_begin split: option.split)

lemma caster_ok_drop_mountpoint:
  "caster_ok c \<Longrightarrow> map_of (cs_transports c) m = None \<Longrightarrow>
     caster_ok (c\<lparr>cs_mountpoints := AList.delete m (cs_mountpoints c)\<rparr>)"
  by (auto simp: caster_oks dict_simps dom_def split: if_splits)

lemma caster_ok_unregister: "caster_ok c \<Longrightarrow> caster_ok (unregister m c)"
proof -
  assume "caster_ok c"
  then have "caster_ok (forget m (c\<lparr>cs_transports := AList.delete m (cs_transports c)\<rparr>))"
    by (intro caster_ok_forget caster_ok_drop_transport)
  then have "caster_ok ((forget m (c\<lparr>cs_transports := AList.delete m (cs_transports c)\<rparr>))
      \<lparr>cs_mountpoints := AList.delete m (cs_mountpoints (forget m (c\<lparr>cs_transports := AList.delete m (cs_transports c)\<rparr>)))\<rparr>)"
    by (rule caster_ok_drop_mountpoint) (simp add: forget_def dict_simps)
  with \<open>caster_ok c\<close> show ?thesis
    by (auto simp: unregister_def Let_def intro!: caster_ok_upd_transport tq_ok_shutdown_begin split: option.split)
qed

lemma caster_ok_process: "caster_ok c \<Longrightarrow> caster_ok (snd (process_quality cfg m f c))"
  by (simp add: process_quality_def case_prod_beta caster_oks quality_ok_observe)

lemma caster_ok_enqueue: "caster_ok c \<Longrightarrow> caster_ok (snd (enqueue_quality cfg m f c))"
proof (cases "cs_queue c")
  case None
  assume "caster_ok c"
  with None show ?thesis by (simp add: enqueue_quality_def caster_ok_process)
next
  case (Some q)
  assume "caster_ok c"
  with Some show ?thesis
    by (auto simp: enqueue_quality_def caster_oks log_caster_def quality_queue_full_def)
qed

lemma caster_ok_store:
  "caster_ok c \<Longrightarrow> tq_ok tr \<Longrightarrow> caster_ok (c\<lparr>cs_store := (cs_store c)(t := tr)\<rparr>)"
  by (simp add: caster_oks)

lemma caster_ok_store_ok: "caster_ok c \<Longrightarrow> tq_ok (cs_store c t)"
  by (simp add: caster_oks)

text \<open>The state a publish hands to the quality pipeline.\<close>

definition published_state :: "real \<Rightarrow> string \<Rightarrow> frame \<Rightarrow> nat \<Rightarrow> mountpoint \<Rightarrow> caster \<Rightarrow> caster" where
  "published_state now m frame t mp c =
     log_caster (publish_metrics m (snd frame) (fst (tq_publish frame (cs_store c t))) (now - mp_last_seen mp))
       (c\<lparr>cs_mountpoints := AList.update m (mp\<lparr>mp_last_seen := now\<rparr>) (cs_mountpoints c),
          cs_store := (cs_store c)(t := snd (tq_publish frame (cs_store c t)))\<rparr>)"

lemma publish_cases:
  "publish cfg now m frame c =
     (case (map_of (cs_transports c) m, map_of (cs_mountpoints c) m) of
        (None, _) \<Rightarrow> (Inr 0, c)
      | (Some t, None) \<Rightarrow> (Inl (KeyError m), c)
      | (Some t, Some mp) \<Rightarrow>
          (case enqueue_quality cfg m (snd frame) (published_state now m frame t mp c) of
             (Inl e, c') \<Rightarrow> (Inl e, c')
           | (Inr _, c') \<Rightarrow> (Inr (fst (tq_publish frame (cs_store c t))), c')))"
  by (auto simp: publish_def published_state_def Let_def case_prod_beta cong: option.case_cong
      split: option.split sum.split)

lemma caster_ok_published: "caster_ok c \<Longrightarrow> caster_ok (published_state now m f t mp c)"
  using caster_ok_store [OF caster_ok_set_mountpoint [of c m "mp\<lparr>mp_last_seen := now\<rparr>"], of "snd (tq_publish f (cs_store c t))" t]
  by (simp add: published_state_def tq_ok_publish caster_ok_store_ok)

lemma publish_state:
  "snd (publish cfg now m f c) =
     (case (map_of (cs_transports c) m, map_of (cs_mountpoints c) m) of
        (Some t, Some mp) \<Rightarrow> snd (enqueue_quality cfg m (snd f) (published_state now m f t mp c))
      | _ \<Rightarrow> c)"
  by (simp add: publish_cases case_prod_beta split: option.split sum.split)

lemma caster_ok_publish: "caster_ok c \<Longrightarrow> caster_ok (snd (publish cfg now m f c))"
  by (simp add: publish_state caster_ok_enqueue caster_ok_published split: option.split)

lemma caster_ok_turn: "caster_ok c \<Longrightarrow> quality_turn cfg c = Some c' \<Longrightarrow> caster_ok c'"
  by (auto simp: quality_turn_def split: option.splits list.splits intro!: caster_ok_process)
     (auto simp: caster_oks)

lemma caster_ok_subscribe: "caster_ok c \<Longrightarrow> caster_ok (snd (metered_subscribe m t c))"
  by (simp add: metered_subscribe_def case_prod_beta Let_def caster_ok_store tq_ok_subscribe
      caster_ok_store_ok log_caster_def)
     (simp add: caster_oks tq_ok_subscribe)

lemma caster_ok_set_position: "caster_ok c \<Longrightarrow> caster_ok (set_rover_position m u x y c)"
  by (cases "map_of (cs_positions c) m") (auto simp: caster_oks set_rover_position_def dict_simps)

lemma caster_ok_clear_position: "caster_ok c \<Longrightarrow> caster_ok (clear_rover_position m u c)"
  by (auto simp: caster_oks clear_rover_position_def Let_def dict_simps split: option.split if_splits)

lemma caster_ok_start_stop: "caster_ok c \<Longrightarrow> caster_ok (start c)" "caster_ok c \<Longrightarrow> caster_ok (stop c)"
  by (simp_all add: caster_oks start_def stop_def)

section \<open>Every interleaving\<close>

inductive caster_step :: "quality_config \<Rightarrow> caster \<Rightarrow> caster \<Rightarrow> bool" for cfg where
  register: "caster_step cfg c (snd (register now m md c))"
| close: "caster_step cfg c (snd (close_mountpoint m c))"
| unregister: "caster_step cfg c (unregister m c)"
| publish: "caster_step cfg c (snd (publish cfg now m f c))"
| quality: "quality_turn cfg c = Some c' \<Longrightarrow> caster_step cfg c c'"
| subscribe: "Caster.subscribe m c = Inr t \<Longrightarrow> caster_step cfg c (snd (metered_subscribe m t c))"
| leave: "caster_step cfg c (leave_subscription t sub c)"
| rover: "tq_step (cs_store c t) tr \<Longrightarrow> caster_step cfg c (upd_transport t (\<lambda>_. tr) c)"
| set_position: "caster_step cfg c (set_rover_position m u x y c)"
| clear_position: "caster_step cfg c (clear_rover_position m u c)"
| start: "caster_step cfg c (start c)"
| stop: "caster_step cfg c (stop c)"
| reap_count: "caster_step cfg c (reap_count stale c)"

inductive_cases caster_step_cases: "caster_step cfg c c'"

lemma caster_step_ok: "caster_ok c \<Longrightarrow> caster_step cfg c c' \<Longrightarrow> caster_ok c'"
proof (erule caster_step_cases)
  fix t tr
  assume "caster_ok c" "tq_step (cs_store c t) tr" "c' = upd_transport t (\<lambda>_. tr) c"
  then show "caster_ok c'"
    by (auto intro!: caster_ok_upd_transport intro: tq_step_ok caster_ok_store_ok)
qed (auto simp: leave_subscription_def reap_count_def intro: caster_ok_register caster_ok_close
      caster_ok_unregister caster_ok_publish caster_ok_turn caster_ok_subscribe caster_ok_set_position
      caster_ok_clear_position caster_ok_start_stop intro!: caster_ok_upd_transport tq_ok_unsubscribe)

interpretation cs_sys: invariant_system "\<lambda>c. \<exists>e n. c = new_caster e n" "caster_step cfg" caster_ok for cfg
  by unfold_locales (auto intro: caster_step_ok)

section \<open>What each operation leaves\<close>

lemma enqueue_frame:
  "cs_transports (snd (enqueue_quality cfg m f c)) = cs_transports c \<and>
   cs_store (snd (enqueue_quality cfg m f c)) = cs_store c \<and>
   cs_mountpoints (snd (enqueue_quality cfg m f c)) = cs_mountpoints c \<and>
   cs_positions (snd (enqueue_quality cfg m f c)) = cs_positions c"
  by (simp add: enqueue_quality_def process_quality_def log_caster_def case_prod_beta split: option.split)

lemma enqueue_started: "cs_queue c \<noteq> None \<Longrightarrow> fst (enqueue_quality cfg m f c) = Inr ()"
  by (auto simp: enqueue_quality_def)

lemma published_frame [simp]:
  "cs_transports (published_state now m f t mp c) = cs_transports c"
  "cs_queue (published_state now m f t mp c) = cs_queue c"
  "cs_store (published_state now m f t mp c) = (cs_store c)(t := snd (tq_publish f (cs_store c t)))"
  "cs_mountpoints (published_state now m f t mp c) = AList.update m (mp\<lparr>mp_last_seen := now\<rparr>) (cs_mountpoints c)"
  by (simp_all add: published_state_def log_caster_def)

lemma publish_open:
  assumes "map_of (cs_transports c) m = Some t" "map_of (cs_mountpoints c) m = Some mp" "cs_queue c \<noteq> None"
  shows "publish cfg now m f c =
     (Inr (fst (tq_publish f (cs_store c t))), snd (enqueue_quality cfg m (snd f) (published_state now m f t mp c)))"
proof -
  have "fst (enqueue_quality cfg m (snd f) (published_state now m f t mp c)) = Inr ()"
    using assms(3) by (intro enqueue_started) simp
  then show ?thesis
    using assms(1,2) by (cases "enqueue_quality cfg m (snd f) (published_state now m f t mp c)") (simp add: publish_cases)
qed

lemma caster_ok_registered: "caster_ok c \<Longrightarrow> map_of (cs_transports c) m = Some t \<Longrightarrow> \<exists>mp. map_of (cs_mountpoints c) m = Some mp"
  by (cases "map_of (cs_mountpoints c) m") (auto simp: caster_ok_def registry_ok_def)

lemma caster_ok_distinct_transports:
  "caster_ok c \<Longrightarrow> map_of (cs_transports c) m = Some t \<Longrightarrow> map_of (cs_transports c) m' = Some t \<Longrightarrow> m = m'"
  by (auto simp: caster_ok_def transports_ok_def)

lemma caster_ok_fresh: "caster_ok c \<Longrightarrow> map_of (cs_transports c) m \<noteq> Some (cs_next c)"
  by (auto simp: caster_ok_def transports_ok_def simp del: map_of_eq_Some_iff)

lemma forget_frame [simp]:
  "cs_transports (forget m c) = cs_transports c" "cs_store (forget m c) = cs_store c"
  "cs_mountpoints (forget m c) = cs_mountpoints c" "cs_queue (forget m c) = cs_queue c"
  "cs_expiry (forget m c) = cs_expiry c"
  by (simp_all add: forget_def)

lemma upd_transport_frame [simp]:
  "cs_transports (upd_transport t g c) = cs_transports c"
  "cs_mountpoints (upd_transport t g c) = cs_mountpoints c"
  "cs_queue (upd_transport t g c) = cs_queue c" "cs_expiry (upd_transport t g c) = cs_expiry c"
  "cs_quality (upd_transport t g c) = cs_quality c" "cs_positions (upd_transport t g c) = cs_positions c"
  "cs_store (upd_transport t g c) = (cs_store c)(t := g (cs_store c t))"
  by (simp_all add: upd_transport_def)

lemma close_open:
  assumes "map_of (cs_mountpoints c) m = Some mp" "map_of (cs_transports c) m = Some t"
  shows "close_mountpoint m c = (Inr (), upd_transport t tq_shutdown_begin
           (forget m (c\<lparr>cs_transports := AList.delete m (cs_transports c)\<rparr>)))"
  using assms by (simp add: close_mountpoint_def)

lemma shutdown_tasks_store:
  "cs_store (fold (shutdown_task t) is c) = (cs_store c)(t := fold tq_shutdown_task is (cs_store c t))"
  by (induction "is" arbitrary: c) (simp_all add: shutdown_task_def)

lemma unregister_mountpoints: "cs_mountpoints (unregister m c) = AList.delete m (cs_mountpoints c)"
  by (auto simp: unregister_def Let_def split: option.split)

lemma unregister_transports:
  "caster_ok c \<Longrightarrow> cs_transports (unregister m c) = AList.delete m (cs_transports c)"
  by (auto simp: unregister_def Let_def caster_ok_def registry_ok_def split: option.split)

lemma unregister_expiry [simp]: "cs_expiry (unregister m c) = cs_expiry c"
  by (auto simp: unregister_def Let_def split: option.split)

lemma fold_unregister:
  "cs_mountpoints (fold unregister ns c) = filter (\<lambda>e. fst e \<notin> set ns) (cs_mountpoints c)"
proof (induction ns arbitrary: c)
  case (Cons n ns)
  have "AList.delete n d = filter (\<lambda>e. fst e \<noteq> n) d" for d :: "(string, mountpoint) dict"
    by (induction d) auto
  with Cons show ?case by (auto simp: unregister_mountpoints intro: filter_cong)
qed simp

lemma caster_ok_fold_unregister: "caster_ok c \<Longrightarrow> caster_ok (fold unregister ns c)"
  by (induction ns arbitrary: c) (auto intro: caster_ok_unregister)

section \<open>Properties\<close>

text \<open>
  C5: the caster's registry is consistent in every state reachable by interleaving its operations,
  the rovers' operations and the background tasks: an open transport belongs to exactly one
  registered mountpoint, the quality queue never exceeds its bound, every buffer and window of the
  quality pipeline is bounded, and no mountpoint keeps an empty table of rover positions.
\<close>
theorem caster_consistent:
  assumes "reach (\<lambda>c. \<exists>e n. c = new_caster e n) (caster_step cfg) c"
  shows "(\<forall>m t. map_of (cs_transports c) m = Some t \<longrightarrow>
            available m c \<and> (\<forall>m'. map_of (cs_transports c) m' = Some t \<longrightarrow> m' = m)) \<and>
         (\<forall>q. cs_queue c = Some q \<longrightarrow> 0 < cs_queue_maxsize c \<longrightarrow> length q \<le> cs_queue_maxsize c) \<and>
         quality_ok (cs_quality c) \<and>
         (\<forall>m. map_of (cs_positions c) m \<noteq> Some [])"
proof -
  from cs_sys.reach_inv [OF assms] have "caster_ok c" .
  then show ?thesis
    using caster_ok_registered [OF \<open>caster_ok c\<close>]
    by (fastforce simp: available_def caster_ok_def transports_ok_def queue_ok_def positions_ok_def)
qed

text \<open>
  Publishing. With the caster started, publishing to a mountpoint never raises; it returns the
  number of active rovers of that mountpoint's transport (0 if none is open), applies exactly one
  transport publish to it, and touches no other mountpoint's transport, whatever the state of the
  quality queue.
\<close>
theorem publish_delivers_to_own_rovers_only:
  assumes "caster_ok c" "cs_queue c \<noteq> None"
  shows "fst (publish cfg now m f c) = Inr (case map_of (cs_transports c) m of
            None \<Rightarrow> 0 | Some t \<Rightarrow> card (tq_active (cs_store c t))) \<and>
    (\<forall>m' t'. map_of (cs_transports c) m' = Some t' \<longrightarrow>
       cs_store (snd (publish cfg now m f c)) t' =
         (if m' = m then snd (tq_publish f (cs_store c t')) else cs_store c t'))"
proof (cases "map_of (cs_transports c) m")
  case None
  then show ?thesis by (auto simp: publish_cases)
next
  case (Some t)
  then obtain mp where mp: "map_of (cs_mountpoints c) m = Some mp" using caster_ok_registered assms(1) by blast
  have "cs_store (snd (publish cfg now m f c)) = (cs_store c)(t := snd (tq_publish f (cs_store c t)))"
    by (simp add: publish_open [OF Some mp assms(2)] enqueue_frame)
  moreover have "fst (publish cfg now m f c) = Inr (card (tq_active (cs_store c t)))"
    by (simp add: publish_open [OF Some mp assms(2)] qt.publish_acks caster_ok_store_ok assms(1))
  ultimately show ?thesis
    using Some caster_ok_distinct_transports [OF assms(1)] by auto
qed

text \<open>
  C22: closing an open mountpoint. It succeeds, forgets the session's buffer, windows and rover
  positions, and makes the mountpoint unavailable, so that publishing to it reaches nobody and a new
  subscription is refused, while its registration survives. Once the scheduled shutdown tasks of
  its subscribers have run, every rover that was active reads the end of its stream.
\<close>
theorem close_ends_the_session:
  assumes "caster_ok c" "map_of (cs_mountpoints c) m = Some mp" "map_of (cs_transports c) m = Some t"
  shows "fst (close_mountpoint m c) = Inr () \<and>
    (let c' = snd (close_mountpoint m c) in
       map_of (cs_mountpoints c') m = Some mp \<and> \<not> available m c' \<and>
       fst (publish cfg now m f c') = Inr 0 \<and> Caster.subscribe m c' = Inl (KeyError m) \<and>
       get_rover_positions m c' = [] \<and> buffered m (cs_quality c') = [] \<and>
       map_of (qs_quality (cs_quality c')) m = None \<and>
       (\<forall>i \<in> tq_active (cs_store c t).
          fst (tq_get i (cs_store (fold (shutdown_task t) (tq_queues (cs_store c t)) c') t)) = Ended))"
proof -
  have tr: "fold tq_shutdown_task (tq_queues (cs_store c t)) (tq_shutdown_begin (cs_store c t)) = tq_shutdown (cs_store c t)"
    by (simp add: tq_shutdown_def)
  have ends: "\<forall>i \<in> tq_active (cs_store c t). fst (tq_get i (tq_shutdown (cs_store c t))) = Ended"
    using tq_active_ended caster_ok_store_ok [OF assms(1)] by blast
  show ?thesis
    using ends assms(2)
    by (simp add: close_open [OF assms(2,3)] shutdown_tasks_store tr available_def publish_cases
        Caster.subscribe_def get_rover_positions_def buffered_def dict_simps)
       (simp add: forget_def dict_simps)
qed

lemma reap_mountpoints:
  assumes "caster_ok c" "cs_expiry c = Some expiry"
  shows "cs_mountpoints (reap now c) = filter (\<lambda>(m, mp). now - expiry \<le> mp_last_seen mp) (cs_mountpoints c)"
proof -
  let ?ns = "stale_names now c"
  have d: "dict_ok (cs_mountpoints c)" using assms(1) by (simp add: caster_ok_def registry_ok_def)
  have mem: "fst e \<in> set ?ns \<longleftrightarrow> mp_last_seen (snd e) < now - expiry" if "e \<in> set (cs_mountpoints c)" for e
  proof -
    have uniq: "mp = snd e" if "(fst e, mp) \<in> set (cs_mountpoints c)" for mp
      using eq_key_imp_eq_value [OF d that, of "snd e"] \<open>e \<in> set (cs_mountpoints c)\<close> by simp
    have "fst e \<in> set ?ns \<longleftrightarrow> (\<exists>mp. (fst e, mp) \<in> set (cs_mountpoints c) \<and> mp_last_seen mp < now - expiry)"
      by (simp add: stale_names_def assms(2) mem_filtered_keys del: set_map set_filter)
    also have "\<dots> \<longleftrightarrow> mp_last_seen (snd e) < now - expiry"
      using uniq that by (metis prod.collapse)
    finally show ?thesis .
  qed
  have "cs_mountpoints (reap now c) = filter (\<lambda>e. fst e \<notin> set ?ns) (cs_mountpoints c)"
    by (simp add: reap_def reap_count_def log_caster_def fold_unregister Let_def)
  also have "\<dots> = filter (\<lambda>(m, mp). now - expiry \<le> mp_last_seen mp) (cs_mountpoints c)"
    by (rule filter_cong) (auto simp: mem not_less)
  finally show ?thesis .
qed

lemma caster_ok_reap: "caster_ok c \<Longrightarrow> caster_ok (reap now c)"
  using caster_ok_fold_unregister [of c] by (simp add: reap_def reap_count_def Let_def)

text \<open>
  The reaper removes exactly the silent mountpoints. After a pass at time \<open>now\<close> the registry
  holds, in unchanged order and with unchanged entries, the mountpoints heard from within the last
  \<open>expiry\<close> seconds, and no transport of a removed one stays open.
\<close>
theorem reap_removes_exactly_the_silent:
  assumes "caster_ok c" "cs_expiry c = Some expiry"
  shows "cs_mountpoints (reap now c) = filter (\<lambda>(m, mp). now - expiry \<le> mp_last_seen mp) (cs_mountpoints c) \<and>
         (\<forall>m. map_of (cs_mountpoints (reap now c)) m = None \<longrightarrow> map_of (cs_transports (reap now c)) m = None)"
  using reap_mountpoints [OF assms] caster_ok_reap [OF assms(1)] by (simp add: caster_ok_def registry_ok_def)

text \<open>
  Re-registration is not validated. When the mountpoint of the URL is already registered, the
  name its entry carries afterwards (the one the source table advertises) is whatever the first
  field of the station's \<open>Ntrip-STR\<close> says, and the call cannot fail; only the first registration
  imposes the name of the URL and checks it.
\<close>
theorem reregistration_takes_any_name:
  assumes "map_of (cs_mountpoints c) m = Some mp"
  shows "\<exists>mp'. fst (register now m (parse_ntrip_str header m) c) = Inr mp' \<and>
     map_of (cs_mountpoints (snd (register now m (parse_ntrip_str header m) c))) m = Some mp' \<and>
     Some (mp_name mp') = md_name (parse_ntrip_str header m)"
proof -
  have "opt_all (\<lambda>_. True) (md_name (parse_ntrip_str header m))"
    using description_ok_parse [of header m] by (simp add: description_ok_def)
  then obtain n where "md_name (parse_ntrip_str header m) = Some n"
    by (cases "md_name (parse_ntrip_str header m)") (auto simp: opt_all_def)
  then show ?thesis
    using assms by (auto simp: register_def Let_def update_metadata_name open_transport_def dict_simps)
qed

text \<open>
  Closing the same mountpoint twice raises. After a successful close the mountpoint is still
  registered but has no transport, so a second \<open>close\<close> (a second base station that was streaming to
  the same mountpoint) fails with KeyError, where \<open>unregister\<close> is idempotent.
\<close>
theorem second_close_raises:
  assumes "map_of (cs_mountpoints c) m = Some mp" "map_of (cs_transports c) m = Some t"
  shows "fst (close_mountpoint m (snd (close_mountpoint m c))) = Inl (KeyError m) \<and>
         unregister m (unregister m c) = unregister m c"
  using assms
  by (simp add: close_open close_mountpoint_def dict_simps)
     (simp add: unregister_def [of m "unregister m c"] unregister_mountpoints dict_simps)

text \<open>
  A sample that is still queued when its mountpoint closes brings the forgotten state back. If
  the worker's next sample is an incomplete frame of that mountpoint, one turn of the worker after
  the close leaves those bytes in the mountpoint's buffer, where they precede the first bytes of
  its next session.
\<close>
theorem late_sample_outlives_close:
  assumes "map_of (cs_mountpoints c) m = Some mp" "map_of (cs_transports c) m = Some t"
    and "cs_queue c = Some ((m, part) # q)" "part \<noteq> []" "split_rtcm_frames part = ([], part)"
  shows "\<exists>c'. quality_turn cfg (snd (close_mountpoint m c)) = Some c' \<and> buffered m (cs_quality c') = part"
proof -
  let ?c = "snd (close_mountpoint m c)"
  have q: "cs_queue ?c = Some ((m, part) # q)" and b: "buffered m (cs_quality ?c) = []"
    using assms(3) by (simp_all add: close_open [OF assms(1,2)])
      (simp_all add: forget_def buffered_def dict_simps)
  have "next_buffer part = part" using next_buffer_remainder [of part] assms(5) by simp
  with b assms(5) have "buffered m (snd (observe_rtcm_quality cfg True m part (cs_quality ?c))) = part"
    by (simp add: observe_rtcm_quality_def buffered_set_remainder)
  with q show ?thesis by (simp add: quality_turn_def process_quality_def case_prod_beta)
qed

section \<open>Witnesses\<close>

text \<open>A started caster with one open mountpoint, last heard from at time 5, and one subscribed rover.\<close>

definition demo_caster :: caster where
  "demo_caster = snd (metered_subscribe ''BASE-1'' 0 (start (open_transport ''BASE-1''
     ((new_caster (Some 10) 4)\<lparr>cs_mountpoints := [(''BASE-1'', demo_mountpoint\<lparr>mp_last_seen := 5\<rparr>)]\<rparr>))))"

lemma demo_caster_ok: "caster_ok demo_caster"
proof -
  have "caster_ok ((new_caster (Some 10) 4)\<lparr>cs_mountpoints := AList.update ''BASE-1'' (demo_mountpoint\<lparr>mp_last_seen := 5\<rparr>)
      (cs_mountpoints (new_caster (Some 10) 4))\<rparr>)"
    by (rule caster_ok_set_mountpoint) simp
  then have "caster_ok ((new_caster (Some 10) 4)\<lparr>cs_mountpoints := [(''BASE-1'', demo_mountpoint\<lparr>mp_last_seen := 5\<rparr>)]\<rparr>)"
    by (simp add: new_caster_def)
  then show ?thesis
    unfolding demo_caster_def by (intro caster_ok_subscribe caster_ok_start_stop caster_ok_open) simp_all
qed

lemmas demo_defs = demo_caster_def metered_subscribe_def log_caster_def start_def open_transport_def new_caster_def Let_def

lemma demo_caster_facts:
  "map_of (cs_transports demo_caster) ''BASE-1'' = Some 0"
  "map_of (cs_mountpoints demo_caster) ''BASE-1'' = Some (demo_mountpoint\<lparr>mp_last_seen := 5\<rparr>)"
  "cs_mountpoints demo_caster = [(''BASE-1'', demo_mountpoint\<lparr>mp_last_seen := 5\<rparr>)]"
  "cs_queue demo_caster = Some []" "cs_expiry demo_caster = Some 10"
  "tq_active (cs_store demo_caster 0) = {0}"
  using tq_active_subscribe [of "new_transport :: frame queue_transport"]
  by (simp_all add: demo_defs case_prod_beta) (simp add: tq_subscribe_def new_transport_def)

theorem caster_consistent_witness:
  "available ''B'' (snd (register 0 ''B'' no_metadata (new_caster None 4)))"
proof -
  let ?c = "snd (register 0 ''B'' no_metadata (new_caster None 4))"
  have "reach (\<lambda>c. \<exists>e n. c = new_caster e n) (caster_step demo_config) (new_caster None 4)"
    by (auto intro: reach_start)
  then have r: "reach (\<lambda>c. \<exists>e n. c = new_caster e n) (caster_step demo_config) ?c"
    by (rule reach_step) (rule caster_step.register)
  have "mountpoint_re ''B''" by code_simp
  then have "map_of (cs_transports ?c) ''B'' = Some 0"
    by (simp add: register_def new_caster_def new_mountpoint_def post_init_def open_transport_def
        no_metadata_def present_and_not_def given_and_not_def)
  with caster_consistent [OF r] show ?thesis by blast
qed

theorem publish_delivers_to_own_rovers_only_witness:
  "fst (publish demo_config 6 ''BASE-1'' (0, [1, 2]) demo_caster) = Inr 1"
  using publish_delivers_to_own_rovers_only [OF demo_caster_ok, of demo_config 6 "''BASE-1''" "(0, [1, 2])"]
  by (simp add: demo_caster_facts del: map_of_eq_Some_iff)

theorem close_ends_the_session_witness:
  "\<not> available ''BASE-1'' (snd (close_mountpoint ''BASE-1'' demo_caster))"
  using close_ends_the_session [OF demo_caster_ok demo_caster_facts(2,1)] by (simp add: Let_def)

theorem reap_removes_exactly_the_silent_witness:
  "cs_mountpoints (reap 16 demo_caster) = [] \<and> cs_mountpoints (reap 15 demo_caster) = cs_mountpoints demo_caster"
  using reap_removes_exactly_the_silent [OF demo_caster_ok demo_caster_facts(5)]
  by (simp add: demo_caster_facts)

theorem reregistration_takes_any_name_witness:
  "\<exists>mp'. fst (register 6 ''BASE-1'' (parse_ntrip_str (Some ''no such name!'') ''BASE-1'') demo_caster) = Inr mp' \<and>
     mp_name mp' = ''no such name!''"
proof -
  have f: "str_header_fields ''no such name!'' = [''no such name!'']" by code_simp
  have "md_name (parse_ntrip_str (Some ''no such name!'') ''BASE-1'') = Some ''no such name!''"
    by (simp add: parse_ntrip_str_def f parse_str_fields_def str_field_def accept_def Let_def)
  with reregistration_takes_any_name [OF demo_caster_facts(2), of 6 "Some ''no such name!''"] show ?thesis
    by auto
qed

theorem second_close_raises_witness:
  "fst (close_mountpoint ''BASE-1'' (snd (close_mountpoint ''BASE-1'' demo_caster))) = Inl (KeyError ''BASE-1'')"
  using second_close_raises [OF demo_caster_facts(2,1)] by simp

theorem late_sample_outlives_close_witness:
  "\<exists>c'. quality_turn demo_config (snd (close_mountpoint ''BASE-1''
       (demo_caster\<lparr>cs_queue := Some [(''BASE-1'', [0xD3, 0])]\<rparr>))) = Some c' \<and>
     buffered ''BASE-1'' (cs_quality c') = [0xD3, 0]"
proof -
  have "split_rtcm_frames [0xD3, 0] = ([], [0xD3, 0])"
    by (subst split_at_preamble) (simp_all add: RTCM3_PREAMBLE_def)
  then show ?thesis
    using late_sample_outlives_close [of "demo_caster\<lparr>cs_queue := Some [(''BASE-1'', [0xD3, 0])]\<rparr>" "''BASE-1''"
        "demo_mountpoint\<lparr>mp_last_seen := 5\<rparr>" 0 "[0xD3, 0]" "[]" demo_config]
    by (simp add: demo_caster_facts del: map_of_eq_Some_iff)
qed

end
