(* ===== verification/NearestBase.thy ===== *)
theory NearestBase
  imports Mountpoint
begin

text \<open>
  Choosing the mountpoint nearest to a rover: the loop of \<open>services/v1/ntrip/nearest.py\<close> and the
  loop \<open>_nearest\<close> of \<open>rtcm/udp.py\<close>, the distance mask test \<open>_out_of_range\<close>, and the contract of a
  selector, which both loops are shown to fulfil.
\<close>

section \<open>The two loops\<close>

type_synonym registry = "(string, mountpoint) dict"

text \<open>Distance from a mountpoint with coordinates; None when a coordinate is missing.\<close>

definition base_distance :: "mountpoint \<Rightarrow> pyfloat \<Rightarrow> pyfloat \<Rightarrow> (py_error + pyfloat) option" where
  "base_distance mp lat lon =
     (case (mp_latitude mp, mp_longitude mp) of
        (Some a, Some b) \<Rightarrow> Some (haversine a b lat lon)
      | _ \<Rightarrow> None)"

fun nearest_from :: "string option \<times> pyfloat \<Rightarrow> registry \<Rightarrow> pyfloat \<Rightarrow> pyfloat \<Rightarrow> py_error + string option" where
  "nearest_from (best_id, best_dist) [] lat lon = Inr best_id"
| "nearest_from (best_id, best_dist) ((mp_id, mp) # rest) lat lon =
     (case base_distance mp lat lon of
        None \<Rightarrow> nearest_from (best_id, best_dist) rest lat lon
      | Some (Inl e) \<Rightarrow> Inl e
      | Some (Inr km) \<Rightarrow>
          if Fin 0 < mp_mask mp \<and> mp_mask mp < km then nearest_from (best_id, best_dist) rest lat lon
          else if km < best_dist then nearest_from (Some mp_id, km) rest lat lon
          else nearest_from (best_id, best_dist) rest lat lon)"

definition http_nearest :: "registry \<Rightarrow> pyfloat \<Rightarrow> pyfloat \<Rightarrow> py_error + string option" where
  "http_nearest mountpoints lat lon = nearest_from (None, PInf) mountpoints lat lon"

text \<open>The UDP loop, which keeps its accumulator in the other order.\<close>

fun udp_nearest_step ::
  "pyfloat \<Rightarrow> pyfloat \<Rightarrow> string \<times> mountpoint \<Rightarrow> py_error + pyfloat \<times> string option \<Rightarrow> py_error + pyfloat \<times> string option" where
  "udp_nearest_step lat lon e (Inl err) = Inl err"
| "udp_nearest_step lat lon (mp_id, mp) (Inr (best_dist, best_id)) =
     (if mp_latitude mp = None \<or> mp_longitude mp = None then Inr (best_dist, best_id)
      else andThen (haversine (the (mp_latitude mp)) (the (mp_longitude mp)) lat lon) (\<lambda>km.
        if Fin 0 < mp_mask mp \<and> mp_mask mp < km then Inr (best_dist, best_id)
        else if km < best_dist then Inr (km, Some mp_id)
        else Inr (best_dist, best_id)))"

definition udp_nearest :: "registry \<Rightarrow> pyfloat \<Rightarrow> pyfloat \<Rightarrow> py_error + string option" where
  "udp_nearest mountpoints lat lon =
     andThen (fold (udp_nearest_step lat lon) mountpoints (Inr (PInf, None))) (\<lambda>(best_dist, best_id). Inr best_id)"

definition out_of_range :: "registry \<Rightarrow> string \<Rightarrow> pyfloat \<Rightarrow> pyfloat \<Rightarrow> py_error + bool" where
  "out_of_range mountpoints mountpoint lat lon =
     (case map_of mountpoints mountpoint of
        None \<Rightarrow> Inr False
      | Some mp \<Rightarrow>
          if mp_mask mp \<le> Fin 0 then Inr False
          else (case base_distance mp lat lon of
                  None \<Rightarrow> Inr False
                | Some r \<Rightarrow> andThen r (\<lambda>d. Inr (mp_mask mp < d))))"

section \<open>Candidates\<close>

text \<open>Registries whose coordinates, where given, are finite: what validation and parsing give.\<close>

definition finite_coordinates :: "mountpoint \<Rightarrow> bool" where
  "finite_coordinates mp \<longleftrightarrow>
     (\<forall>f. mp_latitude mp = Some f \<longrightarrow> (\<exists>x. f = Fin x)) \<and> (\<forall>f. mp_longitude mp = Some f \<longrightarrow> (\<exists>x. f = Fin x))"

definition candidate :: "mountpoint \<Rightarrow> real \<Rightarrow> real \<Rightarrow> real option" where
  "candidate mp lat lon =
     (case (mp_latitude mp, mp_longitude mp) of
        (Some (Fin a), Some (Fin b)) \<Rightarrow>
          (if Fin 0 < mp_mask mp \<and> mp_mask mp < Fin (distance_km a b lat lon) then None
           else Some (distance_km a b lat lon))
      | _ \<Rightarrow> None)"

lemma coordinate_cases [consumes 1, case_names no_latitude no_longitude both]:
  assumes "finite_coordinates mp"
  obtains "mp_latitude mp = None"
  | a where "mp_latitude mp = Some (Fin a)" "mp_longitude mp = None"
  | a b where "mp_latitude mp = Some (Fin a)" "mp_longitude mp = Some (Fin b)"
  using assms by (cases "mp_latitude mp"; cases "mp_longitude mp") (auto simp: finite_coordinates_def)

text \<open>One turn of the loop on finite coordinates.\<close>

lemma nearest_from_Cons:
  assumes "finite_coordinates mp"
  shows "nearest_from (b, d) ((i, mp) # rest) (Fin lat) (Fin lon) =
    (case candidate mp lat lon of
       None \<Rightarrow> nearest_from (b, d) rest (Fin lat) (Fin lon)
     | Some x \<Rightarrow> if Fin x < d then nearest_from (Some i, Fin x) rest (Fin lat) (Fin lon)
                 else nearest_from (b, d) rest (Fin lat) (Fin lon))"
  using assms
  by (cases mp rule: coordinate_cases) (auto simp: candidate_def base_distance_def haversine_Fin)

declare nearest_from.simps(2) [simp del]

definition minimal_in :: "registry \<Rightarrow> real \<Rightarrow> real \<Rightarrow> string \<Rightarrow> real \<Rightarrow> bool" where
  "minimal_in reg lat lon i d \<longleftrightarrow>
     (\<exists>pre mp post. reg = pre @ (i, mp) # post \<and> candidate mp lat lon = Some d \<and>
        (\<forall>(j, m) \<in> set pre. \<forall>x. candidate m lat lon = Some x \<longrightarrow> d < x) \<and>
        (\<forall>(j, m) \<in> set post. \<forall>x. candidate m lat lon = Some x \<longrightarrow> d \<le> x))"

abbreviation all_finite :: "registry \<Rightarrow> bool" where
  "all_finite reg \<equiv> list_all (\<lambda>e. finite_coordinates (snd e)) reg"

lemma nearest_from_spec:
  assumes "all_finite reg"
  shows "nearest_from (b, d) reg (Fin lat) (Fin lon) = Inr r \<Longrightarrow> d = PInf \<or> (\<exists>y. d = Fin y) \<Longrightarrow>
    (r = b \<and> (\<forall>(j, m) \<in> set reg. \<forall>x. candidate m lat lon = Some x \<longrightarrow> \<not> Fin x < d)) \<or>
    (\<exists>i x. r = Some i \<and> Fin x < d \<and> minimal_in reg lat lon i x)"
  using assms
proof (induction reg arbitrary: b d)
  case Nil
  then show ?case by simp
next
  case (Cons e reg)
  obtain i mp where e: "e = (i, mp)" by fastforce
  with Cons.prems have fin: "finite_coordinates mp" "all_finite reg" by simp_all
  note step = nearest_from_Cons [OF fin(1)]
  have later: "minimal_in (e # reg) lat lon k z"
    if "minimal_in reg lat lon k z" "\<forall>x. candidate mp lat lon = Some x \<longrightarrow> z < x" for k z
  proof -
    from that(1) obtain pre m post where "reg = pre @ (k, m) # post" "candidate m lat lon = Some z"
      "\<forall>(j, m) \<in> set pre. \<forall>x. candidate m lat lon = Some x \<longrightarrow> z < x"
      "\<forall>(j, m) \<in> set post. \<forall>x. candidate m lat lon = Some x \<longrightarrow> z \<le> x"
      unfolding minimal_in_def by blast
    with that(2) e show ?thesis
      unfolding minimal_in_def by (intro exI [of _ "(i, mp) # pre"] exI [of _ m] exI [of _ post]) auto
  qed
  show ?case
  proof (cases "\<exists>x. candidate mp lat lon = Some x \<and> Fin x < d")
    case True
    then obtain x where x: "candidate mp lat lon = Some x" "Fin x < d" by blast
    with Cons.prems(1) have "nearest_from (Some i, Fin x) reg (Fin lat) (Fin lon) = Inr r"
      by (simp add: e step)
    from Cons.IH [OF this _ fin(2)] consider
      (here) "r = Some i" "\<forall>(j, m) \<in> set reg. \<forall>y. candidate m lat lon = Some y \<longrightarrow> \<not> Fin y < Fin x"
      | (there) k z where "r = Some k" "Fin z < Fin x" "minimal_in reg lat lon k z" by blast
    then show ?thesis
    proof cases
      case here
      then have "minimal_in (e # reg) lat lon i x"
        using x e unfolding minimal_in_def
        by (intro exI [of _ "[]"] exI [of _ mp] exI [of _ reg]) (auto simp: not_less)
      with here x show ?thesis by blast
    next
      case there
      have "minimal_in (e # reg) lat lon k z" by (rule later [OF there(3)]) (use there(2) x(1) in simp)
      moreover have "Fin z < d" by (rule pyfloat_less_trans [OF there(2) x(2)])
      ultimately show ?thesis using there(1) by blast
    qed
  next
    case False
    with Cons.prems(1) have "nearest_from (b, d) reg (Fin lat) (Fin lon) = Inr r"
      by (auto simp: e step split: option.splits if_splits)
    from Cons.IH [OF this Cons.prems(2) fin(2)] consider
      (none) "r = b" "\<forall>(j, m) \<in> set reg. \<forall>x. candidate m lat lon = Some x \<longrightarrow> \<not> Fin x < d"
      | (some) k z where "r = Some k" "Fin z < d" "minimal_in reg lat lon k z" by blast
    then show ?thesis
    proof cases
      case none
      with False e show ?thesis by auto
    next
      case some
      have "z < x" if "candidate mp lat lon = Some x" for x
        using False that some(2) Cons.prems(2) by (auto simp: not_less)
      with some later show ?thesis by blast
    qed
  qed
qed

lemma nearest_from_total:
  "all_finite reg \<Longrightarrow> \<exists>r. nearest_from bd reg (Fin lat) (Fin lon) = Inr r"
proof (induction reg arbitrary: bd)
  case Nil
  then show ?case by (cases bd) simp
next
  case (Cons e reg)
  then show ?case
    by (cases bd; cases e) (auto simp: nearest_from_Cons split: option.split)
qed

section \<open>Both loops are the same function\<close>

lemma udp_fold_error: "fold (udp_nearest_step lat lon) reg (Inl e) = Inl e"
  by (induction reg) simp_all

lemma udp_nearest_from:
  "andThen (fold (udp_nearest_step lat lon) reg (Inr (d, b))) (\<lambda>(d, b). Inr b) = nearest_from (b, d) reg lat lon"
proof (induction reg arbitrary: b d)
  case (Cons e reg)
  obtain i mp where e: "e = (i, mp)" by fastforce
  show ?case
  proof (cases "mp_latitude mp = None \<or> mp_longitude mp = None")
    case True
    with Cons e show ?thesis by (auto simp: nearest_from.simps base_distance_def split: option.split)
  next
    case False
    then obtain x y where "mp_latitude mp = Some x" "mp_longitude mp = Some y" by auto
    with Cons e show ?thesis
      by (cases "haversine x y lat lon") (simp_all add: nearest_from.simps base_distance_def udp_fold_error)
  qed
qed simp

text \<open>
  The UDP egress and the HTTP endpoints choose the same base station for every registry and
  every position, including positions that are not finite.
\<close>
theorem udp_and_http_choose_alike: "udp_nearest mountpoints lat lon = http_nearest mountpoints lat lon"
  by (simp add: udp_nearest_def http_nearest_def udp_nearest_from)

section \<open>The contract of a selector\<close>

locale base_selector =
  fixes select :: "registry \<Rightarrow> pyfloat \<Rightarrow> pyfloat \<Rightarrow> py_error + string option"
  assumes select_total: "all_finite reg \<Longrightarrow> \<exists>r. select reg (Fin lat) (Fin lon) = Inr r"
    and select_none: "all_finite reg \<Longrightarrow> select reg (Fin lat) (Fin lon) = Inr None \<Longrightarrow> (j, m) \<in> set reg \<Longrightarrow>
      candidate m lat lon = None"
    and select_some: "all_finite reg \<Longrightarrow> select reg (Fin lat) (Fin lon) = Inr (Some i) \<Longrightarrow>
      \<exists>d. minimal_in reg lat lon i d"
begin

lemma selected_registered:
  "all_finite reg \<Longrightarrow> select reg (Fin lat) (Fin lon) = Inr (Some i) \<Longrightarrow> i \<in> set (map fst reg)"
  by (auto dest!: select_some simp: minimal_in_def)

lemma selected_in_range:
  assumes "all_finite reg" "select reg (Fin lat) (Fin lon) = Inr (Some i)"
  shows "\<exists>mp d. (i, mp) \<in> set reg \<and> candidate mp lat lon = Some d \<and> \<not> (Fin 0 < mp_mask mp \<and> mp_mask mp < Fin d) \<and>
    (\<forall>j m x. (j, m) \<in> set reg \<longrightarrow> candidate m lat lon = Some x \<longrightarrow> d \<le> x)"
proof -
  obtain d where "minimal_in reg lat lon i d" using select_some [OF assms] by blast
  then obtain pre mp post where m: "reg = pre @ (i, mp) # post" "candidate mp lat lon = Some d"
    "\<forall>(j, m) \<in> set pre. \<forall>x. candidate m lat lon = Some x \<longrightarrow> d < x"
    "\<forall>(j, m) \<in> set post. \<forall>x. candidate m lat lon = Some x \<longrightarrow> d \<le> x"
    unfolding minimal_in_def by blast
  moreover from m(2) have "\<not> (Fin 0 < mp_mask mp \<and> mp_mask mp < Fin d)"
    by (auto simp: candidate_def split: option.splits pyfloat.splits if_splits)
  moreover have "d \<le> x" if "(j, m) \<in> set reg" "candidate m lat lon = Some x" for j m x
    using that m by fastforce
  moreover have "(i, mp) \<in> set reg" by (simp add: m(1))
  ultimately show ?thesis by blast
qed

lemma selects_some_candidate:
  assumes "all_finite reg" "(j, m) \<in> set reg" "candidate m lat lon = Some x"
  shows "\<exists>i. select reg (Fin lat) (Fin lon) = Inr (Some i)"
proof -
  obtain r where r: "select reg (Fin lat) (Fin lon) = Inr r" using select_total [OF assms(1)] by blast
  then show ?thesis using select_none [OF assms(1) _ assms(2)] assms(3) by (cases r) auto
qed

end

lemma http_nearest_spec:
  assumes "all_finite reg" "http_nearest reg (Fin lat) (Fin lon) = Inr r"
  shows "(r = None \<and> (\<forall>(j, m) \<in> set reg. candidate m lat lon = None)) \<or>
         (\<exists>i d. r = Some i \<and> minimal_in reg lat lon i d)"
proof -
  from nearest_from_spec [OF assms(1) assms(2) [unfolded http_nearest_def]] consider
    (none) "r = None" "\<forall>(j, m) \<in> set reg. \<forall>x. candidate m lat lon = Some x \<longrightarrow> \<not> Fin x < PInf"
    | (some) i d where "r = Some i" "minimal_in reg lat lon i d" by blast
  then show ?thesis
  proof cases
    case none
    then have "\<forall>(j, m) \<in> set reg. candidate m lat lon = None" by fastforce
    with none show ?thesis by blast
  qed blast
qed

interpretation http: base_selector http_nearest
proof unfold_locales
  fix reg lat lon
  assume fin: "all_finite reg"
  show "\<exists>r. http_nearest reg (Fin lat) (Fin lon) = Inr r"
    using nearest_from_total [OF fin] by (simp add: http_nearest_def)
  show "candidate m lat lon = None" if "http_nearest reg (Fin lat) (Fin lon) = Inr None" "(j, m) \<in> set reg" for j m
    using http_nearest_spec [OF fin that(1)] that(2) by fastforce
  show "\<exists>d. minimal_in reg lat lon i d" if "http_nearest reg (Fin lat) (Fin lon) = Inr (Some i)" for i
    using http_nearest_spec [OF fin that] by fastforce
qed

interpretation udp: base_selector udp_nearest
  unfolding udp_nearest_def udp_nearest_from http_nearest_def [symmetric] by (rule http.base_selector_axioms)

section \<open>Properties\<close>


definition base_at :: "string \<Rightarrow> real \<Rightarrow> real \<Rightarrow> real \<Rightarrow> string \<times> mountpoint" where
  "base_at n lat lon km =
     (n, \<lparr>mp_name = n, mp_identifier = None, mp_format = None, mp_country = None, mp_latitude = Some (Fin lat),
         mp_longitude = Some (Fin lon), mp_format_detail = [], mp_carrier = 0, mp_nav_system = [], mp_network = [],
         mp_nmea = False, mp_mask = Fin km, mp_solution = 0, mp_generator = [], mp_compression = [],
         mp_auth = ''B'', mp_fee = ''N'', mp_bitrate = 0, mp_last_seen = 0\<rparr>)"

lemma base_at_simps [simp]:
  "fst (base_at n a b k) = n" "finite_coordinates (snd (base_at n a b k))"
  "mp_mask (snd (base_at n a b k)) = Fin k" "mp_latitude (snd (base_at n a b k)) = Some (Fin a)"
  "mp_longitude (snd (base_at n a b k)) = Some (Fin b)"
  by (simp_all add: base_at_def finite_coordinates_def)


text \<open>
  A rover that reports NaN as its latitude defeats the distance mask. With every registered
  coordinate finite, the mask test of a pinned session says "in range" for every mountpoint however
  small its mask, and an infinite latitude makes the test raise instead.
\<close>
theorem nan_position_passes_every_mask:
  assumes "map_of mountpoints m = Some mp" "mp_latitude mp = Some (Fin a)" "mp_longitude mp = Some (Fin b)"
    and "Fin 0 < mp_mask mp"
  shows "out_of_range mountpoints m NaN (Fin lon) = Inr False \<and>
         out_of_range mountpoints m PInf (Fin lon) = Inl ValueError"
  using assms
  by (cases "mp_mask mp") (simp_all add: out_of_range_def base_distance_def haversine_NaN haversine_PInf)

theorem nan_position_passes_every_mask_witness:
  "out_of_range [base_at ''A'' 51 4 1] ''A'' NaN (Fin 0) = Inr False"
  using nan_position_passes_every_mask [of "[base_at ''A'' 51 4 1]" "''A''" "snd (base_at ''A'' 51 4 1)" 51 4 0]
  by (simp add: base_at_def)

end
