(* ===== verification/Tokens.thy ===== *)
theory Tokens
  imports CorsPrelude "HOL-Library.Countable"
begin

text \<open>
  The session tokens of \<open>rtcm/tokens.py\<close>. PyJWT is a parameter: \<open>encode\<close> and \<open>decode\<close> with the
  arguments the code passes. The hypotheses of the theorem are its documented behaviour: a token
  decodes to the claims it was made from under the same secret, algorithm and audience, as long as
  it has not expired and carries the required claims.
\<close>

datatype claim = ClText string | ClInt int

type_synonym claims = "(string, claim) dict"

record jwt_library =
  jwt_encode :: "claims \<Rightarrow> string \<Rightarrow> string \<Rightarrow> string"
  jwt_decode :: "int \<Rightarrow> string \<Rightarrow> string \<Rightarrow> string list \<Rightarrow> string \<Rightarrow> string list \<Rightarrow> claims option"

definition ALGORITHM :: string where
  "ALGORITHM = ''HS256''"

definition AUDIENCE :: string where
  "AUDIENCE = ''rtcm-udp''"

definition session_claims :: "int \<Rightarrow> string \<Rightarrow> string \<Rightarrow> int \<Rightarrow> claims" where
  "session_claims now username mountpoint ttl_seconds =
     [(''sub'', ClText username), (''mountpoint'', ClText mountpoint), (''aud'', ClText AUDIENCE),
      (''iat'', ClInt now), (''exp'', ClInt (now + ttl_seconds))]"

definition issue_session_token :: "jwt_library \<Rightarrow> int \<Rightarrow> string \<Rightarrow> string \<Rightarrow> string \<Rightarrow> int \<Rightarrow> string" where
  "issue_session_token lib now secret username mountpoint ttl_seconds =
     jwt_encode lib (session_claims now username mountpoint ttl_seconds) secret ALGORITHM"

text \<open>None is a raised \<open>jwt.InvalidTokenError\<close>.\<close>

definition verify_session_token :: "jwt_library \<Rightarrow> int \<Rightarrow> string \<Rightarrow> string \<Rightarrow> claims option" where
  "verify_session_token lib now token secret =
     jwt_decode lib now token secret [ALGORITHM] AUDIENCE [''exp'', ''mountpoint'', ''sub'']"

text \<open>\<open>claims["mountpoint"]\<close>\<close>

definition token_mountpoint :: "claims \<Rightarrow> string option" where
  "token_mountpoint c = (case map_of c ''mountpoint'' of Some (ClText m) \<Rightarrow> Some m | _ \<Rightarrow> None)"

section \<open>Documented behaviour of the library\<close>

definition claim_live :: "int \<Rightarrow> claims \<Rightarrow> bool" where
  "claim_live now c \<longleftrightarrow> (case map_of c ''exp'' of Some (ClInt e) \<Rightarrow> now < e | _ \<Rightarrow> True)"

definition accepted :: "int \<Rightarrow> string \<Rightarrow> string list \<Rightarrow> claims \<Rightarrow> bool" where
  "accepted now audience require c \<longleftrightarrow>
     claim_live now c \<and> map_of c ''aud'' = Some (ClText audience) \<and> list_all (\<lambda>r. dict_has c r) require"

definition decodes_own_tokens :: "jwt_library \<Rightarrow> bool" where
  "decodes_own_tokens lib \<longleftrightarrow>
     (\<forall>c secret alg now aud req. jwt_decode lib now (jwt_encode lib c secret alg) secret [alg] aud req =
        (if accepted now aud req c then Some c else None))"

lemma session_claims_accepted:
  "accepted later AUDIENCE [''exp'', ''mountpoint'', ''sub''] (session_claims now u m ttl) \<longleftrightarrow> later < now + ttl"
  by (simp add: accepted_def claim_live_def session_claims_def)

lemma verified_token:
  "decodes_own_tokens lib \<Longrightarrow>
   map_option token_mountpoint (verify_session_token lib later (issue_session_token lib now secret username mountpoint ttl) secret) =
     (if later < now + ttl then Some (Some mountpoint) else None)"
  by (simp add: verify_session_token_def issue_session_token_def decodes_own_tokens_def session_claims_accepted)
     (simp add: token_mountpoint_def session_claims_def)

text \<open>
  A session token made by the bootstrap endpoint is honoured by the UDP server with the same
  secret exactly until its lifetime is over, and then authorizes exactly the mountpoint it was
  issued for.
\<close>
theorem issued_token_authorizes_its_mountpoint:
  assumes "decodes_own_tokens lib"
  shows "map_option token_mountpoint
           (verify_session_token lib later (issue_session_token lib now secret username mountpoint ttl) secret) =
         (if later < now + ttl then Some (Some mountpoint) else None)"
  using assms by (rule verified_token)

text \<open>A codec with the documented behaviour: a token is a number of strokes.\<close>

instance claim :: countable
  by countable_datatype

definition stroke_library :: jwt_library where
  "stroke_library = \<lparr>jwt_encode = (\<lambda>c secret alg. replicate (to_nat (c, secret, alg)) CHR ''x''),
     jwt_decode = (\<lambda>now token secret algs aud req.
       (case from_nat (length token) of (c, secret', alg) \<Rightarrow>
          if secret' = secret \<and> alg \<in> set algs \<and> accepted now aud req c then Some c else None))\<rparr>"

lemma stroke_library_decodes: "decodes_own_tokens stroke_library"
  by (simp add: decodes_own_tokens_def stroke_library_def)

theorem issued_token_authorizes_its_mountpoint_witness:
  "map_option token_mountpoint (verify_session_token stroke_library 59
     (issue_session_token stroke_library 0 ''s3cret'' ''rover'' ''BASE-1'' 60) ''s3cret'') = Some (Some ''BASE-1'') \<and>
   map_option token_mountpoint (verify_session_token stroke_library 60
     (issue_session_token stroke_library 0 ''s3cret'' ''rover'' ''BASE-1'' 60) ''s3cret'') = None"
  using issued_token_authorizes_its_mountpoint [OF stroke_library_decodes, of _ 0 "''s3cret''" "''rover''" "''BASE-1''" 60]
  by simp

end
