(* ===== verification/UdpEgress.thy ===== *)
theory UdpEgress
  imports Caster NearestBase Tokens
begin

text \<open>
  The UDP egress of \<open>rtcm/udp.py\<close>: sessions, inbound datagrams, the spawned coroutines, the egress
  task of a session, signing with its one-frame cache, eviction and the reaper. Protobuf decoding
  and encoding, PyJWT, Ed25519 and the random session ids are parameters; a text that contains
  \<open>repr\<close> of a name is kept as its parts.
\<close>

section \<open>Datagrams\<close>

type_synonym addr = "string \<times> nat"
type_synonym pos = "pyfloat \<times> pyfloat"
type_synonym session_id = "64 word"

datatype error_text = Plain string | Quoting string string string

datatype dg_body =
    Hello string string "pos option"
  | HelloAck session_id string string int int
  | Correction bytes bytes
  | KeepAlive "pos option"
  | SwitchMountpoint string "pos option"
  | Bye
  | ErrorMsg int error_text
  | NoBody

record datagram =
  dg_version :: int
  dg_session_id :: session_id
  dg_seq :: int
  dg_body :: dg_body

definition PROTOCOL_VERSION :: int where
  "PROTOCOL_VERSION = 1"

definition INVALID_TOKEN :: int where "INVALID_TOKEN = 1"
definition UNAUTHORIZED_MOUNTPOINT :: int where "UNAUTHORIZED_MOUNTPOINT = 2"
definition MOUNTPOINT_UNAVAILABLE :: int where "MOUNTPOINT_UNAVAILABLE = 3"
definition MISSING_POSITION :: int where "MISSING_POSITION = 4"
definition OUT_OF_RANGE :: int where "OUT_OF_RANGE = 6"

section \<open>State\<close>

text \<open>A \<open>Session\<close> object; \<open>ss_task\<close> is the number of its egress task.\<close>

record session =
  ss_session_id :: session_id
  ss_mountpoint :: string
  ss_addr :: addr
  ss_expiry :: real
  ss_scope :: string
  ss_dynamic :: bool
  ss_seq :: int
  ss_task :: "nat option"

definition next_seq :: "session \<Rightarrow> int \<times> session" where
  "next_seq s = (ss_seq s, s\<lparr>ss_seq := and (ss_seq s + 1) 0xFFFFFFFF\<rparr>)"

text \<open>
  An egress task has not run yet, streams from a subscription of a transport it opened for a
  mountpoint, or is done; cancellation is delivered when it next runs.
\<close>

datatype task_state = TaskNew | TaskStreaming string nat nat | TaskDone

record egress_task =
  et_session :: nat
  et_state :: task_state
  et_cancelled :: bool

text \<open>Coroutines handed to \<open>_spawn\<close> that have not run yet; session objects are numbers.\<close>

datatype udp_job =
    JobHello string string "pos option" addr
  | JobSwitch nat string "pos option"
  | JobTeardown nat
  | JobEvict nat int error_text

record udp_server =
  us_open :: bool
  us_objects :: "nat \<Rightarrow> session"
  us_next_object :: nat
  us_sessions :: "(session_id, nat) dict"
  us_tasks :: "nat \<Rightarrow> egress_task"
  us_next_task :: nat
  us_jobs :: "udp_job list"
  us_cache :: "(string, frame \<times> bytes \<times> bytes) dict"
  us_sent :: "(addr \<times> datagram) list"
  us_log :: "pyfloat metric_op list"
  us_caster :: caster

text \<open>Configuration and the libraries the server calls.\<close>

record udp_env =
  ue_decode :: "bytes \<Rightarrow> datagram option"
  ue_encode :: "datagram \<Rightarrow> bytes"
  ue_encode_correction :: "int \<Rightarrow> string \<Rightarrow> bytes \<Rightarrow> bytes"
  ue_sign :: "bytes \<Rightarrow> bytes"
  ue_jwt :: jwt_library
  ue_token_secret :: string
  ue_signing_kid :: "string option"
  ue_signing_enabled :: bool
  ue_session_ttl :: real
  ue_keepalive_interval :: int
  ue_max_datagram :: nat

definition log_udp :: "pyfloat metric_op list \<Rightarrow> udp_server \<Rightarrow> udp_server" where
  "log_udp ops u = u\<lparr>us_log := us_log u @ ops\<rparr>"

definition upd_session :: "nat \<Rightarrow> (session \<Rightarrow> session) \<Rightarrow> udp_server \<Rightarrow> udp_server" where
  "upd_session o' f u = u\<lparr>us_objects := (us_objects u)(o' := f (us_objects u o'))\<rparr>"

definition upd_task :: "nat \<Rightarrow> (egress_task \<Rightarrow> egress_task) \<Rightarrow> udp_server \<Rightarrow> udp_server" where
  "upd_task k f u = u\<lparr>us_tasks := (us_tasks u)(k := f (us_tasks u k))\<rparr>"

definition upd_caster :: "(caster \<Rightarrow> caster) \<Rightarrow> udp_server \<Rightarrow> udp_server" where
  "upd_caster f u = u\<lparr>us_caster := f (us_caster u)\<rparr>"

abbreviation us_registry :: "udp_server \<Rightarrow> registry" where
  "us_registry u \<equiv> cs_mountpoints (us_caster u)"

section \<open>Sending\<close>

text \<open>\<open>us_sent\<close> records the datagrams whose encoding was passed to \<open>sendto\<close>.\<close>

definition send_datagram :: "addr \<Rightarrow> datagram \<Rightarrow> udp_server \<Rightarrow> udp_server" where
  "send_datagram a d u = (if us_open u then u\<lparr>us_sent := us_sent u @ [(a, d)]\<rparr> else u)"

definition send_error :: "addr \<Rightarrow> int \<Rightarrow> error_text \<Rightarrow> udp_server \<Rightarrow> udp_server" where
  "send_error a code message u =
     send_datagram a \<lparr>dg_version = PROTOCOL_VERSION, dg_session_id = 0, dg_seq = 0, dg_body = ErrorMsg code message\<rparr> u"

definition signing :: "udp_env \<Rightarrow> bool" where
  "signing E = (ue_signing_kid E \<noteq> None \<and> ue_signing_enabled E)"

definition signature_of :: "udp_env \<Rightarrow> bytes \<Rightarrow> bytes" where
  "signature_of E payload = (if signing E then ue_sign E payload else [])"

text \<open>\<open>_sign_frame\<close>: the cache hits on the identity of the frame object only.\<close>

definition sign_frame :: "udp_env \<Rightarrow> int \<Rightarrow> string \<Rightarrow> frame \<Rightarrow> udp_server \<Rightarrow> (bytes \<times> bytes) \<times> udp_server" where
  "sign_frame E timestamp_ms mountpoint frame u =
     (let entry = map_of (us_cache u) mountpoint in
      if entry \<noteq> None \<and> fst (fst (the entry)) = fst frame then (snd (the entry), u)
      else (let payload = ue_encode_correction E timestamp_ms mountpoint (snd frame);
                sc = (payload, signature_of E payload);
                u = (if ue_signing_enabled E then log_udp [MInc ''rtcm_udp_frames_signed_total'' [mountpoint] 1] u else u) in
            (sc, u\<lparr>us_cache := AList.update mountpoint (frame, sc) (us_cache u)\<rparr>)))"

text \<open>The body of the loop in \<open>_pump\<close> for one frame.\<close>

definition send_frame :: "udp_env \<Rightarrow> int \<Rightarrow> nat \<Rightarrow> frame \<Rightarrow> udp_server \<Rightarrow> udp_server" where
  "send_frame E timestamp_ms o' frame u =
     (let mountpoint = ss_mountpoint (us_objects u o');
          ((payload, signature), u) = sign_frame E timestamp_ms mountpoint frame u;
          (seq, s) = next_seq (us_objects u o');
          u = upd_session o' (\<lambda>_. s) u;
          d = \<lparr>dg_version = PROTOCOL_VERSION, dg_session_id = ss_session_id s, dg_seq = seq,
               dg_body = Correction payload signature\<rparr>;
          size = length (ue_encode E d) in
      if ue_max_datagram E < size
      then log_udp [MInc ''rtcm_udp_oversize_dropped_total'' [mountpoint] 1] u
      else log_udp [MInc ''rtcm_udp_datagrams_sent_total'' [mountpoint] 1,
                    MInc ''rtcm_udp_bytes_sent_total'' [mountpoint] (int size)]
             (send_datagram (ss_addr s) d u))"

section \<open>Authorization\<close>

definition is_wildcard :: "string \<Rightarrow> bool" where
  "is_wildcard scope = (scope = ''*'' \<or> scope = ''NEAREST'')"

definition scope_allows :: "string \<Rightarrow> string \<Rightarrow> bool" where
  "scope_allows scope mountpoint = (is_wildcard scope \<or> scope = mountpoint)"

datatype resolution = Resolved string | Denied int error_text | Crashed py_error

definition resolve_mountpoint :: "string \<Rightarrow> string \<Rightarrow> pos option \<Rightarrow> registry \<Rightarrow> resolution" where
  "resolve_mountpoint token_scope requested position mountpoints =
     (if requested = ''NEAREST''
      then (case position of
              None \<Rightarrow> Denied MISSING_POSITION (Plain ''NEAREST requires a position.'')
            | Some (lat, lon) \<Rightarrow>
                (case udp_nearest mountpoints lat lon of
                   Inl e \<Rightarrow> Crashed e
                 | Inr None \<Rightarrow> Denied MOUNTPOINT_UNAVAILABLE (Plain ''No mountpoint in range.'')
                 | Inr (Some resolved) \<Rightarrow>
                     if \<not> is_wildcard token_scope \<and> resolved \<noteq> token_scope
                     then Denied UNAUTHORIZED_MOUNTPOINT (Plain ''Not authorized for the nearest mountpoint.'')
                     else Resolved resolved))
      else if \<not> is_wildcard token_scope \<and> requested \<noteq> token_scope
      then Denied UNAUTHORIZED_MOUNTPOINT (Quoting ''Not authorized for '' requested ''.'')
      else if map_of mountpoints requested = None
      then Denied MOUNTPOINT_UNAVAILABLE (Quoting ''Mountpoint '' requested '' unavailable.'')
      else Resolved requested)"

section \<open>Sessions\<close>

definition spawn :: "udp_job \<Rightarrow> udp_server \<Rightarrow> udp_server" where
  "spawn j u = u\<lparr>us_jobs := us_jobs u @ [j]\<rparr>"

text \<open>\<open>session.task = asyncio.create_task(self._egress_loop(session))\<close>\<close>

definition start_egress :: "nat \<Rightarrow> udp_server \<Rightarrow> udp_server" where
  "start_egress o' u =
     upd_session o' (\<lambda>s. s\<lparr>ss_task := Some (us_next_task u)\<rparr>)
       (u\<lparr>us_tasks := (us_tasks u)(us_next_task u := \<lparr>et_session = o', et_state = TaskNew, et_cancelled = False\<rparr>),
          us_next_task := Suc (us_next_task u)\<rparr>)"

definition cancel_task :: "nat option \<Rightarrow> udp_server \<Rightarrow> udp_server" where
  "cancel_task t u =
     (case t of None \<Rightarrow> u | Some k \<Rightarrow> upd_task k (\<lambda>t. t\<lparr>et_cancelled := True\<rparr>) u)"

text \<open>\<open>_teardown\<close>, run by the task \<open>current\<close>, up to the wait for the cancelled egress task.\<close>

definition teardown :: "nat option \<Rightarrow> nat \<Rightarrow> udp_server \<Rightarrow> udp_server" where
  "teardown current o' u =
     (let s = us_objects u o' in
      if map_of (us_sessions u) (ss_session_id s) = None then u
      else (let u = u\<lparr>us_sessions := AList.delete (ss_session_id s) (us_sessions u)\<rparr>;
                u = log_udp [MInc ''rtcm_udp_sessions'' [] (- 1)] u;
                u = upd_caster (clear_rover_position (ss_mountpoint s) (str_of_nat (unat (ss_session_id s)))) u;
                u = upd_session o' (\<lambda>s. s\<lparr>ss_task := None\<rparr>) u in
            if ss_task s = current then u else cancel_task (ss_task s) u))"

definition evict :: "nat \<Rightarrow> int \<Rightarrow> error_text \<Rightarrow> udp_server \<Rightarrow> udp_server" where
  "evict o' code message u = teardown None o' (send_error (ss_addr (us_objects u o')) code message u)"

definition repoint :: "nat \<Rightarrow> string \<Rightarrow> udp_server \<Rightarrow> udp_server" where
  "repoint o' mountpoint u =
     (let s = us_objects u o' in
      if mountpoint = ss_mountpoint s then u
      else cancel_task (ss_task s) (start_egress o' (upd_session o' (\<lambda>s. s\<lparr>ss_mountpoint := mountpoint\<rparr>) u)))"

section \<open>Handlers\<close>

definition hello_ack :: "udp_env \<Rightarrow> session_id \<Rightarrow> string \<Rightarrow> datagram" where
  "hello_ack E sid mountpoint =
     \<lparr>dg_version = PROTOCOL_VERSION, dg_session_id = sid, dg_seq = 0,
      dg_body = HelloAck sid mountpoint (if signing E then opt_default [] (ue_signing_kid E) else [])
        (ue_keepalive_interval E) (py_trunc (ue_session_ttl E))\<rparr>"

text \<open>\<open>_on_hello\<close> at monotonic time \<open>now\<close> and wall clock \<open>wall\<close>; \<open>sid\<close> is the drawn session id.\<close>

definition on_hello ::
  "udp_env \<Rightarrow> real \<Rightarrow> int \<Rightarrow> session_id \<Rightarrow> string \<Rightarrow> string \<Rightarrow> pos option \<Rightarrow> addr \<Rightarrow> udp_server \<Rightarrow> udp_server" where
  "on_hello E now wall sid token requested position a u =
     (case verify_session_token (ue_jwt E) wall token (ue_token_secret E) of
        None \<Rightarrow>
          send_error a INVALID_TOKEN (Plain ''Invalid or expired token.'')
            (log_udp [MInc ''rtcm_udp_token_rejected_total'' [] 1] u)
      | Some claims \<Rightarrow>
          (case token_mountpoint claims of
             None \<Rightarrow> u
           | Some token_mp \<Rightarrow>
               (case resolve_mountpoint token_mp requested position (us_registry u) of
                  Crashed e \<Rightarrow> u
                | Denied code message \<Rightarrow>
                    send_error a code message (log_udp [MInc ''rtcm_udp_hello_total'' [''rejected''] 1] u)
                | Resolved mountpoint \<Rightarrow>
                    (let o' = us_next_object u;
                         s = \<lparr>ss_session_id = sid, ss_mountpoint = mountpoint, ss_addr = a,
                              ss_expiry = now + ue_session_ttl E, ss_scope = token_mp,
                              ss_dynamic = (requested = ''NEAREST''), ss_seq = 0, ss_task = None\<rparr>;
                         u = u\<lparr>us_objects := (us_objects u)(o' := s), us_next_object := Suc o',
                               us_sessions := AList.update sid o' (us_sessions u)\<rparr>;
                         u = log_udp [MInc ''rtcm_udp_hello_total'' [''accepted''] 1,
                                      MInc ''rtcm_udp_sessions'' [] 1] u in
                     start_egress o' (send_datagram a (hello_ack E sid mountpoint) u)))))"

text \<open>
  \<open>_on_keepalive\<close> returns the exception it lets through, if any, and the state it leaves.
\<close>

definition on_keepalive :: "nat \<Rightarrow> pos option \<Rightarrow> udp_server \<Rightarrow> py_error option \<times> udp_server" where
  "on_keepalive o' position u =
     (case position of
        None \<Rightarrow> (None, u)
      | Some (lat, lon) \<Rightarrow>
          (let s = us_objects u o';
               u = upd_caster (set_rover_position (ss_mountpoint s) (str_of_nat (unat (ss_session_id s))) lat lon) u in
           if ss_dynamic s
           then (case udp_nearest (us_registry u) lat lon of
                   Inl e \<Rightarrow> (Some e, u)
                 | Inr None \<Rightarrow> (None, spawn (JobEvict o' OUT_OF_RANGE (Plain ''No mountpoint in range.'')) u)
                 | Inr (Some nearest) \<Rightarrow>
                     (None, if scope_allows (ss_scope s) nearest then repoint o' nearest u else u))
           else (case out_of_range (us_registry u) (ss_mountpoint s) lat lon of
                   Inl e \<Rightarrow> (Some e, u)
                 | Inr beyond \<Rightarrow>
                     (None, if beyond
                            then spawn (JobEvict o' OUT_OF_RANGE (Quoting ''Beyond mask of '' (ss_mountpoint s) ''.'')) u
                            else u))))"

definition on_switch :: "nat \<Rightarrow> string \<Rightarrow> pos option \<Rightarrow> udp_server \<Rightarrow> udp_server" where
  "on_switch o' requested position u =
     (let s = us_objects u o' in
      case resolve_mountpoint (ss_scope s) requested position (us_registry u) of
        Crashed e \<Rightarrow> u
      | Denied code message \<Rightarrow> send_error (ss_addr s) code message u
      | Resolved mountpoint \<Rightarrow>
          repoint o' mountpoint (upd_session o' (\<lambda>s. s\<lparr>ss_dynamic := (requested = ''NEAREST'')\<rparr>) u))"

definition handle_datagram :: "udp_env \<Rightarrow> real \<Rightarrow> bytes \<Rightarrow> addr \<Rightarrow> udp_server \<Rightarrow> py_error option \<times> udp_server" where
  "handle_datagram E now data a u =
     (case ue_decode E data of
        None \<Rightarrow> (None, u)
      | Some d \<Rightarrow>
          (case dg_body d of
             Hello token requested position \<Rightarrow> (None, spawn (JobHello token requested position a) u)
           | body \<Rightarrow>
               (case map_of (us_sessions u) (dg_session_id d) of
                  None \<Rightarrow> (None, u)
                | Some o' \<Rightarrow>
                    (let u = upd_session o' (\<lambda>s. s\<lparr>ss_addr := a, ss_expiry := now + ue_session_ttl E\<rparr>) u in
                     case body of
                       KeepAlive position \<Rightarrow> on_keepalive o' position u
                     | SwitchMountpoint requested position \<Rightarrow> (None, spawn (JobSwitch o' requested position) u)
                     | Bye \<Rightarrow> (None, spawn (JobTeardown o') u)
                     | _ \<Rightarrow> (None, u)))))"

fun run_job :: "udp_env \<Rightarrow> real \<Rightarrow> int \<Rightarrow> session_id \<Rightarrow> udp_job \<Rightarrow> udp_server \<Rightarrow> udp_server" where
  "run_job E now wall sid (JobHello token requested position a) u = on_hello E now wall sid token requested position a u"
| "run_job E now wall sid (JobSwitch o' requested position) u = on_switch o' requested position u"
| "run_job E now wall sid (JobTeardown o') u = teardown None o' u"
| "run_job E now wall sid (JobEvict o' code message) u = evict o' code message u"

section \<open>The egress task\<close>

definition finish_task :: "nat \<Rightarrow> udp_server \<Rightarrow> udp_server" where
  "finish_task k u = upd_task k (\<lambda>t. t\<lparr>et_state := TaskDone\<rparr>) u"

text \<open>
  One turn of task \<open>k\<close>: its first run subscribes (or reports the mountpoint unavailable and tears the
  session down); later turns take what \<open>sub.get()\<close> yields. A cancelled task never starts, or leaves
  its subscription.
\<close>

definition egress_turn :: "udp_env \<Rightarrow> int \<Rightarrow> nat \<Rightarrow> udp_server \<Rightarrow> udp_server" where
  "egress_turn E timestamp_ms k u =
     (let t = us_tasks u k; o' = et_session t; s = us_objects u o' in
      case et_state t of
        TaskNew \<Rightarrow>
          if et_cancelled t then finish_task k u
          else (let mountpoint = ss_mountpoint s in
                case Caster.subscribe mountpoint (us_caster u) of
                  Inl _ \<Rightarrow>
                    finish_task k (teardown (Some k) o'
                      (send_error (ss_addr s) MOUNTPOINT_UNAVAILABLE (Quoting ''Mountpoint '' mountpoint '' unavailable.'') u))
                | Inr tr \<Rightarrow>
                    (case metered_subscribe mountpoint tr (us_caster u) of
                       (sub, c) \<Rightarrow>
                         upd_task k (\<lambda>t. t\<lparr>et_state := TaskStreaming mountpoint tr sub\<rparr>) (u\<lparr>us_caster := c\<rparr>)))
      | TaskStreaming mountpoint tr sub \<Rightarrow>
          if et_cancelled t
          then finish_task k (upd_caster (\<lambda>c. leave_subscription tr sub (upd_transport tr (upd_sub sub sub_get_cancelled) c)) u)
          else (case tq_get sub (cs_store (us_caster u) tr) of
                  (outcome, tq) \<Rightarrow>
                    (let u = upd_caster (upd_transport tr (\<lambda>_. tq)) u in
                     case outcome of
                       Blocked \<Rightarrow> u
                     | Delivered frame \<Rightarrow>
                         if ss_task s \<noteq> Some k then finish_task k (upd_caster (leave_subscription tr sub) u)
                         else send_frame E timestamp_ms o' frame u
                     | _ \<Rightarrow> finish_task k (upd_caster (leave_subscription tr sub) u)))
      | TaskDone \<Rightarrow> u)"

section \<open>Reaper and stop\<close>

definition stale_sessions :: "real \<Rightarrow> udp_server \<Rightarrow> nat list" where
  "stale_sessions now u = filter (\<lambda>o'. ss_expiry (us_objects u o') < now) (map snd (us_sessions u))"

definition udp_reap :: "real \<Rightarrow> udp_server \<Rightarrow> udp_server" where
  "udp_reap now u =
     (let stale = stale_sessions now u; u = fold (teardown None) stale u in
      if stale = [] then u
      else log_udp [MInc ''rtcm_udp_sessions_reaped_total'' [] (int (length stale))] u)"

definition udp_stop :: "udp_server \<Rightarrow> udp_server" where
  "udp_stop u = (fold (teardown None) (map snd (us_sessions u)) u)\<lparr>us_jobs := [], us_open := False\<rparr>"

definition new_udp_server :: "caster \<Rightarrow> udp_server" where
  "new_udp_server c =
     \<lparr>us_open = True,
      us_objects = (\<lambda>_. \<lparr>ss_session_id = 0, ss_mountpoint = [], ss_addr = ([], 0), ss_expiry = 0, ss_scope = [],
                         ss_dynamic = False, ss_seq = 0, ss_task = None\<rparr>),
      us_next_object = 0, us_sessions = [],
      us_tasks = (\<lambda>_. \<lparr>et_session = 0, et_state = TaskDone, et_cancelled = False\<rparr>), us_next_task = 0,
      us_jobs = [], us_cache = [], us_sent = [], us_log = [], us_caster = c\<rparr>"

section \<open>The invariant\<close>

definition granted :: "udp_env \<Rightarrow> string \<Rightarrow> bool" where
  "granted E scope \<longleftrightarrow>
     (\<exists>wall token c. verify_session_token (ue_jwt E) wall token (ue_token_secret E) = Some c \<and>
        token_mountpoint c = Some scope)"

definition sessions_ok :: "udp_server \<Rightarrow> bool" where
  "sessions_ok u \<longleftrightarrow> dict_ok (us_sessions u) \<and>
     (\<forall>i k. map_of (us_sessions u) i = Some k \<longrightarrow> k < us_next_object u \<and> ss_session_id (us_objects u k) = i)"

definition scopes_ok :: "udp_env \<Rightarrow> udp_server \<Rightarrow> bool" where
  "scopes_ok E u \<longleftrightarrow> (\<forall>k < us_next_object u.
     granted E (ss_scope (us_objects u k)) \<and> scope_allows (ss_scope (us_objects u k)) (ss_mountpoint (us_objects u k)))"

definition gauge_ok :: "udp_server \<Rightarrow> bool" where
  "gauge_ok u \<longleftrightarrow> counter_value (us_log u) ''rtcm_udp_sessions'' [] = int (length (us_sessions u))"

definition own_task :: "udp_server \<Rightarrow> nat \<Rightarrow> nat \<Rightarrow> bool" where
  "own_task u k j \<longleftrightarrow> j < us_next_task u \<and> et_session (us_tasks u j) = k \<and>
     (\<forall>m t i. et_state (us_tasks u j) = TaskStreaming m t i \<longrightarrow> m = ss_mountpoint (us_objects u k))"

fun job_object :: "udp_job \<Rightarrow> nat option" where
  "job_object (JobHello _ _ _ _) = None"
| "job_object (JobSwitch k _ _) = Some k"
| "job_object (JobTeardown k) = Some k"
| "job_object (JobEvict k _ _) = Some k"

definition tasks_ok :: "udp_server \<Rightarrow> bool" where
  "tasks_ok u \<longleftrightarrow>
     (\<forall>k < us_next_object u. \<forall>j. ss_task (us_objects u k) = Some j \<longrightarrow> own_task u k j) \<and>
     (\<forall>j < us_next_task u. et_session (us_tasks u j) < us_next_object u) \<and>
     (\<forall>j \<in> set (us_jobs u). \<forall>k. job_object j = Some k \<longrightarrow> k < us_next_object u)"

definition cache_ok :: "udp_env \<Rightarrow> udp_server \<Rightarrow> bool" where
  "cache_ok E u \<longleftrightarrow> (\<forall>m f p g. map_of (us_cache u) m = Some (f, p, g) \<longrightarrow>
     (\<exists>ts. p = ue_encode_correction E ts m (snd f)) \<and> g = signature_of E p)"

definition proper_correction :: "udp_env \<Rightarrow> udp_server \<Rightarrow> session_id \<Rightarrow> bytes \<Rightarrow> bytes \<Rightarrow> bool" where
  "proper_correction E u sid p g \<longleftrightarrow>
     (\<exists>k < us_next_object u. \<exists>ts m x. ss_session_id (us_objects u k) = sid \<and> granted E (ss_scope (us_objects u k)) \<and>
        scope_allows (ss_scope (us_objects u k)) m \<and> p = ue_encode_correction E ts m x \<and> g = signature_of E p)"

definition sent_ok :: "udp_env \<Rightarrow> udp_server \<Rightarrow> bool" where
  "sent_ok E u \<longleftrightarrow> (\<forall>a d p g. (a, d) \<in> set (us_sent u) \<longrightarrow> dg_body d = Correction p g \<longrightarrow>
     proper_correction E u (dg_session_id d) p g)"

definition udp_ok :: "udp_env \<Rightarrow> udp_server \<Rightarrow> bool" where
  "udp_ok E u \<longleftrightarrow> sessions_ok u \<and> scopes_ok E u \<and> gauge_ok u \<and> tasks_ok u \<and> cache_ok E u \<and> sent_ok E u"

named_theorems udp_oks \<open>the parts of the server's invariant\<close>

lemmas [udp_oks] = udp_ok_def sessions_ok_def scopes_ok_def gauge_ok_def tasks_ok_def own_task_def
  cache_ok_def sent_ok_def proper_correction_def

lemma udp_ok_new: "udp_ok E (new_udp_server c)"
  by (simp add: udp_oks new_udp_server_def)

text \<open>Pieces of state the invariant does not mention.\<close>

lemma udp_ok_caster [simp]: "udp_ok E (u\<lparr>us_caster := c\<rparr>) \<longleftrightarrow> udp_ok E u"
  by (simp add: udp_oks)

lemma udp_ok_upd_caster [simp]: "udp_ok E (upd_caster f u) \<longleftrightarrow> udp_ok E u"
  by (simp add: upd_caster_def)

lemma udp_ok_log:
  "counter_value ops ''rtcm_udp_sessions'' [] = 0 \<Longrightarrow> udp_ok E u \<Longrightarrow> udp_ok E (log_udp ops u)"
  by (simp add: udp_oks log_udp_def)

lemma udp_ok_send:
  "(\<And>p g. dg_body d \<noteq> Correction p g) \<Longrightarrow> udp_ok E u \<Longrightarrow> udp_ok E (send_datagram a d u)"
  by (auto simp: udp_oks send_datagram_def)

lemma udp_ok_send_error: "udp_ok E u \<Longrightarrow> udp_ok E (send_error a code message u)"
  unfolding send_error_def by (rule udp_ok_send) simp_all

lemma udp_ok_spawn:
  "udp_ok E u \<Longrightarrow> (\<And>k. job_object j = Some k \<Longrightarrow> k < us_next_object u) \<Longrightarrow> udp_ok E (spawn j u)"
  by (auto simp: udp_oks spawn_def)

definition quiet :: "(session \<Rightarrow> session) \<Rightarrow> bool" where
  "quiet f \<longleftrightarrow> (\<forall>s. ss_session_id (f s) = ss_session_id s \<and> ss_mountpoint (f s) = ss_mountpoint s \<and>
     ss_scope (f s) = ss_scope s \<and> ss_task (f s) = ss_task s)"

lemma upd_session_frame [simp]:
  "us_sessions (upd_session k f u) = us_sessions u" "us_next_object (upd_session k f u) = us_next_object u"
  "us_tasks (upd_session k f u) = us_tasks u" "us_next_task (upd_session k f u) = us_next_task u"
  "us_jobs (upd_session k f u) = us_jobs u" "us_cache (upd_session k f u) = us_cache u"
  "us_sent (upd_session k f u) = us_sent u" "us_log (upd_session k f u) = us_log u"
  "us_caster (upd_session k f u) = us_caster u" "us_open (upd_session k f u) = us_open u"
  "us_objects (upd_session k f u) = (us_objects u)(k := f (us_objects u k))"
  by (simp_all add: upd_session_def)

lemma udp_ok_upd_session:
  assumes ok: "udp_ok E u"
    and keep: "\<And>s. ss_session_id (f s) = ss_session_id s" "\<And>s. ss_scope (f s) = ss_scope s"
    and allows: "k < us_next_object u \<Longrightarrow> scope_allows (ss_scope (us_objects u k)) (ss_mountpoint (f (us_objects u k)))"
    and tasks: "tasks_ok (upd_session k f u)"
  shows "udp_ok E (upd_session k f u)"
proof -
  have eq: "ss_session_id (us_objects (upd_session k f u) i) = ss_session_id (us_objects u i)"
    "ss_scope (us_objects (upd_session k f u) i) = ss_scope (us_objects u i)" for i
    using keep by simp_all
  have mps: "scope_allows (ss_scope (us_objects u i)) (ss_mountpoint (us_objects (upd_session k f u) i))"
    if "i < us_next_object u" for i
    using ok that allows by (simp add: udp_ok_def scopes_ok_def)
  have "sessions_ok (upd_session k f u)" "gauge_ok (upd_session k f u)" "cache_ok E (upd_session k f u)"
    "sent_ok E (upd_session k f u)"
    using ok
    unfolding udp_ok_def sessions_ok_def gauge_ok_def cache_ok_def sent_ok_def proper_correction_def eq upd_session_frame(1-10)
    by blast+
  moreover have "scopes_ok E (upd_session k f u)"
    using ok mps unfolding udp_ok_def scopes_ok_def eq upd_session_frame(1-10) by blast
  ultimately show ?thesis using tasks by (simp add: udp_ok_def)
qed

lemma udp_ok_quiet:
  assumes "quiet f" "udp_ok E u"
  shows "udp_ok E (upd_session k f u)"
proof (rule udp_ok_upd_session [OF assms(2)])
  have eq: "ss_mountpoint (us_objects (upd_session k f u) i) = ss_mountpoint (us_objects u i)"
    "ss_task (us_objects (upd_session k f u) i) = ss_task (us_objects u i)" for i
    using assms(1) by (simp_all add: quiet_def)
  show "tasks_ok (upd_session k f u)"
    using assms(2) unfolding udp_ok_def tasks_ok_def own_task_def eq upd_session_frame(1-10) by blast
qed (use assms in \<open>auto simp: quiet_def udp_ok_def scopes_ok_def\<close>)

lemma udp_ok_no_task:
  assumes "udp_ok E u"
  shows "udp_ok E (upd_session k (\<lambda>s. s\<lparr>ss_task := None\<rparr>) u)"
proof (rule udp_ok_upd_session [OF assms])
  let ?u = "upd_session k (\<lambda>s. s\<lparr>ss_task := None\<rparr>) u"
  have eq: "ss_mountpoint (us_objects ?u i) = ss_mountpoint (us_objects u i)"
    "ss_task (us_objects ?u i) = Some j \<Longrightarrow> ss_task (us_objects u i) = Some j" for i j
    by (simp_all split: if_splits)
  show "tasks_ok ?u"
    using assms eq(2) unfolding udp_ok_def tasks_ok_def own_task_def eq(1) upd_session_frame(1-10) by blast
qed (use assms in \<open>auto simp: udp_ok_def scopes_ok_def\<close>)

lemma upd_task_frame [simp]:
  "us_sessions (upd_task j f u) = us_sessions u" "us_next_object (upd_task j f u) = us_next_object u"
  "us_objects (upd_task j f u) = us_objects u" "us_next_task (upd_task j f u) = us_next_task u"
  "us_jobs (upd_task j f u) = us_jobs u" "us_cache (upd_task j f u) = us_cache u"
  "us_sent (upd_task j f u) = us_sent u" "us_log (upd_task j f u) = us_log u"
  "us_caster (upd_task j f u) = us_caster u" "us_open (upd_task j f u) = us_open u"
  "us_tasks (upd_task j f u) = (us_tasks u)(j := f (us_tasks u j))"
  by (simp_all add: upd_task_def)

text \<open>A task may move to any state but streaming from a mountpoint that is not its session's.\<close>

lemma udp_ok_upd_task:
  assumes ok: "udp_ok E u" and keep: "\<And>t. et_session (f t) = et_session t"
    and stream: "\<And>m t i. et_state (f (us_tasks u j)) = TaskStreaming m t i \<Longrightarrow>
      et_state (us_tasks u j) = TaskStreaming m t i \<or>
      m = ss_mountpoint (us_objects u (et_session (us_tasks u j)))"
  shows "udp_ok E (upd_task j f u)"
proof -
  have eq: "et_session (us_tasks (upd_task j f u) i) = et_session (us_tasks u i)" for i
    using keep by simp
  have "own_task (upd_task j f u) k i" if "own_task u k i" for k i
    using that stream unfolding own_task_def eq upd_task_frame(1-10) by auto
  then have "tasks_ok (upd_task j f u)"
    using ok unfolding udp_ok_def tasks_ok_def eq upd_task_frame(1-10) by blast
  then show ?thesis
    using ok unfolding udp_ok_def sessions_ok_def scopes_ok_def gauge_ok_def cache_ok_def sent_ok_def
      proper_correction_def upd_task_frame(1-10) by blast
qed

lemma udp_ok_cancel: "udp_ok E u \<Longrightarrow> udp_ok E (cancel_task t u)"
  by (auto simp: cancel_task_def intro: udp_ok_upd_task split: option.split)

lemma udp_ok_finish: "udp_ok E u \<Longrightarrow> udp_ok E (finish_task j u)"
  unfolding finish_task_def by (rule udp_ok_upd_task) simp_all

text \<open>Pointing a session at a mountpoint its scope allows and giving it a fresh task.\<close>

lemma udp_ok_start_egress:
  assumes "udp_ok E u" "k < us_next_object u" "scope_allows (ss_scope (us_objects u k)) m"
  shows "udp_ok E (start_egress k (upd_session k (\<lambda>s. s\<lparr>ss_mountpoint := m\<rparr>) u))"
proof -
  let ?n = "us_next_task u"
  let ?v = "u\<lparr>us_tasks := (us_tasks u)(?n := \<lparr>et_session = k, et_state = TaskNew, et_cancelled = False\<rparr>), us_next_task := Suc ?n\<rparr>"
  let ?f = "\<lambda>s. s\<lparr>ss_mountpoint := m, ss_task := Some ?n\<rparr>"
  have eq: "start_egress k (upd_session k (\<lambda>s. s\<lparr>ss_mountpoint := m\<rparr>) u) = upd_session k ?f ?v"
    by (simp add: start_egress_def upd_session_def)
  have old: "tasks_ok u" using assms(1) by (simp add: udp_ok_def)
  have v: "udp_ok E ?v"
    using assms(1,2) unfolding udp_oks by (auto simp: less_Suc_eq)
  have other: "own_task (upd_session k ?f ?v) i j" if "i < us_next_object u" "i \<noteq> k" "ss_task (us_objects u i) = Some j" for i j
    using old that unfolding tasks_ok_def own_task_def by (auto simp: less_Suc_eq)
  have self: "own_task (upd_session k ?f ?v) k ?n" by (simp add: own_task_def)
  have "tasks_ok (upd_session k ?f ?v)"
    unfolding tasks_ok_def
  proof (intro conjI allI impI ballI)
    fix i j assume "i < us_next_object (upd_session k ?f ?v)" "ss_task (us_objects (upd_session k ?f ?v) i) = Some j"
    then show "own_task (upd_session k ?f ?v) i j"
      using other self by (auto split: if_splits)
  qed (use old assms(2) in \<open>auto simp: tasks_ok_def less_Suc_eq\<close>)
  then have "udp_ok E (upd_session k ?f ?v)"
    using assms(3) by (intro udp_ok_upd_session [OF v]) simp_all
  then show ?thesis by (simp only: eq)
qed

lemma udp_ok_drop_session:
  assumes "udp_ok E u" "map_of (us_sessions u) i \<noteq> None"
  shows "udp_ok E (log_udp [MInc ''rtcm_udp_sessions'' [] (- 1)] (u\<lparr>us_sessions := AList.delete i (us_sessions u)\<rparr>))"
proof -
  have d: "dict_ok (us_sessions u)" using assms(1) by (simp add: udp_ok_def sessions_ok_def)
  have "0 < length (us_sessions u)" using assms(2) by (cases "us_sessions u") auto
  with dict_pop_length [OF d assms(2)]
  have "int (length (AList.delete i (us_sessions u))) = int (length (us_sessions u)) - 1"
    by (simp add: of_nat_diff Suc_leI)
  with assms(1) show ?thesis
    unfolding udp_oks by (auto simp: log_udp_def dict_simps)
qed

lemma udp_ok_teardown:
  assumes "udp_ok E u"
  shows "udp_ok E (teardown current k u)"
  using assms
  by (simp add: teardown_def Let_def udp_ok_cancel udp_ok_no_task udp_ok_drop_session)

lemma udp_ok_evict: "udp_ok E u \<Longrightarrow> udp_ok E (evict k code message u)"
  by (simp add: evict_def udp_ok_teardown udp_ok_send_error)

lemma udp_ok_repoint:
  "udp_ok E u \<Longrightarrow> k < us_next_object u \<Longrightarrow> scope_allows (ss_scope (us_objects u k)) m \<Longrightarrow> udp_ok E (repoint k m u)"
  by (simp add: repoint_def Let_def udp_ok_cancel udp_ok_start_egress)

lemma resolve_allows: "resolve_mountpoint scope requested position reg = Resolved m \<Longrightarrow> scope_allows scope m"
  by (auto simp: resolve_mountpoint_def scope_allows_def split: if_splits option.splits prod.splits sum.splits)

lemma udp_ok_add_session:
  assumes "udp_ok E u" "map_of (us_sessions u) (ss_session_id s) = None" "granted E (ss_scope s)"
    "scope_allows (ss_scope s) (ss_mountpoint s)" "ss_task s = None"
  shows "udp_ok E (log_udp [MInc ''rtcm_udp_hello_total'' [''accepted''] 1, MInc ''rtcm_udp_sessions'' [] 1]
    (u\<lparr>us_objects := (us_objects u)(us_next_object u := s), us_next_object := Suc (us_next_object u),
       us_sessions := AList.update (ss_session_id s) (us_next_object u) (us_sessions u)\<rparr>))"
    (is "udp_ok E ?u")
proof -
  have old: "i < us_next_object u \<Longrightarrow> us_objects ?u i = us_objects u i" for i by (simp add: log_udp_def)
  have new: "us_objects ?u (us_next_object u) = s" by (simp add: log_udp_def)
  have nx: "us_next_object ?u = Suc (us_next_object u)" by (simp add: log_udp_def)
  have "sessions_ok ?u"
    using assms(1,2) by (auto simp: udp_ok_def sessions_ok_def log_udp_def dict_simps less_SucI split: if_splits)
       (metis less_irrefl)+
  moreover have "scopes_ok E ?u"
    using assms(1,3,4) old new by (auto simp: udp_ok_def scopes_ok_def nx less_Suc_eq)
  moreover have "gauge_ok ?u"
    using assms(1,2) by (simp add: udp_ok_def gauge_ok_def log_udp_def dict_set_length)
  moreover have "tasks_ok ?u"
  proof -
    have t: "tasks_ok u" using assms(1) by (simp add: udp_ok_def)
    have "own_task ?u k j" if "k < us_next_object ?u" "ss_task (us_objects ?u k) = Some j" for k j
    proof (cases "k = us_next_object u")
      case True
      with that new assms(5) show ?thesis by simp
    next
      case False
      with that nx have "k < us_next_object u" by simp
      with that t old [OF this] show ?thesis by (simp add: tasks_ok_def own_task_def) (simp add: log_udp_def)
    qed
    with t show ?thesis by (auto simp: tasks_ok_def log_udp_def less_SucI)
  qed
  moreover have "cache_ok E ?u" using assms(1) by (simp add: udp_ok_def cache_ok_def log_udp_def)
  moreover have "sent_ok E ?u"
  proof -
    have "proper_correction E ?u i p g" if "proper_correction E u i p g" for i p g
      using that old nx unfolding proper_correction_def by (metis less_SucI)
    with assms(1) show ?thesis by (simp add: udp_ok_def sent_ok_def) (simp add: log_udp_def)
  qed
  ultimately show ?thesis by (simp add: udp_ok_def)
qed

lemma sign_frame_frame [simp]:
  "us_objects (snd (sign_frame E ts m f u)) = us_objects u"
  "us_next_object (snd (sign_frame E ts m f u)) = us_next_object u"
  "us_sent (snd (sign_frame E ts m f u)) = us_sent u" "us_open (snd (sign_frame E ts m f u)) = us_open u"
  by (simp_all add: sign_frame_def Let_def log_udp_def)

lemma udp_ok_sign: "udp_ok E u \<Longrightarrow> udp_ok E (snd (sign_frame E ts m f u))"
proof -
  have set_cache: "udp_ok E (v\<lparr>us_cache := AList.update m (f, p, signature_of E p) (us_cache v)\<rparr>)"
    if "udp_ok E v" "p = ue_encode_correction E ts m (snd f)" for v p
  proof -
    have "cache_ok E (v\<lparr>us_cache := AList.update m (f, p, signature_of E p) (us_cache v)\<rparr>)"
      using that by (auto simp: udp_ok_def cache_ok_def dict_simps simp del: map_of_eq_Some_iff)
    with that(1) show ?thesis
      by (simp add: udp_ok_def sessions_ok_def scopes_ok_def gauge_ok_def tasks_ok_def own_task_def sent_ok_def proper_correction_def)
  qed
  assume "udp_ok E u"
  then show ?thesis
    using set_cache [of u] set_cache [OF udp_ok_log [of "[MInc ''rtcm_udp_frames_signed_total'' [m] 1]" E u]]
    by (simp add: sign_frame_def Let_def)
qed

lemma sign_frame_result:
  assumes "udp_ok E u"
  shows "\<exists>t x. fst (fst (sign_frame E ts m f u)) = ue_encode_correction E t m x \<and>
    snd (fst (sign_frame E ts m f u)) = signature_of E (fst (fst (sign_frame E ts m f u)))"
proof (cases "map_of (us_cache u) m \<noteq> None \<and> fst (fst (the (map_of (us_cache u) m))) = fst f")
  case True
  then obtain f' p g where c: "map_of (us_cache u) m = Some (f', p, g)" by auto
  with assms have "(\<exists>t. p = ue_encode_correction E t m (snd f')) \<and> g = signature_of E p"
    unfolding udp_ok_def cache_ok_def by blast
  with True c show ?thesis by (auto simp: sign_frame_def Let_def)
next
  case False
  then show ?thesis by (auto simp: sign_frame_def Let_def)
qed

lemma quiet_next_seq: "quiet (\<lambda>s. snd (next_seq s))"
  by (simp add: quiet_def next_seq_def)

lemma udp_ok_send_correction:
  assumes "udp_ok E u" "proper_correction E u (dg_session_id d) p g" "dg_body d = Correction p g"
  shows "udp_ok E (send_datagram a d u)"
proof -
  have "sent_ok E (send_datagram a d u)"
    using assms unfolding udp_ok_def sent_ok_def proper_correction_def send_datagram_def by auto
  with assms(1) show ?thesis
    by (simp add: udp_ok_def sessions_ok_def scopes_ok_def gauge_ok_def tasks_ok_def own_task_def cache_ok_def)
       (simp add: send_datagram_def)
qed

lemma send_frame_eq:
  "send_frame E ts k f u =
     (let s = us_objects u k; m = ss_mountpoint s; (sc, v) = sign_frame E ts m f u;
          v = upd_session k (\<lambda>s. snd (next_seq s)) v;
          d = \<lparr>dg_version = PROTOCOL_VERSION, dg_session_id = ss_session_id s, dg_seq = ss_seq s,
               dg_body = Correction (fst sc) (snd sc)\<rparr>;
          size = length (ue_encode E d) in
      if ue_max_datagram E < size then log_udp [MInc ''rtcm_udp_oversize_dropped_total'' [m] 1] v
      else log_udp [MInc ''rtcm_udp_datagrams_sent_total'' [m] 1, MInc ''rtcm_udp_bytes_sent_total'' [m] (int size)]
             (send_datagram (ss_addr s) d v))"
  by (cases "sign_frame E ts (ss_mountpoint (us_objects u k)) f u")
     (auto simp: send_frame_def next_seq_def upd_session_def Let_def case_prod_beta dest!: arg_cong [of _ _ snd])

lemma udp_ok_send_frame:
  assumes ok: "udp_ok E u" and k: "k < us_next_object u"
  shows "udp_ok E (send_frame E ts k f u)"
proof -
  let ?s = "us_objects u k" and ?m = "ss_mountpoint (us_objects u k)"
  obtain p g v where sg: "sign_frame E ts ?m f u = ((p, g), v)" by (metis prod.exhaust)
  let ?v = "upd_session k (\<lambda>s. snd (next_seq s)) v"
  have v: "udp_ok E ?v"
    using udp_ok_quiet [OF quiet_next_seq udp_ok_sign [OF ok, of ts ?m f]] sg by simp
  have same: "us_objects v = us_objects u" "us_next_object v = us_next_object u"
    using sign_frame_frame(1,2) [of E ts ?m f u] sg by simp_all
  obtain t x where "p = ue_encode_correction E t ?m x" "g = signature_of E p"
    using sign_frame_result [OF ok, of ts ?m f] sg by auto
  then have "proper_correction E ?v (ss_session_id ?s) p g"
    using ok k unfolding proper_correction_def udp_ok_def scopes_ok_def
    by (intro exI [of _ k]) (auto simp: same next_seq_def)
  then have "udp_ok E (send_datagram (ss_addr ?s) \<lparr>dg_version = PROTOCOL_VERSION, dg_session_id = ss_session_id ?s,
      dg_seq = ss_seq ?s, dg_body = Correction p g\<rparr> ?v)"
    by (intro udp_ok_send_correction [OF v]) simp_all
  with v show ?thesis
    by (simp add: send_frame_eq sg udp_ok_log Let_def)
qed

lemma udp_ok_hello:
  assumes "udp_ok E u" "map_of (us_sessions u) sid = None"
  shows "udp_ok E (on_hello E now wall sid token requested position a u)"
proof (cases "verify_session_token (ue_jwt E) wall token (ue_token_secret E)")
  case None
  with assms(1) show ?thesis by (simp add: on_hello_def udp_ok_send_error udp_ok_log)
next
  case (Some c)
  note c = Some
  show ?thesis
  proof (cases "token_mountpoint c")
    case None
    with c assms(1) show ?thesis by (simp add: on_hello_def)
  next
    case (Some scope)
    with c have g: "granted E scope" by (auto simp: granted_def)
    show ?thesis
    proof (cases "resolve_mountpoint scope requested position (us_registry u)")
      case (Resolved m)
      let ?k = "us_next_object u"
      let ?s = "\<lparr>ss_session_id = sid, ss_mountpoint = m, ss_addr = a, ss_expiry = now + ue_session_ttl E,
        ss_scope = scope, ss_dynamic = (requested = ''NEAREST''), ss_seq = 0, ss_task = None\<rparr>"
      let ?u = "log_udp [MInc ''rtcm_udp_hello_total'' [''accepted''] 1, MInc ''rtcm_udp_sessions'' [] 1]
        (u\<lparr>us_objects := (us_objects u)(?k := ?s), us_next_object := Suc ?k, us_sessions := AList.update sid ?k (us_sessions u)\<rparr>)"
      let ?v = "send_datagram a (hello_ack E sid m) ?u"
      have u: "udp_ok E ?v"
        using udp_ok_add_session [OF assms(1), of ?s] assms(2) g resolve_allows [OF Resolved]
        by (intro udp_ok_send) (simp_all add: hello_ack_def)
      have obj: "us_objects ?v ?k = ?s" "?k < us_next_object ?v"
        by (simp_all add: log_udp_def send_datagram_def)
      then have "upd_session ?k (\<lambda>s. s\<lparr>ss_mountpoint := m\<rparr>) ?v = ?v"
        unfolding upd_session_def by (simp add: fun_upd_idem)
      with udp_ok_start_egress [OF u obj(2), of m] obj(1) resolve_allows [OF Resolved]
      have "udp_ok E (start_egress ?k ?v)" by simp
      with c Some Resolved show ?thesis by (simp add: on_hello_def Let_def)
    qed (use assms(1) c Some in \<open>simp_all add: on_hello_def udp_ok_send_error udp_ok_log\<close>)
  qed
qed

lemma upd_caster_frame [simp]:
  "us_next_object (upd_caster f u) = us_next_object u" "us_objects (upd_caster f u) = us_objects u"
  "us_caster (upd_caster f u) = f (us_caster u)" "us_sessions (upd_caster f u) = us_sessions u"
  "us_tasks (upd_caster f u) = us_tasks u"
  by (simp_all add: upd_caster_def)

lemma udp_ok_keepalive:
  "udp_ok E u \<Longrightarrow> k < us_next_object u \<Longrightarrow> udp_ok E (snd (on_keepalive k position u))"
  by (auto simp: on_keepalive_def Let_def intro!: udp_ok_spawn udp_ok_repoint split: option.split sum.split prod.split)

lemma udp_ok_switch: "udp_ok E u \<Longrightarrow> k < us_next_object u \<Longrightarrow> udp_ok E (on_switch k requested position u)"
proof -
  assume ok: "udp_ok E u" and k: "k < us_next_object u"
  have q: "udp_ok E (upd_session k (\<lambda>s. s\<lparr>ss_dynamic := b\<rparr>) u)" for b
    by (rule udp_ok_quiet [OF _ ok]) (simp add: quiet_def)
  show ?thesis
    using q k ok
    by (auto simp: on_switch_def Let_def udp_ok_send_error intro!: udp_ok_repoint dest: resolve_allows split: resolution.split)
qed

lemma udp_ok_handle: "udp_ok E u \<Longrightarrow> udp_ok E (snd (handle_datagram E now data a u))"
proof -
  assume ok: "udp_ok E u"
  have lt: "k < us_next_object u" if "map_of (us_sessions u) i = Some k" for i k
    using ok that by (auto simp: udp_ok_def sessions_ok_def simp del: map_of_eq_Some_iff)
  have q: "udp_ok E (upd_session k (\<lambda>s. s\<lparr>ss_addr := a, ss_expiry := t\<rparr>) u)" for k t
    by (rule udp_ok_quiet [OF _ ok]) (simp add: quiet_def)
  show ?thesis
    using ok q lt
    by (auto simp: handle_datagram_def Let_def intro!: udp_ok_spawn udp_ok_keepalive
        split: option.split dg_body.split simp del: map_of_eq_Some_iff)
qed

lemma udp_ok_job:
  "udp_ok E u \<Longrightarrow> map_of (us_sessions u) sid = None \<Longrightarrow> (\<And>k. job_object j = Some k \<Longrightarrow> k < us_next_object u) \<Longrightarrow>
     udp_ok E (run_job E now wall sid j u)"
  by (cases j) (simp_all add: udp_ok_hello udp_ok_switch udp_ok_teardown udp_ok_evict)

lemma udp_ok_egress:
  assumes ok: "udp_ok E u" and j: "j < us_next_task u"
  shows "udp_ok E (egress_turn E ts j u)"
proof -
  have k: "et_session (us_tasks u j) < us_next_object u" using ok j by (simp add: udp_ok_def tasks_ok_def)
  have start: "udp_ok E (upd_task j (\<lambda>t. t\<lparr>et_state := TaskStreaming (ss_mountpoint (us_objects u (et_session (us_tasks u j)))) tr sub\<rparr>)
      (u\<lparr>us_caster := c\<rparr>))" for tr sub c
    by (rule udp_ok_upd_task) (use ok in auto)
  have send: "udp_ok E (send_frame E ts (et_session (us_tasks u j)) f (upd_caster g u))" for f g
    using ok k by (intro udp_ok_send_frame) simp_all
  show ?thesis
    using ok start send
    by (auto simp: egress_turn_def Let_def udp_ok_finish udp_ok_teardown udp_ok_send_error
        split: task_state.split sum.split prod.split get_outcome.split)
qed

lemma udp_ok_fold_teardown: "udp_ok E u \<Longrightarrow> udp_ok E (fold (teardown current) ks u)"
  by (induction ks arbitrary: u) (simp_all add: udp_ok_teardown)

lemma udp_ok_reap: "udp_ok E u \<Longrightarrow> udp_ok E (udp_reap now u)"
  by (simp add: udp_reap_def Let_def udp_ok_fold_teardown udp_ok_log)

lemma udp_ok_stop: "udp_ok E u \<Longrightarrow> udp_ok E (udp_stop u)"
proof -
  assume "udp_ok E u"
  then have "udp_ok E (fold (teardown None) (map snd (us_sessions u)) u)" by (rule udp_ok_fold_teardown)
  then show ?thesis unfolding udp_stop_def udp_oks by auto
qed

section \<open>Every interleaving\<close>

inductive udp_step :: "udp_env \<Rightarrow> quality_config \<Rightarrow> udp_server \<Rightarrow> udp_server \<Rightarrow> bool" for E cfg where
  datagram: "udp_step E cfg u (snd (handle_datagram E now data a u))"
| job: "us_jobs u = pre @ j # post \<Longrightarrow> map_of (us_sessions u) sid = None \<Longrightarrow>
    udp_step E cfg u (run_job E now wall sid j (u\<lparr>us_jobs := pre @ post\<rparr>))"
| egress: "j < us_next_task u \<Longrightarrow> udp_step E cfg u (egress_turn E ts j u)"
| reap: "udp_step E cfg u (udp_reap now u)"
| stop: "udp_step E cfg u (udp_stop u)"
| caster: "caster_step cfg (us_caster u) c \<Longrightarrow> udp_step E cfg u (u\<lparr>us_caster := c\<rparr>)"

inductive_cases udp_step_cases: "udp_step E cfg u v"

lemma udp_step_ok: "udp_ok E u \<Longrightarrow> udp_step E cfg u v \<Longrightarrow> udp_ok E v"
proof (erule udp_step_cases)
  fix pre j post sid now wall
  assume ok: "udp_ok E u" and jobs: "us_jobs u = pre @ j # post" and fresh: "map_of (us_sessions u) sid = None"
    and v: "v = run_job E now wall sid j (u\<lparr>us_jobs := pre @ post\<rparr>)"
  have "udp_ok E (u\<lparr>us_jobs := pre @ post\<rparr>)"
    using ok jobs unfolding udp_oks by auto
  moreover have "k < us_next_object u" if "job_object j = Some k" for k
    using ok jobs that by (simp add: udp_ok_def tasks_ok_def)
  ultimately show "udp_ok E v" unfolding v using fresh by (intro udp_ok_job) auto
qed (simp_all add: udp_ok_handle udp_ok_egress udp_ok_reap udp_ok_stop)

interpretation udp_sys: invariant_system "\<lambda>u. \<exists>c. u = new_udp_server c" "udp_step E cfg" "udp_ok E" for E cfg
  by unfold_locales (auto intro: udp_step_ok udp_ok_new)

section \<open>What the operations leave\<close>

lemma set_position_registry [simp]: "cs_mountpoints (set_rover_position m i x y c) = cs_mountpoints c"
  by (simp add: set_rover_position_def)

lemma send_datagram_frame [simp]:
  "us_sessions (send_datagram a d u) = us_sessions u" "us_objects (send_datagram a d u) = us_objects u"
  "us_caster (send_datagram a d u) = us_caster u" "us_jobs (send_datagram a d u) = us_jobs u"
  "us_tasks (send_datagram a d u) = us_tasks u" "us_next_object (send_datagram a d u) = us_next_object u"
  by (simp_all add: send_datagram_def)

lemma send_error_frame [simp]:
  "us_sessions (send_error a c m u) = us_sessions u" "us_objects (send_error a c m u) = us_objects u"
  by (simp_all add: send_error_def)

lemma cancel_task_frame [simp]:
  "us_sessions (cancel_task t u) = us_sessions u" "us_objects (cancel_task t u) = us_objects u"
  "us_caster (cancel_task t u) = us_caster u" "us_jobs (cancel_task t u) = us_jobs u"
  by (simp_all add: cancel_task_def split: option.split)

lemma log_udp_frame [simp]:
  "us_sessions (log_udp ops u) = us_sessions u" "us_objects (log_udp ops u) = us_objects u"
  "us_caster (log_udp ops u) = us_caster u" "us_sent (log_udp ops u) = us_sent u"
  "us_tasks (log_udp ops u) = us_tasks u" "us_next_object (log_udp ops u) = us_next_object u"
  by (simp_all add: log_udp_def)

lemma start_egress_frame [simp]:
  "us_sessions (start_egress k u) = us_sessions u" "us_caster (start_egress k u) = us_caster u"
  "us_objects (start_egress k u) = (us_objects u)(k := (us_objects u k)\<lparr>ss_task := Some (us_next_task u)\<rparr>)"
  by (simp_all add: start_egress_def)

lemma repoint_frame [simp]:
  "us_sessions (repoint k m u) = us_sessions u" "us_caster (repoint k m u) = us_caster u"
  "ss_mountpoint (us_objects (repoint k m u) k) = m"
  "ss_session_id (us_objects (repoint k m u) i) = ss_session_id (us_objects u i)"
  by (auto simp: repoint_def Let_def)

lemma teardown_sessions: "us_sessions (teardown c k u) = AList.delete (ss_session_id (us_objects u k)) (us_sessions u)"
  by (simp add: teardown_def Let_def upd_caster_def)

lemma teardown_object:
  "ss_session_id (us_objects (teardown c k u) i) = ss_session_id (us_objects u i)"
  "ss_expiry (us_objects (teardown c k u) i) = ss_expiry (us_objects u i)"
  by (simp_all add: teardown_def Let_def)

lemma delete_as_filter: "AList.delete k d = filter (\<lambda>e. fst e \<noteq> k) d"
  by (induction d) auto

lemma fold_teardown_sessions:
  "us_sessions (fold (teardown c) ks u) =
     filter (\<lambda>e. fst e \<notin> (\<lambda>k. ss_session_id (us_objects u k)) ` set ks) (us_sessions u)"
proof (induction ks arbitrary: u)
  case (Cons k ks)
  show ?case
    by (auto simp: Cons.IH teardown_sessions teardown_object delete_as_filter intro: filter_cong)
qed simp

lemma fold_teardown_expiry:
  "ss_expiry (us_objects (fold (teardown c) ks u) i) = ss_expiry (us_objects u i)"
  by (induction ks arbitrary: u) (simp_all add: teardown_object)

section \<open>Properties\<close>

text \<open>
  C3: authorization and authenticity of corrections. In every state reachable by any interleaving of
  datagrams, spawned coroutines, egress tasks, the reaper and the caster, every correction datagram
  ever sent belongs to a session whose token was verified, carries a correction labelled with a
  mountpoint that token authorizes, and is signed over exactly the payload bytes it carries (or
  carries the empty signature when signing is off).
\<close>
theorem corrections_authorized_and_signed:
  assumes "reach (\<lambda>u. \<exists>c. u = new_udp_server c) (udp_step E cfg) u"
    and "(a, d) \<in> set (us_sent u)" "dg_body d = Correction payload signature"
  shows "\<exists>k ts m x. ss_session_id (us_objects u k) = dg_session_id d \<and> granted E (ss_scope (us_objects u k)) \<and>
    scope_allows (ss_scope (us_objects u k)) m \<and> payload = ue_encode_correction E ts m x \<and>
    signature = (if signing E then ue_sign E payload else [])"
  using udp_sys.reach_inv [OF assms(1)] assms(2,3)
  unfolding udp_ok_def sent_ok_def proper_correction_def signature_of_def by blast

text \<open>
  C23: every live session was opened with a verified token, and the mountpoint it is on now is one
  that token authorizes, whatever switches and hand-offs happened; its egress task, when it
  streams, is subscribed to that same mountpoint, so the label it puts on a frame is the mountpoint
  the frame was published to.
\<close>
theorem sessions_stay_in_scope:
  assumes "reach (\<lambda>u. \<exists>c. u = new_udp_server c) (udp_step E cfg) u"
    and "map_of (us_sessions u) i = Some k"
  shows "granted E (ss_scope (us_objects u k)) \<and>
    scope_allows (ss_scope (us_objects u k)) (ss_mountpoint (us_objects u k)) \<and>
    (\<forall>j m t sub. ss_task (us_objects u k) = Some j \<longrightarrow> et_state (us_tasks u j) = TaskStreaming m t sub \<longrightarrow>
       m = ss_mountpoint (us_objects u k))"
proof -
  from udp_sys.reach_inv [OF assms(1)] have ok: "udp_ok E u" .
  with assms(2) have "k < us_next_object u" unfolding udp_ok_def sessions_ok_def by blast
  with ok show ?thesis unfolding udp_ok_def scopes_ok_def tasks_ok_def own_task_def by blast
qed

text \<open>
  The sessions gauge never drifts: in every reachable state its value is the number of sessions
  in the table, through expiry, eviction, failed subscriptions, repeated Byes and shutdown.
\<close>
theorem session_gauge_exact:
  assumes "reach (\<lambda>u. \<exists>c. u = new_udp_server c) (udp_step E cfg) u"
  shows "counter_value (us_log u) ''rtcm_udp_sessions'' [] = int (length (us_sessions u))"
  using udp_sys.reach_inv [OF assms] by (simp add: udp_ok_def gauge_ok_def)

text \<open>
  Strangers get nothing. A datagram that does not decode, or that is not a Hello and names no
  live session, changes nothing at all: no reply, no work, no state.
\<close>
theorem strangers_are_ignored:
  assumes "case ue_decode E data of None \<Rightarrow> True
    | Some d \<Rightarrow> (\<forall>t r p. dg_body d \<noteq> Hello t r p) \<and> map_of (us_sessions u) (dg_session_id d) = None"
  shows "handle_datagram E now data a u = (None, u)"
  using assms by (auto simp: handle_datagram_def split: option.splits dg_body.split)

text \<open>
  Sequence numbers count up from the session's current one and wrap modulo 2 to the 32, as the
  protocol file promises.
\<close>
theorem sequence_numbers_wrap:
  assumes "0 \<le> ss_seq s" "ss_seq s < 2 ^ 32"
  shows "fst (next_seq (((\<lambda>s. snd (next_seq s)) ^^ n) s)) = (ss_seq s + int n) mod 2 ^ 32"
proof (induction n)
  case 0
  from assms show ?case by (simp add: next_seq_def)
next
  case (Suc n)
  have "(0xFFFFFFFF :: int) = mask 32" by (simp add: mask_eq_exp_minus_1)
  then have "and x 0xFFFFFFFF = x mod 2 ^ 32" for x :: int
    by (simp only: take_bit_eq_mask [symmetric] take_bit_eq_mod)
  then have "fst (next_seq (((\<lambda>s. snd (next_seq s)) ^^ Suc n) s)) =
      (fst (next_seq (((\<lambda>s. snd (next_seq s)) ^^ n) s)) + 1) mod 2 ^ 32"
    by (simp add: next_seq_def)
  then show ?case unfolding Suc.IH by (simp add: mod_simps algebra_simps)
qed

text \<open>
  Sign once, fan out. Once a frame object has been signed for a mountpoint, signing the same
  object again for it (for the next session, at whatever time) returns the identical payload and
  signature and does no further work.
\<close>
theorem frame_signed_once:
  "sign_frame E ts' m f (snd (sign_frame E ts m f u)) =
     (fst (sign_frame E ts m f u), snd (sign_frame E ts m f u))"
  by (simp add: sign_frame_def Let_def dict_simps)

text \<open>
  The reaper removes exactly the sessions whose deadline has passed, in any reachable state.
\<close>
theorem udp_reap_exact:
  assumes "udp_ok E u"
  shows "us_sessions (udp_reap now u) = filter (\<lambda>(i, k). now \<le> ss_expiry (us_objects u k)) (us_sessions u)"
proof -
  have ids: "ss_session_id (us_objects u k) = i" if "(i, k) \<in> set (us_sessions u)" for i k
    using assms that unfolding udp_ok_def sessions_ok_def by (metis map_of_is_SomeI)
  have d: "dict_ok (us_sessions u)" using assms by (simp add: udp_ok_def sessions_ok_def)
  have mem: "i \<in> (\<lambda>k. ss_session_id (us_objects u k)) ` set (stale_sessions now u) \<longleftrightarrow> ss_expiry (us_objects u k) < now"
    if "(i, k) \<in> set (us_sessions u)" for i k
  proof
    assume "i \<in> (\<lambda>k. ss_session_id (us_objects u k)) ` set (stale_sessions now u)"
    then obtain k' i' where k': "(i', k') \<in> set (us_sessions u)" "ss_expiry (us_objects u k') < now"
      "ss_session_id (us_objects u k') = i" by (auto simp: stale_sessions_def)
    with ids have "(i, k') \<in> set (us_sessions u)" by auto
    with that d k'(2) show "ss_expiry (us_objects u k) < now" using eq_key_imp_eq_value by metis
  next
    assume "ss_expiry (us_objects u k) < now"
    with that have "k \<in> set (stale_sessions now u)" by (force simp: stale_sessions_def)
    with ids [OF that] show "i \<in> (\<lambda>k. ss_session_id (us_objects u k)) ` set (stale_sessions now u)" by force
  qed
  have "us_sessions (udp_reap now u) = us_sessions (fold (teardown None) (stale_sessions now u) u)"
    by (simp add: udp_reap_def Let_def)
  also have "\<dots> = filter (\<lambda>(i, k). now \<le> ss_expiry (us_objects u k)) (us_sessions u)"
    unfolding fold_teardown_sessions
  proof (rule filter_cong [OF refl])
    fix e assume "e \<in> set (us_sessions u)"
    with mem [of "fst e" "snd e"]
    show "fst e \<notin> (\<lambda>k. ss_session_id (us_objects u k)) ` set (stale_sessions now u) \<longleftrightarrow>
        (case e of (i, k) \<Rightarrow> now \<le> ss_expiry (us_objects u k))"
      unfolding case_prod_beta not_less [symmetric] by (metis prod.collapse)
  qed
  finally show ?thesis .
qed

text \<open>
  A NEAREST session follows its rover. A KeepAlive with a position moves the session to the
  selected base when its scope allows it; when no base is in range the session is queued for
  eviction, which sends OUT_OF_RANGE to its address and removes it.
\<close>
theorem nearest_session_follows:
  assumes "ss_dynamic (us_objects u k)" "udp_nearest (us_registry u) lat lon = Inr choice"
  shows "case choice of
      Some n \<Rightarrow> fst (on_keepalive k (Some (lat, lon)) u) = None \<and>
        ss_mountpoint (us_objects (snd (on_keepalive k (Some (lat, lon)) u)) k) =
          (if scope_allows (ss_scope (us_objects u k)) n then n else ss_mountpoint (us_objects u k))
    | None \<Rightarrow> us_jobs (snd (on_keepalive k (Some (lat, lon)) u)) = us_jobs u @ [JobEvict k OUT_OF_RANGE (Plain ''No mountpoint in range.'')] \<and>
        map_of (us_sessions (run_job E now wall sid (JobEvict k OUT_OF_RANGE (Plain ''No mountpoint in range.'')) u))
          (ss_session_id (us_objects u k)) = None"
  using assms
  by (simp add: on_keepalive_def Let_def evict_def teardown_sessions dict_simps split: option.split)
     (simp add: spawn_def upd_caster_def)

text \<open>
  A hand-off leaves a position behind. When a KeepAlive moves a NEAREST session from one base to
  another and the session is later torn down, the old base's table of rover positions still lists
  the rover: the teardown clears only the session's current mountpoint.
\<close>
theorem handoff_leaves_position:
  assumes "map_of (us_sessions u) (ss_session_id (us_objects u k)) = Some k" "ss_dynamic (us_objects u k)"
    and "udp_nearest (us_registry u) lat lon = Inr (Some n)" "scope_allows (ss_scope (us_objects u k)) n"
    and "n \<noteq> ss_mountpoint (us_objects u k)"
  shows "map_of (get_rover_positions (ss_mountpoint (us_objects u k))
           (us_caster (teardown None k (snd (on_keepalive k (Some (lat, lon)) u)))))
         (str_of_nat (unat (ss_session_id (us_objects u k)))) = Some (lat, lon)"
proof -
  let ?u = "upd_caster (set_rover_position (ss_mountpoint (us_objects u k)) (str_of_nat (unat (ss_session_id (us_objects u k)))) lat lon) u"
  have "snd (on_keepalive k (Some (lat, lon)) u) = repoint k n ?u"
    using assms(2-4) by (simp add: on_keepalive_def Let_def)
  moreover have "us_caster (teardown None k (repoint k n ?u)) =
      clear_rover_position n (str_of_nat (unat (ss_session_id (us_objects u k)))) (us_caster ?u)"
    using assms(1) by (simp add: teardown_def Let_def)
  moreover have "map_of (cs_positions (clear_rover_position n i c)) m = map_of (cs_positions c) m" if "n \<noteq> m" for i c m
    using that by (simp add: clear_rover_position_def Let_def dict_simps split: option.split)
  ultimately show ?thesis
    using assms(5) by (simp add: get_rover_positions_def) (simp add: set_rover_position_def dict_simps)
qed

section \<open>Witnesses\<close>

text \<open>An environment whose library accepts every token as a wildcard and decodes three packets.\<close>

definition open_library :: jwt_library where
  "open_library = \<lparr>jwt_encode = (\<lambda>_ _ _. []), jwt_decode = (\<lambda>_ _ _ _ _ _. Some [(''mountpoint'', ClText ''*'')])\<rparr>"

definition demo_env :: udp_env where
  "demo_env = \<lparr>ue_decode = (\<lambda>b. if b = [1] then Some \<lparr>dg_version = 1, dg_session_id = 0, dg_seq = 0, dg_body = Hello [] ''B'' None\<rparr>
       else if b = [2] then Some \<lparr>dg_version = 1, dg_session_id = 9, dg_seq = 0, dg_body = Bye\<rparr> else None),
     ue_encode = (\<lambda>_. []), ue_encode_correction = (\<lambda>ts m x. x), ue_sign = (\<lambda>p. 0xFF # p), ue_jwt = open_library,
     ue_token_secret = [], ue_signing_kid = Some ''kid'', ue_signing_enabled = True, ue_session_ttl = 30,
     ue_keepalive_interval = 10, ue_max_datagram = 1200\<rparr>"

definition demo_registered :: caster where
  "demo_registered = snd (register 0 ''B'' no_metadata (new_caster None 4))"

definition demo_udp :: "udp_server" where
  "demo_udp = run_job demo_env 0 0 7 (JobHello [] ''B'' None ([], 0)) (new_udp_server demo_registered)"

lemma demo_registered_facts:
  "map_of (cs_transports demo_registered) ''B'' = Some 0" "map_of (cs_mountpoints demo_registered) ''B'' \<noteq> None"
  "cs_store demo_registered 0 = new_transport" "cs_queue demo_registered = None"
proof -
  have "mountpoint_re ''B''" by code_simp
  then show "map_of (cs_transports demo_registered) ''B'' = Some 0" "map_of (cs_mountpoints demo_registered) ''B'' \<noteq> None"
    "cs_store demo_registered 0 = new_transport" "cs_queue demo_registered = None"
    by (simp_all add: demo_registered_def register_def new_caster_def new_mountpoint_def post_init_def open_transport_def
        no_metadata_def present_and_not_def given_and_not_def)
qed

lemma demo_udp_reachable: "reach (\<lambda>u. \<exists>c. u = new_udp_server c) (udp_step demo_env cfg) demo_udp"
proof -
  let ?u0 = "new_udp_server demo_registered"
  have r0: "reach (\<lambda>u. \<exists>c. u = new_udp_server c) (udp_step demo_env cfg) ?u0" by (auto intro: reach_start)
  let ?u1 = "snd (handle_datagram demo_env 0 [1] ([], 0) ?u0)"
  have r1: "reach (\<lambda>u. \<exists>c. u = new_udp_server c) (udp_step demo_env cfg) ?u1"
    by (rule reach_step [OF r0]) (rule udp_step.datagram)
  have jobs: "us_jobs ?u1 = [] @ JobHello [] ''B'' None ([], 0) # []" "map_of (us_sessions ?u1) 7 = None"
    and restored: "?u1\<lparr>us_jobs := [] @ []\<rparr> = ?u0"
    by (simp_all add: handle_datagram_def demo_env_def spawn_def new_udp_server_def)
  from udp_step.job [OF jobs, of demo_env cfg 0 0] reach_step [OF r1] show ?thesis
    unfolding demo_udp_def restored by blast
qed

lemma demo_udp_facts:
  "us_sessions demo_udp = [(7, 0)]"
  "us_objects demo_udp 0 = \<lparr>ss_session_id = 7, ss_mountpoint = ''B'', ss_addr = ([], 0), ss_expiry = 30, ss_scope = ''*'',
     ss_dynamic = False, ss_seq = 0, ss_task = Some 0\<rparr>"
  "us_tasks demo_udp 0 = \<lparr>et_session = 0, et_state = TaskNew, et_cancelled = False\<rparr>"
  "us_next_task demo_udp = 1" "us_caster demo_udp = demo_registered" "us_open demo_udp" "us_cache demo_udp = []"
  "length (us_sent demo_udp) = 1"
proof -
  have "verify_session_token (ue_jwt demo_env) 0 [] (ue_token_secret demo_env) = Some [(''mountpoint'', ClText ''*'')]"
    by (simp add: verify_session_token_def demo_env_def open_library_def)
  moreover have "token_mountpoint [(''mountpoint'', ClText ''*'')] = Some ''*''" by (simp add: token_mountpoint_def)
  moreover have "resolve_mountpoint ''*'' ''B'' None (cs_mountpoints demo_registered) = Resolved ''B''"
    using demo_registered_facts(2) by (simp add: resolve_mountpoint_def is_wildcard_def)
  ultimately have u: "demo_udp = start_egress 0 (send_datagram ([], 0) (hello_ack demo_env 7 ''B'')
     (log_udp [MInc ''rtcm_udp_hello_total'' [''accepted''] 1, MInc ''rtcm_udp_sessions'' [] 1]
       ((new_udp_server demo_registered)\<lparr>us_objects := (us_objects (new_udp_server demo_registered))(0 :=
          \<lparr>ss_session_id = 7, ss_mountpoint = ''B'', ss_addr = ([], 0), ss_expiry = 30, ss_scope = ''*'',
           ss_dynamic = False, ss_seq = 0, ss_task = None\<rparr>), us_next_object := 1, us_sessions := [(7, 0)]\<rparr>)))"
    by (simp add: demo_udp_def on_hello_def Let_def) (simp add: new_udp_server_def demo_env_def)
  show "us_sessions demo_udp = [(7, 0)]" by (simp add: u)
  show "us_objects demo_udp 0 = \<lparr>ss_session_id = 7, ss_mountpoint = ''B'', ss_addr = ([], 0), ss_expiry = 30, ss_scope = ''*'',
     ss_dynamic = False, ss_seq = 0, ss_task = Some 0\<rparr>"
    by (simp add: u) (simp add: send_datagram_def log_udp_def new_udp_server_def)
  show "us_tasks demo_udp 0 = \<lparr>et_session = 0, et_state = TaskNew, et_cancelled = False\<rparr>" "us_next_task demo_udp = 1"
    "us_caster demo_udp = demo_registered" "us_open demo_udp" "us_cache demo_udp = []" "length (us_sent demo_udp) = 1"
    by (simp_all add: u start_egress_def send_datagram_def log_udp_def new_udp_server_def upd_session_def)
qed

theorem sessions_stay_in_scope_witness: "granted demo_env ''*''"
  using sessions_stay_in_scope [OF demo_udp_reachable, of 7 0] by (simp add: demo_udp_facts)

theorem session_gauge_exact_witness: "counter_value (us_log demo_udp) ''rtcm_udp_sessions'' [] = 1"
  using session_gauge_exact [OF demo_udp_reachable] by (simp add: demo_udp_facts)

theorem strangers_are_ignored_witness: "handle_datagram demo_env 5 [2] ([], 1) demo_udp = (None, demo_udp)"
  by (rule strangers_are_ignored) (simp add: demo_env_def demo_udp_facts)

theorem sequence_numbers_wrap_witness:
  "fst (next_seq (((\<lambda>s. snd (next_seq s)) ^^ 3) ((us_objects demo_udp 0)\<lparr>ss_seq := 4294967295\<rparr>))) = 2"
  using sequence_numbers_wrap [of "(us_objects demo_udp 0)\<lparr>ss_seq := 4294967295\<rparr>" 3] by simp

theorem udp_reap_exact_witness: "us_sessions (udp_reap 31 demo_udp) = [] \<and> us_sessions (udp_reap 30 demo_udp) = [(7, 0)]"
proof -
  have ok: "udp_ok demo_env demo_udp" by (rule udp_sys.reach_inv [OF demo_udp_reachable])
  show ?thesis
    using udp_reap_exact [OF ok, of 31] udp_reap_exact [OF ok, of 30] by (simp add: demo_udp_facts)
qed

text \<open>The session's task subscribes, a chunk is published, and the task sends it.\<close>

definition demo_streaming :: udp_server where
  "demo_streaming = egress_turn demo_env 0 0 demo_udp"

definition demo_published :: udp_server where
  "demo_published = demo_streaming\<lparr>us_caster := snd (publish demo_config 1 ''B'' (5, [1, 2]) (us_caster demo_streaming))\<rparr>"

definition demo_sent :: udp_server where
  "demo_sent = egress_turn demo_env 0 0 demo_published"

section \<open>From publish to datagram\<close>

lemma publish_store:
  assumes "caster_ok c" "map_of (cs_transports c) m = Some t"
  shows "cs_store (snd (publish cfg now m f c)) = (cs_store c)(t := snd (tq_publish f (cs_store c t)))"
proof -
  obtain mp where "map_of (cs_mountpoints c) m = Some mp" using caster_ok_registered [OF assms] by blast
  with assms(2) show ?thesis by (simp add: publish_state enqueue_frame)
qed

lemma get_after_publish:
  assumes "tq_ok t" "i \<in> set (tq_queues t)" "tq_subs t i = Some s" "\<not> sq_cancelled s" "sq_queue s = []"
  shows "fst (tq_get i (snd (tq_publish f t))) = Delivered f"
proof -
  have ok: "sub_ok s" using tq_ok_sub [OF assms(1,3)] .
  have "tq_subs (snd (tq_publish f t)) i = Some (snd (sub_publish f s))"
    using assms(2,3) by (simp add: tq_publish_result [OF assms(1)])
  moreover have "fst (sub_get (snd (sub_publish f s))) = Delivered f"
    using assms(4,5) ok
    by (simp add: sub_publish_live sub_get_def sub_get_resume_def get_nowait_def keep_last_def QUEUE_MAXSIZE_def)
  ultimately show ?thesis by (simp add: tq_get_def case_prod_beta)
qed

lemma streaming_turn:
  assumes "us_tasks u j = \<lparr>et_session = k, et_state = TaskStreaming m tr i, et_cancelled = False\<rparr>"
    and "ss_task (us_objects u k) = Some j" "tq_get i (cs_store (us_caster u) tr) = (Delivered f, tq)"
  shows "egress_turn E ts j u = send_frame E ts k f (upd_caster (upd_transport tr (\<lambda>_. tq)) u)"
  using assms by (simp add: egress_turn_def Let_def)

text \<open>
  A published chunk becomes one datagram. When a session's egress task streams from its
  mountpoint and has nothing pending, publishing a chunk and giving the task one turn sends exactly
  one more datagram, to the session's current address, with its next sequence number and a
  correction payload that encodes the whole chunk as it was published, under the session's
  mountpoint.
\<close>
theorem published_chunk_is_sent:
  assumes "caster_ok (us_caster u)" "map_of (cs_transports (us_caster u)) m = Some tr" "us_open u"
    and "us_tasks u j = \<lparr>et_session = k, et_state = TaskStreaming m tr i, et_cancelled = False\<rparr>"
    and "ss_task (us_objects u k) = Some j" "ss_mountpoint (us_objects u k) = m"
    and "i \<in> set (tq_queues (cs_store (us_caster u) tr))" "tq_subs (cs_store (us_caster u) tr) i = Some s"
    and "\<not> sq_cancelled s" "sq_queue s = []"
    and "\<forall>f' sc. map_of (us_cache u) m = Some (f', sc) \<longrightarrow> fst f' \<noteq> fst f"
    and "\<forall>d. length (ue_encode E d) \<le> ue_max_datagram E"
  shows "us_sent (egress_turn E ts j (u\<lparr>us_caster := snd (publish cfg now m f (us_caster u))\<rparr>)) =
    us_sent u @ [(ss_addr (us_objects u k),
       \<lparr>dg_version = PROTOCOL_VERSION, dg_session_id = ss_session_id (us_objects u k), dg_seq = ss_seq (us_objects u k),
        dg_body = Correction (ue_encode_correction E ts m (snd f)) (signature_of E (ue_encode_correction E ts m (snd f)))\<rparr>)]"
proof -
  let ?c = "snd (publish cfg now m f (us_caster u))"
  let ?u = "u\<lparr>us_caster := ?c\<rparr>"
  have tqo: "tq_ok (cs_store (us_caster u) tr)" using assms(1) by (rule caster_ok_store_ok)
  obtain tq where g: "tq_get i (cs_store ?c tr) = (Delivered f, tq)"
    using get_after_publish [OF tqo assms(7,8,9,10), of f]
    by (cases "tq_get i (cs_store ?c tr)") (simp add: publish_store [OF assms(1,2)])
  have turn: "egress_turn E ts j ?u = send_frame E ts k f (upd_caster (upd_transport tr (\<lambda>_. tq)) ?u)"
    by (rule streaming_turn) (use assms(4,5) g in simp_all)
  let ?v = "upd_caster (upd_transport tr (\<lambda>_. tq)) ?u"
  let ?p = "ue_encode_correction E ts m (snd f)"
  have v: "us_cache ?v = us_cache u" "us_sent ?v = us_sent u" "us_open ?v" "us_objects ?v = us_objects u"
    using assms(3) by (simp_all add: upd_caster_def)
  have sg: "fst (sign_frame E ts m f ?v) = (?p, signature_of E ?p)"
    using assms(11) by (auto simp: sign_frame_def Let_def v)
  have size: "\<not> ue_max_datagram E < length (ue_encode E d)" for d using assms(12) by (simp add: not_less)
  show ?thesis
    unfolding turn send_frame_eq
    by (simp add: Let_def case_prod_beta assms(6) sg size v) (simp add: send_datagram_def v)
qed

lemma demo_streaming_facts:
  "us_tasks demo_streaming 0 = \<lparr>et_session = 0, et_state = TaskStreaming ''B'' 0 0, et_cancelled = False\<rparr>"
  "us_objects demo_streaming = us_objects demo_udp" "us_open demo_streaming" "us_cache demo_streaming = []"
  "us_caster demo_streaming = snd (metered_subscribe ''B'' 0 demo_registered)"
  "us_next_task demo_streaming = 1" "us_sent demo_streaming = us_sent demo_udp"
proof -
  have "Caster.subscribe ''B'' demo_registered = Inr 0" using demo_registered_facts(1) by (simp add: Caster.subscribe_def)
  moreover have "fst (metered_subscribe ''B'' 0 demo_registered) = 0"
    by (simp add: metered_subscribe_def log_caster_def demo_registered_facts(3) tq_subscribe_def new_transport_def Let_def)
  ultimately have u: "demo_streaming = upd_task 0 (\<lambda>t. t\<lparr>et_state := TaskStreaming ''B'' 0 0\<rparr>)
      (demo_udp\<lparr>us_caster := snd (metered_subscribe ''B'' 0 demo_registered)\<rparr>)"
    by (cases "metered_subscribe ''B'' 0 demo_registered")
       (simp add: demo_streaming_def egress_turn_def demo_udp_facts Let_def)
  show "us_tasks demo_streaming 0 = \<lparr>et_session = 0, et_state = TaskStreaming ''B'' 0 0, et_cancelled = False\<rparr>"
    "us_objects demo_streaming = us_objects demo_udp" "us_open demo_streaming" "us_cache demo_streaming = []"
    "us_caster demo_streaming = snd (metered_subscribe ''B'' 0 demo_registered)"
    "us_next_task demo_streaming = 1" "us_sent demo_streaming = us_sent demo_udp"
    by (simp_all add: u demo_udp_facts)
qed

lemma demo_subscribed:
  "caster_ok (us_caster demo_streaming)" "map_of (cs_transports (us_caster demo_streaming)) ''B'' = Some 0"
  "0 \<in> set (tq_queues (cs_store (us_caster demo_streaming) 0))"
  "tq_subs (cs_store (us_caster demo_streaming) 0) 0 = Some new_subscriber"
proof -
  have "caster_ok demo_registered" unfolding demo_registered_def by (rule caster_ok_register) simp
  then show "caster_ok (us_caster demo_streaming)" by (simp add: demo_streaming_facts caster_ok_subscribe)
  have f: "cs_transports (snd (metered_subscribe ''B'' 0 demo_registered)) = cs_transports demo_registered"
    "cs_store (snd (metered_subscribe ''B'' 0 demo_registered)) 0 = snd (tq_subscribe new_transport)"
    by (simp_all add: metered_subscribe_def log_caster_def demo_registered_facts(3) Let_def case_prod_beta)
  show "map_of (cs_transports (us_caster demo_streaming)) ''B'' = Some 0"
    unfolding demo_streaming_facts(5) f(1) by (rule demo_registered_facts(1))
  show "0 \<in> set (tq_queues (cs_store (us_caster demo_streaming) 0))"
    "tq_subs (cs_store (us_caster demo_streaming) 0) 0 = Some new_subscriber"
    unfolding demo_streaming_facts(5) f(2) by (simp_all add: tq_subscribe_def new_transport_def)
qed

lemma demo_sent_datagrams:
  "us_sent demo_sent = us_sent demo_udp @ [(([], 0), \<lparr>dg_version = 1, dg_session_id = 7, dg_seq = 0,
     dg_body = Correction [1, 2] [0xFF, 1, 2]\<rparr>)]"
proof -
  let ?m = "''B''" and ?f = "(5 :: nat, [1, 2] :: bytes)"
  have tr: "cs_store (us_caster demo_published) = (cs_store (us_caster demo_streaming))(0 := snd (tq_publish ?f (cs_store (us_caster demo_streaming) 0)))"
    by (simp add: demo_published_def publish_store [OF demo_subscribed(1,2)])
  have "fst (tq_get 0 (cs_store (us_caster demo_published) 0)) = Delivered ?f"
    unfolding tr fun_upd_same
    by (rule get_after_publish [OF _ demo_subscribed(3,4)])
       (simp_all add: caster_ok_store_ok demo_subscribed(1) new_subscriber_def)
  then obtain tq where "tq_get 0 (cs_store (us_caster demo_published) 0) = (Delivered ?f, tq)"
    by (cases "tq_get 0 (cs_store (us_caster demo_published) 0)") simp
  then have eq: "demo_sent = send_frame demo_env 0 0 ?f (upd_caster (upd_transport 0 (\<lambda>_. tq)) demo_published)"
    unfolding demo_sent_def
    by (intro streaming_turn) (simp_all add: demo_published_def demo_streaming_facts demo_udp_facts)
  show ?thesis
    unfolding eq
    by (simp add: send_frame_eq Let_def case_prod_beta demo_published_def demo_streaming_facts demo_udp_facts
        sign_frame_def demo_env_def signature_of_def signing_def PROTOCOL_VERSION_def upd_caster_def send_datagram_def log_udp_def)
qed

lemma demo_sent_reachable: "reach (\<lambda>u. \<exists>c. u = new_udp_server c) (udp_step demo_env demo_config) demo_sent"
proof -
  have "reach (\<lambda>u. \<exists>c. u = new_udp_server c) (udp_step demo_env demo_config) demo_streaming"
    unfolding demo_streaming_def
    by (rule reach_step [OF demo_udp_reachable]) (rule udp_step.egress, simp add: demo_udp_facts)
  then have "reach (\<lambda>u. \<exists>c. u = new_udp_server c) (udp_step demo_env demo_config) demo_published"
    unfolding demo_published_def by (rule reach_step) (intro udp_step.caster caster_step.publish)
  then show ?thesis
    unfolding demo_sent_def
    by (rule reach_step) (rule udp_step.egress, simp add: demo_published_def demo_streaming_facts)
qed

theorem corrections_authorized_and_signed_witness:
  "\<exists>ts m x. scope_allows ''*'' m \<and> [1, 2] = ue_encode_correction demo_env ts m x \<and> [0xFF, 1, 2] = ue_sign demo_env [1, 2]"
proof -
  have "(([], 0), \<lparr>dg_version = 1, dg_session_id = 7, dg_seq = 0, dg_body = Correction [1, 2] [0xFF, 1, 2]\<rparr>) \<in> set (us_sent demo_sent)"
    by (simp add: demo_sent_datagrams)
  from corrections_authorized_and_signed [OF demo_sent_reachable this] show ?thesis
    by (auto simp: demo_env_def signing_def scope_allows_def is_wildcard_def)
qed

theorem published_chunk_is_sent_witness:
  "length (us_sent (egress_turn demo_env 0 0
     (demo_streaming\<lparr>us_caster := snd (publish demo_config 1 ''B'' (5, [1, 2]) (us_caster demo_streaming))\<rparr>))) = 2"
proof -
  have "us_sent (egress_turn demo_env 0 0
     (demo_streaming\<lparr>us_caster := snd (publish demo_config 1 ''B'' (5, [1, 2]) (us_caster demo_streaming))\<rparr>)) =
    us_sent demo_streaming @ [(ss_addr (us_objects demo_streaming 0),
       \<lparr>dg_version = PROTOCOL_VERSION, dg_session_id = ss_session_id (us_objects demo_streaming 0),
        dg_seq = ss_seq (us_objects demo_streaming 0),
        dg_body = Correction (ue_encode_correction demo_env 0 ''B'' (snd (5 :: nat, [1, 2])))
          (signature_of demo_env (ue_encode_correction demo_env 0 ''B'' (snd (5 :: nat, [1, 2]))))\<rparr>)]"
    by (rule published_chunk_is_sent [OF demo_subscribed(1,2) _ _ _ _ demo_subscribed(3,4)])
       (simp_all add: demo_streaming_facts demo_udp_facts new_subscriber_def demo_env_def)
  then show ?thesis by (simp add: demo_streaming_facts demo_udp_facts)
qed

text \<open>A NEAREST session at one of two bases reports a position at the other.\<close>

definition demo_nearest :: udp_server where
  "demo_nearest = demo_udp
     \<lparr>us_objects := (us_objects demo_udp)(0 := (us_objects demo_udp 0)\<lparr>ss_dynamic := True\<rparr>),
      us_caster := (new_caster None 4)\<lparr>cs_mountpoints := [base_at ''A'' 51 4 0]\<rparr>\<rparr>"

lemma demo_nearest_choice: "udp_nearest (us_registry demo_nearest) (Fin 51) (Fin 4) = Inr (Some ''A'')"
  by (simp add: demo_nearest_def udp_nearest_def base_at_def haversine_Fin)

theorem nearest_session_follows_witness:
  "ss_mountpoint (us_objects (snd (on_keepalive 0 (Some (Fin 51, Fin 4)) demo_nearest)) 0) = ''A''"
  using nearest_session_follows [OF _ demo_nearest_choice, of 0]
  by (simp add: demo_nearest_def demo_udp_facts scope_allows_def is_wildcard_def)

theorem handoff_leaves_position_witness:
  "map_of (get_rover_positions ''B'' (us_caster (teardown None 0 (snd (on_keepalive 0 (Some (Fin 51, Fin 4)) demo_nearest)))))
     (str_of_nat 7) = Some (Fin 51, Fin 4)"
  using handoff_leaves_position [of demo_nearest 0 "Fin 51" "Fin 4" "''A''"] demo_nearest_choice
  by (simp add: demo_nearest_def demo_udp_facts scope_allows_def is_wildcard_def)

end
