(* ===== verification/OpaAuth.thy ===== *)
theory OpaAuth
  imports Caster
begin

text \<open>
  Authorization: the OPA client \<open>opa/client.py\<close>, the password check \<open>crypto/secrets.py\<close>, the two
  \<open>authenticate_*\<close> methods of the caster, and the Rego policies they ask
  (\<open>src/opa/policies/corshub\<close>). OPA as a service, bcrypt and Rego's
  \<open>time.parse_rfc3339_ns\<close> are parameters; \<open>policy_server\<close> is OPA serving the repository's policies.
\<close>

section \<open>JSON values\<close>

datatype json =
    JNull
  | JBool bool
  | JInt int
  | JStr string
  | JList "json list"
  | JObj "(string, json) dict"

fun json_true :: "json \<Rightarrow> bool" where
  "json_true JNull = False"
| "json_true (JBool b) = b"
| "json_true (JInt i) = (i \<noteq> 0)"
| "json_true (JStr s) = (s \<noteq> [])"
| "json_true (JList xs) = (xs \<noteq> [])"
| "json_true (JObj d) = (d \<noteq> [])"

text \<open>\<open>value.get(key)\<close> on a parsed body: only an object has it. None is returned as null.\<close>

fun json_get :: "json \<Rightarrow> string \<Rightarrow> py_error + json" where
  "json_get (JObj d) k = Inr (opt_default JNull (map_of d k))"
| "json_get _ k = Inl AttributeError"

text \<open>Rego's reference \<open>value.key\<close>, undefined (None) when there is no such member\<close>

fun rego_ref :: "json option \<Rightarrow> string \<Rightarrow> json option" where
  "rego_ref (Some (JObj d)) k = map_of d k"
| "rego_ref _ k = None"

section \<open>The OPA client\<close>

text \<open>What the POST gave: an exception or timeout, or a status with a body that is JSON or not.\<close>

datatype opa_reply = Unreachable | Reply nat "json option"

type_synonym opa_service = "string \<Rightarrow> json \<Rightarrow> opa_reply"

record opa_client =
  oc_base_url :: string
  oc_session :: opa_service

definition rstrip_slash :: "string \<Rightarrow> string" where
  "rstrip_slash s = rev (dropWhile (\<lambda>c. c = CHR ''/'') (rev s))"

definition new_opa_client :: "string \<Rightarrow> opa_service \<Rightarrow> opa_client" where
  "new_opa_client base_url session = \<lparr>oc_base_url = rstrip_slash base_url, oc_session = session\<rparr>"

text \<open>The \<open>except Exception\<close> around the whole body gives the empty result.\<close>

definition query :: "opa_client \<Rightarrow> string \<Rightarrow> json \<Rightarrow> json" where
  "query opa package input_data =
     (case oc_session opa (oc_base_url opa @ ''/v1/data/'' @ package) (JObj [(''input'', input_data)]) of
        Unreachable \<Rightarrow> JObj []
      | Reply status body \<Rightarrow>
          if status \<noteq> 200 then JObj []
          else (case body of
                  None \<Rightarrow> JObj []
                | Some b \<Rightarrow>
                    (case json_get b ''result'' of
                       Inl _ \<Rightarrow> JObj []
                     | Inr r \<Rightarrow> if json_true r then r else JObj [])))"

section \<open>The password check\<close>

text \<open>\<open>bcrypt.checkpw\<close>; None is an exception\<close>

type_synonym bcrypt = "string \<Rightarrow> string \<Rightarrow> bool option"

text \<open>A stored value that is not a string makes \<open>checkpw\<close> raise.\<close>

definition verify_password :: "bcrypt \<Rightarrow> string \<Rightarrow> json \<Rightarrow> bool" where
  "verify_password checkpw provided stored_hash =
     (case stored_hash of
        JStr h \<Rightarrow> (case checkpw provided h of Some ok \<Rightarrow> ok | None \<Rightarrow> False)
      | _ \<Rightarrow> False)"

section \<open>The caster's authentication methods\<close>

definition auth_result :: "string \<Rightarrow> bool \<Rightarrow> caster \<Rightarrow> caster" where
  "auth_result role ok c =
     log_caster [MInc ''auth_requests_total'' [role, if ok then ''success'' else ''failure''] 1] c"

definition base_station_input :: "string \<Rightarrow> string \<Rightarrow> caster \<Rightarrow> json" where
  "base_station_input username mountpoint c =
     JObj [(''username'', JStr username), (''mountpoint'', JStr mountpoint),
           (''transport'', JObj [(''available'', JBool (available mountpoint c))])]"

definition rover_input :: "string \<Rightarrow> string \<Rightarrow> json" where
  "rover_input username mountpoint = JObj [(''username'', JStr username), (''mountpoint'', JStr mountpoint)]"

text \<open>
  The code after \<open>await self._opa.query(...)\<close>; other tasks run between the question and the verdict.
  \<open>result.get("password_hash", "")\<close> is falsy when it is absent, and so is the null used here.
\<close>

definition base_station_verdict :: "bcrypt \<Rightarrow> string \<Rightarrow> json \<Rightarrow> caster \<Rightarrow> bool outcome" where
  "base_station_verdict checkpw password result c =
     (case json_get result ''allow'' of
        Inl e \<Rightarrow> (Inl e, c)
      | Inr allow \<Rightarrow>
          if \<not> json_true allow then (Inr False, auth_result ''base_station'' False c)
          else
            (case json_get result ''password_hash'' of
               Inl e \<Rightarrow> (Inl e, c)
             | Inr stored_hash \<Rightarrow>
                 (let allowed = json_true stored_hash \<and> verify_password checkpw password stored_hash in
                  (Inr allowed, auth_result ''base_station'' allowed c))))"

definition authenticate_base_station ::
  "opa_client option \<Rightarrow> bcrypt \<Rightarrow> string \<Rightarrow> string \<Rightarrow> string \<Rightarrow> caster \<Rightarrow> bool outcome" where
  "authenticate_base_station opa checkpw username password mountpoint c =
     (case opa of
        None \<Rightarrow> (Inr False, c)
      | Some client \<Rightarrow>
          base_station_verdict checkpw password
            (query client ''corshub/base_station'' (base_station_input username mountpoint c)) c)"

text \<open>\<open>max_session_seconds\<close> is the policy's value, null for no limit.\<close>

definition rover_verdict :: "bcrypt \<Rightarrow> string \<Rightarrow> json \<Rightarrow> caster \<Rightarrow> (bool \<times> json) outcome" where
  "rover_verdict checkpw password result c =
     (case json_get result ''allow'' of
        Inl e \<Rightarrow> (Inl e, c)
      | Inr allow \<Rightarrow>
          if \<not> json_true allow then (Inr (False, JNull), auth_result ''rover'' False c)
          else
            (case (json_get result ''password_hash'', json_get result ''max_session_seconds'') of
               (Inr stored_hash, Inr max_session_seconds) \<Rightarrow>
                 (let allowed = json_true stored_hash \<and> verify_password checkpw password stored_hash in
                  (Inr (allowed, max_session_seconds), auth_result ''rover'' allowed c))
             | (Inl e, _) \<Rightarrow> (Inl e, c)
             | (_, Inl e) \<Rightarrow> (Inl e, c)))"

definition authenticate_rover ::
  "opa_client option \<Rightarrow> bcrypt \<Rightarrow> string \<Rightarrow> string \<Rightarrow> string \<Rightarrow> caster \<Rightarrow> (bool \<times> json) outcome" where
  "authenticate_rover opa checkpw username password mountpoint c =
     (case opa of
        None \<Rightarrow> (Inr (False, JNull), c)
      | Some client \<Rightarrow>
          rover_verdict checkpw password (query client ''corshub/rover'' (rover_input username mountpoint)) c)"

section \<open>The policies\<close>

text \<open>\<open>time.parse_rfc3339_ns\<close> is undefined on what it cannot parse or represent.\<close>

type_synonym rfc3339 = "string \<Rightarrow> int option"

definition date_ns :: "rfc3339 \<Rightarrow> json \<Rightarrow> int option" where
  "date_ns parse date = (case date of JStr d \<Rightarrow> parse (d @ ''T00:00:00Z'') | _ \<Rightarrow> None)"

definition object_get :: "json \<Rightarrow> string \<Rightarrow> json \<Rightarrow> json" where
  "object_get r k d = opt_default d (rego_ref (Some r) k)"

definition within_window :: "rfc3339 \<Rightarrow> int \<Rightarrow> json \<Rightarrow> bool" where
  "within_window parse now r =
     (case (date_ns parse (object_get r ''valid_from'' (JStr ''1970-01-01'')),
            date_ns parse (object_get r ''valid_until'' (JStr ''9999-12-31''))) of
        (Some from_ns, Some until_ns) \<Rightarrow> now \<ge> from_ns \<and> now < until_ns
      | _ \<Rightarrow> False)"

text \<open>\<open>data.corshub.<registry>[username]\<close>\<close>

definition registry_entry :: "json \<Rightarrow> string \<Rightarrow> json \<Rightarrow> json option" where
  "registry_entry data registry inp =
     (case rego_ref (Some inp) ''username'' of
        Some (JStr u) \<Rightarrow> rego_ref (rego_ref (rego_ref (Some data) ''corshub'') registry) u
      | _ \<Rightarrow> None)"

text \<open>\<open>x in collection\<close>: the elements of an array, the values of an object\<close>

fun rego_in :: "json option \<Rightarrow> json option \<Rightarrow> bool" where
  "rego_in (Some x) (Some (JList xs)) = (x \<in> set xs)"
| "rego_in (Some x) (Some (JObj d)) = (x \<in> snd ` set d)"
| "rego_in _ _ = False"

definition rego_member :: "string \<Rightarrow> json option \<Rightarrow> (string, json) dict" where
  "rego_member k v = (case v of None \<Rightarrow> [] | Some x \<Rightarrow> [(k, x)])"

definition base_station_policy :: "rfc3339 \<Rightarrow> int \<Rightarrow> json \<Rightarrow> json \<Rightarrow> json" where
  "base_station_policy parse now data inp =
     (let s = registry_entry data ''base_stations'' inp in
      JObj ([(''allow'', JBool
               (case s of
                  None \<Rightarrow> False
                | Some e \<Rightarrow>
                    rego_ref s ''mountpoint'' \<noteq> None \<and> rego_ref s ''mountpoint'' = rego_ref (Some inp) ''mountpoint'' \<and>
                    rego_ref (rego_ref (Some inp) ''transport'') ''available'' = Some (JBool False) \<and>
                    within_window parse now e))] @
            rego_member ''password_hash'' (rego_ref s ''password_hash'')))"

definition rover_policy :: "rfc3339 \<Rightarrow> int \<Rightarrow> json \<Rightarrow> json \<Rightarrow> json" where
  "rover_policy parse now data inp =
     (let r = registry_entry data ''rovers'' inp in
      JObj ([(''allow'', JBool
               (case r of
                  None \<Rightarrow> False
                | Some e \<Rightarrow>
                    (rego_in (rego_ref (Some inp) ''mountpoint'') (rego_ref r ''mountpoints'') \<or>
                     rego_in (Some (JStr ''*'')) (rego_ref r ''mountpoints'')) \<and> within_window parse now e))] @
            rego_member ''password_hash'' (rego_ref r ''password_hash'') @
            (if rego_ref (Some inp) ''username'' = Some (JStr ''anonymous'')
             then [(''max_session_seconds'', JInt 60)] else [])))"

text \<open>OPA at \<open>base\<close>, serving the policies over \<open>data\<close> at time \<open>now\<close>\<close>

definition policy_server :: "string \<Rightarrow> rfc3339 \<Rightarrow> int \<Rightarrow> json \<Rightarrow> opa_service" where
  "policy_server base parse now data url doc =
     (case rego_ref (Some doc) ''input'' of
        None \<Rightarrow> Reply 400 None
      | Some inp \<Rightarrow>
          if url = base @ ''/v1/data/corshub/base_station''
          then Reply 200 (Some (JObj [(''result'', base_station_policy parse now data inp)]))
          else if url = base @ ''/v1/data/corshub/rover''
          then Reply 200 (Some (JObj [(''result'', rover_policy parse now data inp)]))
          else Reply 200 (Some (JObj [])))"

section \<open>What the policies decide\<close>

text \<open>The client the NTRIP blueprint makes for the configured URL of that server\<close>

definition policy_client :: "string \<Rightarrow> rfc3339 \<Rightarrow> int \<Rightarrow> json \<Rightarrow> opa_client" where
  "policy_client base parse now data = new_opa_client base (policy_server (rstrip_slash base) parse now data)"

lemma query_policies:
  "query (policy_client base parse now data) ''corshub/base_station'' inp = base_station_policy parse now data inp"
  "query (policy_client base parse now data) ''corshub/rover'' inp = rover_policy parse now data inp"
  by (simp_all add: query_def policy_client_def new_opa_client_def policy_server_def base_station_policy_def
        rover_policy_def Let_def)

lemma registry_entry_of_inputs [simp]:
  "registry_entry data reg (base_station_input u m c) = rego_ref (rego_ref (rego_ref (Some data) ''corshub'') reg) u"
  "registry_entry data reg (rover_input u m) = rego_ref (rego_ref (rego_ref (Some data) ''corshub'') reg) u"
  by (simp_all add: registry_entry_def base_station_input_def rover_input_def)

definition registered :: "json \<Rightarrow> string \<Rightarrow> string \<Rightarrow> json option" where
  "registered data reg u = rego_ref (rego_ref (rego_ref (Some data) ''corshub'') reg) u"

text \<open>The entry holds a hash and the password matches it.\<close>

definition knows_password :: "bcrypt \<Rightarrow> string \<Rightarrow> json \<Rightarrow> bool" where
  "knows_password checkpw password e \<longleftrightarrow>
     (case rego_ref (Some e) ''password_hash'' of
        Some h \<Rightarrow> json_true h \<and> verify_password checkpw password h
      | None \<Rightarrow> False)"

definition lists_mountpoint :: "json \<Rightarrow> string \<Rightarrow> bool" where
  "lists_mountpoint e m \<longleftrightarrow>
     rego_in (Some (JStr m)) (rego_ref (Some e) ''mountpoints'') \<or> rego_in (Some (JStr ''*'')) (rego_ref (Some e) ''mountpoints'')"

lemma verdicts_of_objects:
  "fst (base_station_verdict checkpw pw (JObj d) c) =
     Inr (json_true (opt_default JNull (map_of d ''allow'')) \<and>
          json_true (opt_default JNull (map_of d ''password_hash'')) \<and>
          verify_password checkpw pw (opt_default JNull (map_of d ''password_hash'')))"
  "fst (rover_verdict checkpw pw (JObj d) c) =
     Inr (if json_true (opt_default JNull (map_of d ''allow''))
          then (json_true (opt_default JNull (map_of d ''password_hash'')) \<and>
                verify_password checkpw pw (opt_default JNull (map_of d ''password_hash'')),
                opt_default JNull (map_of d ''max_session_seconds''))
          else (False, JNull))"
  by (auto simp: base_station_verdict_def rover_verdict_def Let_def)

definition rover_decision :: "rfc3339 \<Rightarrow> int \<Rightarrow> json \<Rightarrow> bcrypt \<Rightarrow> string \<Rightarrow> string \<Rightarrow> string \<Rightarrow> bool \<times> json" where
  "rover_decision parse now data checkpw username password mountpoint =
     (case registered data ''rovers'' username of
        None \<Rightarrow> (False, JNull)
      | Some e \<Rightarrow>
          if lists_mountpoint e mountpoint \<and> within_window parse now e
          then (knows_password checkpw password e, if username = ''anonymous'' then JInt 60 else JNull)
          else (False, JNull))"

definition base_station_decision :: "rfc3339 \<Rightarrow> int \<Rightarrow> json \<Rightarrow> bcrypt \<Rightarrow> string \<Rightarrow> string \<Rightarrow> string \<Rightarrow> bool \<Rightarrow> bool" where
  "base_station_decision parse now data checkpw username password mountpoint taken =
     (case registered data ''base_stations'' username of
        None \<Rightarrow> False
      | Some e \<Rightarrow>
          rego_ref (Some e) ''mountpoint'' = Some (JStr mountpoint) \<and> \<not> taken \<and>
          within_window parse now e \<and> knows_password checkpw password e)"

lemma authenticate_rover_decides:
  "fst (authenticate_rover (Some (policy_client base parse now data)) checkpw username password mountpoint c) =
     Inr (rover_decision parse now data checkpw username password mountpoint)"
  unfolding authenticate_rover_def query_policies rover_policy_def Let_def registry_entry_of_inputs
    option.case verdicts_of_objects registered_def [symmetric] rover_decision_def
  by (cases "registered data ''rovers'' username")
     (auto simp: rego_member_def lists_mountpoint_def knows_password_def rover_input_def split: option.splits)

lemma authenticate_base_station_decides:
  "fst (authenticate_base_station (Some (policy_client base parse now data)) checkpw username password mountpoint c) =
     Inr (base_station_decision parse now data checkpw username password mountpoint (available mountpoint c))"
  unfolding authenticate_base_station_def query_policies base_station_policy_def Let_def
    registry_entry_of_inputs option.case verdicts_of_objects registered_def [symmetric] base_station_decision_def
  by (cases "registered data ''base_stations'' username")
     (auto simp: rego_member_def knows_password_def base_station_input_def split: option.splits)


section \<open>Failing closed\<close>

lemma query_cases:
  "query client package inp = JObj [] \<or>
   (\<exists>b. oc_session client (oc_base_url client @ ''/v1/data/'' @ package) (JObj [(''input'', inp)]) = Reply 200 (Some b) \<and>
        json_get b ''result'' = Inr (query client package inp))"
  by (auto simp: query_def split: opa_reply.splits option.splits sum.splits)

text \<open>
  C6: whatever OPA answers, a client is admitted only after a reply with status 200 whose result
  allows it and whose hash is a string its password was checked against; a failing, silent or
  malformed OPA and a missing client admit nobody.
\<close>
theorem authentication_fails_closed:
  assumes "fst (authenticate_rover opa checkpw username password mountpoint c) = Inr (True, limit) \<or>
           fst (authenticate_base_station opa checkpw username password mountpoint c) = Inr True"
  shows "\<exists>client url doc body result allow h.
           opa = Some client \<and> oc_session client url doc = Reply 200 (Some body) \<and>
           json_get body ''result'' = Inr result \<and> json_get result ''allow'' = Inr allow \<and> json_true allow \<and>
           json_get result ''password_hash'' = Inr (JStr h) \<and> h \<noteq> [] \<and> checkpw password h = Some True"
proof -
  obtain client package inp where client: "opa = Some client"
    and verdict: "fst (rover_verdict checkpw password (query client package inp) c) = Inr (True, limit) \<or>
      fst (base_station_verdict checkpw password (query client package inp) c) = Inr True"
    using assms by (auto simp: authenticate_rover_def authenticate_base_station_def split: option.splits)
  obtain d where d: "query client package inp = JObj d"
    using verdict by (cases "query client package inp") (auto simp: rover_verdict_def base_station_verdict_def)
  have ok: "json_true (opt_default JNull (map_of d ''allow''))"
    "verify_password checkpw password (opt_default JNull (map_of d ''password_hash''))"
    "json_true (opt_default JNull (map_of d ''password_hash''))"
    using verdict unfolding d verdicts_of_objects by (auto split: if_splits)
  then obtain h where h: "map_of d ''password_hash'' = Some (JStr h)" "h \<noteq> []" "checkpw password h = Some True"
    by (cases "map_of d ''password_hash''") (auto simp: verify_password_def split: json.splits option.splits)
  have "d \<noteq> []" using h(1) by auto
  then obtain b where "oc_session client (oc_base_url client @ ''/v1/data/'' @ package) (JObj [(''input'', inp)]) = Reply 200 (Some b)"
    "json_get b ''result'' = Inr (JObj d)"
    using query_cases [of client package inp] d by auto
  moreover have "json_get (JObj d) ''allow'' = Inr (opt_default JNull (map_of d ''allow''))"
    "json_get (JObj d) ''password_hash'' = Inr (JStr h)" using h(1) by simp_all
  ultimately show ?thesis using client ok(1) h(2,3) by blast
qed

section \<open>Entries without an end date\<close>

text \<open>
  \<open>time.parse_rfc3339_ns\<close> is documented as undefined for times that do not fit 64-bit nanoseconds,
  which end in the year 2262.
\<close>

definition out_of_range_undefined :: "rfc3339 \<Rightarrow> bool" where
  "out_of_range_undefined parse \<longleftrightarrow> parse ''9999-12-31T00:00:00Z'' = None"

text \<open>
  The policies' default end date 9999-12-31 cannot be represented, so an entry without
  \<open>valid_until\<close>, documented as having no upper bound, never admits anybody.
\<close>
theorem open_ended_entry_is_denied:
  assumes "out_of_range_undefined parse"
    and "registered data ''rovers'' username = Some e" "rego_ref (Some e) ''valid_until'' = None"
    and "registered data ''base_stations'' station = Some b" "rego_ref (Some b) ''valid_until'' = None"
  shows "fst (authenticate_rover (Some (policy_client base parse now data)) checkpw username password mountpoint c) =
           Inr (False, JNull) \<and>
         fst (authenticate_base_station (Some (policy_client base parse now data)) checkpw station password mountpoint c) =
           Inr False"
proof -
  have "\<not> within_window parse now x" if "rego_ref (Some x) ''valid_until'' = None" for x
    using assms(1) that
    by (simp add: within_window_def object_get_def date_ns_def out_of_range_undefined_def split: option.split)
  with assms show ?thesis
    by (simp add: authenticate_rover_decides authenticate_base_station_decides rover_decision_def base_station_decision_def)
qed

section \<open>A registry\<close>

definition demo_window :: rfc3339 where
  "demo_window d = map_of [(''1970-01-01T00:00:00Z'', 0), (''2025-01-01T00:00:00Z'', 1735689600000000000),
     (''2027-01-01T00:00:00Z'', 1798761600000000000)] d"

definition demo_checkpw :: bcrypt where
  "demo_checkpw provided stored = (if take 1 stored = ''$'' then Some (stored = CHR ''$'' # provided) else None)"

definition demo_data :: json where
  "demo_data = JObj [(''corshub'', JObj
     [(''rovers'', JObj
        [(''anonymous'', JObj [(''mountpoints'', JList [JStr ''*'']), (''valid_until'', JStr ''2027-01-01''),
                               (''password_hash'', JStr ''$anon'')]),
         (''old'', JObj [(''mountpoints'', JList [JStr ''BASE-1'']), (''password_hash'', JStr ''$old'')])]),
      (''base_stations'', JObj
        [(''base'', JObj [(''mountpoint'', JStr ''BASE-1''), (''valid_until'', JStr ''2027-01-01''),
                          (''password_hash'', JStr ''$pw'')]),
         (''forever'', JObj [(''mountpoint'', JStr ''BASE-2''), (''password_hash'', JStr ''$pw'')])])])]"

definition demo_opa :: opa_client where
  "demo_opa = policy_client ''http://opa:8181/'' demo_window 1750000000000000000 demo_data"

lemma demo_admits:
  "fst (authenticate_rover (Some demo_opa) demo_checkpw ''anonymous'' ''anon'' ''BASE-1'' c) = Inr (True, JInt 60)"
  "fst (authenticate_base_station (Some demo_opa) demo_checkpw ''base'' ''pw'' ''BASE-1'' c) = Inr (\<not> available ''BASE-1'' c)"
  unfolding demo_opa_def authenticate_rover_decides authenticate_base_station_decides
  by (simp_all add: rover_decision_def base_station_decision_def registered_def demo_data_def lists_mountpoint_def
        within_window_def object_get_def date_ns_def demo_window_def knows_password_def verify_password_def demo_checkpw_def)

theorem authentication_fails_closed_witness:
  "\<exists>client url doc body result allow h.
     Some demo_opa = Some client \<and> oc_session client url doc = Reply 200 (Some body) \<and>
     json_get body ''result'' = Inr result \<and> json_get result ''allow'' = Inr allow \<and> json_true allow \<and>
     json_get result ''password_hash'' = Inr (JStr h) \<and> h \<noteq> [] \<and> demo_checkpw ''anon'' h = Some True"
  using authentication_fails_closed [of "Some demo_opa" demo_checkpw "''anonymous''" "''anon''" "''BASE-1''"
      "new_caster None 8" "JInt 60"] demo_admits by blast

theorem open_ended_entry_is_denied_witness:
  "fst (authenticate_rover (Some demo_opa) demo_checkpw ''old'' ''old'' ''BASE-1'' (new_caster None 8)) = Inr (False, JNull) \<and>
   fst (authenticate_base_station (Some demo_opa) demo_checkpw ''forever'' ''pw'' ''BASE-2'' (new_caster None 8)) = Inr False"
  unfolding demo_opa_def demo_checkpw_def [abs_def, symmetric]
  by (rule conjI;
      rule open_ended_entry_is_denied [of demo_window demo_data "''old''" _ "''forever''", THEN conjunct1]
           open_ended_entry_is_denied [of demo_window demo_data "''old''" _ "''forever''", THEN conjunct2])
     (simp_all add: out_of_range_undefined_def demo_window_def registered_def demo_data_def, simp_all)

end
