(* ===== verification/Env.thy ===== *)
theory Env
  imports PyText
begin

text \<open>
  Reading the process environment: \<open>env.py\<close> and the \<open>_flag\<close> helper that \<open>http/ratelimit.py\<close> and
  \<open>services/v1/rtcm/base.py\<close> both carry. The environment is an argument.
\<close>

type_synonym environ = "string \<Rightarrow> string option"

text \<open>Python's truth value of an optional string\<close>

definition truthy :: "string option \<Rightarrow> bool" where
  "truthy v \<longleftrightarrow> v \<noteq> None \<and> v \<noteq> Some []"

lemma truthy_simps [simp]: "\<not> truthy None" "\<not> truthy (Some [])" "truthy (Some (x # xs))"
  by (simp_all add: truthy_def)

text \<open>
  Strings that \<open>float()\<close> or \<open>int()\<close> refuse are a \<open>ValueError\<close>; the first unmet check raises
  \<open>AssertionError\<close>.
\<close>

definition as_str :: "string \<Rightarrow> py_error + string" where
  "as_str = Inr"

definition as_float :: "string \<Rightarrow> py_error + pyfloat" where
  "as_float s = (case py_float s of Some x \<Rightarrow> Inr x | None \<Rightarrow> Inl ValueError)"

definition as_int :: "string \<Rightarrow> py_error + int" where
  "as_int s = (case py_int s of Some x \<Rightarrow> Inr x | None \<Rightarrow> Inl ValueError)"

definition env_extract ::
  "environ \<Rightarrow> string \<Rightarrow> bool \<Rightarrow> string option \<Rightarrow> (string \<Rightarrow> bool) option \<Rightarrow> (string \<Rightarrow> py_error + 'a) \<Rightarrow>
   py_error + 'a option" where
  "env_extract environ key optional dflt verify dtype =
     (if dflt = None \<and> \<not> optional \<and> environ key = None then Inl AssertionError
      else
        let value = (case environ key of Some v \<Rightarrow> Some v | None \<Rightarrow> dflt) in
        if \<not> optional \<and> \<not> truthy value then Inl AssertionError
        else case value of
            None \<Rightarrow> Inr None
          | Some v \<Rightarrow>
              if v = [] then Inr None
              else if (case verify of None \<Rightarrow> False | Some ok \<Rightarrow> \<not> ok v) then Inl AssertionError
              else andThen (dtype v) (\<lambda>x. Inr (Some x)))"

text \<open>The listener \<open>verify\<close> registers: it fails the start of the server.\<close>

definition verify_environ :: "environ \<Rightarrow> string list \<Rightarrow> py_error + unit" where
  "verify_environ environ required =
     (if filter (\<lambda>k. environ k = None) required = [] then Inr () else Inl AssertionError)"

text \<open>\<open>env.extract(key, default=default).strip().lower() in {...}\<close>; None has no \<open>strip\<close>.\<close>

definition flag :: "environ \<Rightarrow> string \<Rightarrow> string \<Rightarrow> py_error + bool" where
  "flag environ key dflt =
     andThen (env_extract environ key True (Some dflt) None as_str)
       (\<lambda>v. case v of
          None \<Rightarrow> Inl AttributeError
        | Some s \<Rightarrow> Inr (map to_lower (py_strip s) \<in> {''1'', ''true'', ''yes'', ''on''}))"

lemma env_extract_optional:
  "env_extract environ key True (Some d) None dtype =
     (let v = opt_default d (environ key) in if v = [] then Inr None else andThen (dtype v) (\<lambda>x. Inr (Some x)))"
  by (simp add: env_extract_def Let_def split: option.split)

lemma flag_cases:
  "flag environ key d =
     (let v = opt_default d (environ key) in
      if v = [] then Inl AttributeError else Inr (map to_lower (py_strip v) \<in> {''1'', ''true'', ''yes'', ''on''}))"
  by (simp add: flag_def env_extract_optional as_str_def Let_def)

lemma required_value:
  "env_extract environ key False None None dtype = Inr v \<Longrightarrow>
   \<exists>s x. environ key = Some s \<and> s \<noteq> [] \<and> dtype s = Inr x \<and> v = Some x"
  by (auto simp: env_extract_def Let_def andThen_Inr_iff split: if_splits option.splits)

lemma given_value:
  "env_extract environ key True None None as_str = Inr v \<Longrightarrow> truthy v \<Longrightarrow> truthy (environ key)"
  by (cases "environ key") (auto simp: env_extract_def as_str_def truthy_def split: if_splits)

end
