(* ===== verification/RateLimit.thy ===== *)
theory RateLimit
  imports Env
begin

text \<open>
  The token-bucket limiter in front of the password check, \<open>http/ratelimit.py\<close>. The bounded
  \<open>cachetools.TTLCache\<close> that holds the buckets is a parameter with its documented laws; token counts
  are exact reals. \<open>potential\<close>, the tokens a client could spend now, is the quantity the proofs follow.
\<close>

section \<open>The limiter\<close>

record bucket =
  bk_tokens :: real
  bk_updated :: real

record rate_limiter =
  rl_capacity :: real
  rl_refill :: real
  rl_maxsize :: nat
  rl_idle_ttl :: real

text \<open>\<open>cache.get(key)\<close> and \<open>cache[key] = bucket\<close>, at a time\<close>

record 'c ttl_cache =
  tc_get :: "real \<Rightarrow> 'c \<Rightarrow> string \<Rightarrow> bucket option"
  tc_set :: "real \<Rightarrow> 'c \<Rightarrow> string \<Rightarrow> bucket \<Rightarrow> 'c"

definition new_limiter :: "real \<Rightarrow> real \<Rightarrow> rate_limiter" where
  "new_limiter capacity refill_per_second =
     \<lparr>rl_capacity = capacity, rl_refill = refill_per_second, rl_maxsize = 100000, rl_idle_ttl = 3600\<rparr>"

definition current_bucket :: "'c ttl_cache \<Rightarrow> rate_limiter \<Rightarrow> real \<Rightarrow> string \<Rightarrow> 'c \<Rightarrow> bucket" where
  "current_bucket lib rl now key c =
     (case tc_get lib now c key of
        None \<Rightarrow> \<lparr>bk_tokens = rl_capacity rl, bk_updated = now\<rparr>
      | Some b \<Rightarrow>
          (let elapsed = now - bk_updated b in
           b\<lparr>bk_tokens := min (rl_capacity rl) (bk_tokens b + elapsed * rl_refill rl), bk_updated := now\<rparr>))"

definition allow :: "'c ttl_cache \<Rightarrow> rate_limiter \<Rightarrow> real \<Rightarrow> string \<Rightarrow> real \<Rightarrow> 'c \<Rightarrow> bool \<times> 'c" where
  "allow lib rl now key cost c =
     (let bucket = current_bucket lib rl now key c;
          allowed = bk_tokens bucket \<ge> cost;
          bucket = (if allowed then bucket\<lparr>bk_tokens := bk_tokens bucket - cost\<rparr> else bucket)
      in (allowed, tc_set lib now c key bucket))"

text \<open>\<open>request.remote_addr or request.ip or "unknown"\<close>\<close>

definition client_fingerprint :: "string \<Rightarrow> string option \<Rightarrow> string" where
  "client_fingerprint remote_addr ip =
     (if remote_addr \<noteq> [] then remote_addr else if truthy ip then the ip else ''unknown'')"

text \<open>
  \<open>app.ctx.auth_rate_limiter\<close> is None when limiting is off. False stands for the 429
  \<open>RateLimitedError\<close>.
\<close>

definition enforce_auth_rate_limit ::
  "'c ttl_cache \<Rightarrow> real \<Rightarrow> string \<Rightarrow> string option \<Rightarrow> (rate_limiter \<times> 'c) option \<Rightarrow> bool \<times> (rate_limiter \<times> 'c) option" where
  "enforce_auth_rate_limit lib now remote_addr ip limiter =
     (case limiter of
        None \<Rightarrow> (True, None)
      | Some (rl, c) \<Rightarrow>
          (case allow lib rl now (client_fingerprint remote_addr ip) 1 c of
             (ok, c') \<Rightarrow> (ok, Some (rl, c'))))"

text \<open>\<open>initialize\<close>: None for no limiter, otherwise the arguments \<open>RateLimiter\<close> is built with.\<close>

definition initialize :: "environ \<Rightarrow> py_error + (pyfloat option \<times> pyfloat option) option" where
  "initialize environ =
     andThen (flag environ ''AUTH_RATELIMIT_ENABLED'' ''true'') (\<lambda>enabled.
       if \<not> enabled then Inr None
       else
         andThen (env_extract environ ''AUTH_RATELIMIT_CAPACITY'' True (Some ''5'') None as_float) (\<lambda>capacity.
         andThen (env_extract environ ''AUTH_RATELIMIT_REFILL_PER_SECOND'' True (Some ''1.0'') None as_float) (\<lambda>refill.
         Inr (Some (capacity, refill)))))"

section \<open>Documented behaviour of the cache\<close>

text \<open>
  A stored bucket is found until it has been in the cache for the time to live, and storing one
  leaves the others alone as long as the cache has room for it.
\<close>

definition cached_keys :: "'c ttl_cache \<Rightarrow> real \<Rightarrow> 'c \<Rightarrow> string set" where
  "cached_keys lib t c = {k. tc_get lib t c k \<noteq> None}"

definition ttl_cache_laws :: "'c ttl_cache \<Rightarrow> rate_limiter \<Rightarrow> bool" where
  "ttl_cache_laws lib rl \<longleftrightarrow>
     (\<forall>t c k b. finite (cached_keys lib t c) \<and> card (insert k (cached_keys lib t c)) \<le> rl_maxsize rl \<longrightarrow>
        (\<forall>t' \<ge> t. tc_get lib t' (tc_set lib t c k b) k = (if t' < t + rl_idle_ttl rl then Some b else None) \<and>
           (\<forall>k'. k' \<noteq> k \<longrightarrow> tc_get lib t' (tc_set lib t c k b) k' = tc_get lib t' c k')))"

text \<open>Nothing is cached before the first attempt.\<close>

definition empty_cache :: "'c ttl_cache \<Rightarrow> 'c \<Rightarrow> bool" where
  "empty_cache lib c \<longleftrightarrow> (\<forall>t k. tc_get lib t c k = None)"

section \<open>The potential of a client\<close>

definition potential :: "'c ttl_cache \<Rightarrow> rate_limiter \<Rightarrow> real \<Rightarrow> string \<Rightarrow> 'c \<Rightarrow> real" where
  "potential lib rl t k c = bk_tokens (current_bucket lib rl t k c)"

definition entry_ok :: "'c ttl_cache \<Rightarrow> rate_limiter \<Rightarrow> real \<Rightarrow> 'c \<Rightarrow> string \<Rightarrow> bool" where
  "entry_ok lib rl t c k \<longleftrightarrow>
     (\<forall>t' \<ge> t. tc_get lib t' c k = None) \<or>
     (\<exists>b. 0 \<le> bk_tokens b \<and> bk_tokens b \<le> rl_capacity rl \<and> bk_updated b \<le> t \<and>
          (\<forall>t' \<ge> t. tc_get lib t' c k = (if t' < bk_updated b + rl_idle_ttl rl then Some b else None)))"

definition limiter_ok :: "'c ttl_cache \<Rightarrow> rate_limiter \<Rightarrow> string set \<Rightarrow> real \<Rightarrow> 'c \<Rightarrow> bool" where
  "limiter_ok lib rl K t c \<longleftrightarrow> (\<forall>k. entry_ok lib rl t c k) \<and> cached_keys lib t c \<subseteq> K"

text \<open>The limiter keeps the buckets of all clients and refills an idle bucket before dropping it.\<close>

definition limiter_sound :: "'c ttl_cache \<Rightarrow> rate_limiter \<Rightarrow> string set \<Rightarrow> bool" where
  "limiter_sound lib rl K \<longleftrightarrow>
     ttl_cache_laws lib rl \<and> 0 \<le> rl_capacity rl \<and> 0 \<le> rl_refill rl \<and> 0 < rl_idle_ttl rl \<and>
     rl_capacity rl \<le> rl_refill rl * rl_idle_ttl rl \<and> finite K \<and> card K \<le> rl_maxsize rl"

lemma empty_cache_ok: "empty_cache lib c \<Longrightarrow> limiter_ok lib rl K t c"
  by (simp add: empty_cache_def limiter_ok_def entry_ok_def cached_keys_def)

lemma entry_ok_later: "entry_ok lib rl t c k \<Longrightarrow> t \<le> t' \<Longrightarrow> entry_ok lib rl t' c k"
  unfolding entry_ok_def by (meson order_trans)

lemma cached_keys_later:
  assumes "limiter_ok lib rl K t c" "t \<le> t'"
  shows "cached_keys lib t' c \<subseteq> cached_keys lib t c"
proof
  fix k
  assume k: "k \<in> cached_keys lib t' c"
  from assms(1) have "entry_ok lib rl t c k" by (simp add: limiter_ok_def)
  then show "k \<in> cached_keys lib t c"
  proof (unfold entry_ok_def, elim disjE exE conjE)
    fix b
    assume "\<forall>t' \<ge> t. tc_get lib t' c k = (if t' < bk_updated b + rl_idle_ttl rl then Some b else None)"
    with k assms(2) have "tc_get lib t c k = Some b" by (force simp: cached_keys_def split: if_splits)
    then show ?thesis by (simp add: cached_keys_def)
  qed (use k assms(2) in \<open>simp add: cached_keys_def\<close>)
qed

lemma limiter_ok_later: "limiter_ok lib rl K t c \<Longrightarrow> t \<le> t' \<Longrightarrow> limiter_ok lib rl K t' c"
  using cached_keys_later [of lib rl K t c t'] entry_ok_later [of lib rl t c _ t']
  unfolding limiter_ok_def by blast

lemma cache_set_laws:
  assumes "limiter_sound lib rl K" "limiter_ok lib rl K t c" "k \<in> K" "t \<le> t'"
  shows "tc_get lib t' (tc_set lib t c k b) k = (if t' < t + rl_idle_ttl rl then Some b else None)"
    and "k' \<noteq> k \<Longrightarrow> tc_get lib t' (tc_set lib t c k b) k' = tc_get lib t' c k'"
proof -
  from assms have "insert k (cached_keys lib t c) \<subseteq> K" "finite K" "card K \<le> rl_maxsize rl"
    by (auto simp: limiter_ok_def limiter_sound_def)
  then have "finite (cached_keys lib t c)" "card (insert k (cached_keys lib t c)) \<le> rl_maxsize rl"
    by (auto intro: finite_subset order_trans [OF card_mono])
  moreover have "ttl_cache_laws lib rl" using assms(1) by (simp add: limiter_sound_def)
  ultimately have law: "\<forall>t' \<ge> t. tc_get lib t' (tc_set lib t c k b) k = (if t' < t + rl_idle_ttl rl then Some b else None) \<and>
      (\<forall>k'. k' \<noteq> k \<longrightarrow> tc_get lib t' (tc_set lib t c k b) k' = tc_get lib t' c k')"
    unfolding ttl_cache_laws_def by blast
  show "tc_get lib t' (tc_set lib t c k b) k = (if t' < t + rl_idle_ttl rl then Some b else None)"
    using law assms(4) by blast
  show "k' \<noteq> k \<Longrightarrow> tc_get lib t' (tc_set lib t c k b) k' = tc_get lib t' c k'"
    using law assms(4) by blast
qed

lemma current_bucket_updated [simp]: "bk_updated (current_bucket lib rl now key c) = now"
  by (simp add: current_bucket_def Let_def split: option.split)

lemma potential_range:
  assumes "limiter_sound lib rl K" "entry_ok lib rl t c k"
  shows "0 \<le> potential lib rl t k c" "potential lib rl t k c \<le> rl_capacity rl"
proof -
  have "tc_get lib t c k = None \<or> (\<exists>b. 0 \<le> bk_tokens b \<and> bk_updated b \<le> t \<and> tc_get lib t c k = Some b)"
    using assms(2) unfolding entry_ok_def by (metis order_refl)
  moreover have "0 \<le> rl_capacity rl" "0 \<le> rl_refill rl" using assms(1) by (auto simp: limiter_sound_def)
  ultimately show "0 \<le> potential lib rl t k c" "potential lib rl t k c \<le> rl_capacity rl"
    by (auto simp: potential_def current_bucket_def Let_def)
qed

lemma min_carry: "0 \<le> y \<Longrightarrow> min c (min c (a + x) + y) = min c (a + (x + y))" for a c x y :: real
  by (simp add: min_def)

lemma potential_grows:
  assumes "limiter_sound lib rl K" "entry_ok lib rl t c k" "t \<le> t'"
  shows "potential lib rl t' k c = min (rl_capacity rl) (potential lib rl t k c + (t' - t) * rl_refill rl)"
proof -
  let ?C = "rl_capacity rl" and ?r = "rl_refill rl" and ?ttl = "rl_idle_ttl rl"
  have r: "0 \<le> ?r" "0 \<le> ?C" "?C \<le> ?r * ?ttl" using assms(1) by (auto simp: limiter_sound_def)
  have gain: "0 \<le> (t' - t) * ?r" using r(1) assms(3) by simp
  from assms(2) consider "\<forall>t' \<ge> t. tc_get lib t' c k = None"
    | b where "0 \<le> bk_tokens b" "bk_tokens b \<le> ?C" "bk_updated b \<le> t"
        "\<forall>t' \<ge> t. tc_get lib t' c k = (if t' < bk_updated b + ?ttl then Some b else None)"
    unfolding entry_ok_def by blast
  then show ?thesis
  proof cases
    case 1
    with assms(3) gain show ?thesis by (simp add: potential_def current_bucket_def)
  next
    case 2
    have full: "?C \<le> bk_tokens b + (s - bk_updated b) * ?r" if "bk_updated b + ?ttl \<le> s" for s
    proof -
      have "?ttl * ?r \<le> (s - bk_updated b) * ?r" using that r(1) by (intro mult_right_mono) auto
      with r(3) 2(1) show ?thesis by (simp add: mult.commute)
    qed
    have pot: "potential lib rl s k c = min ?C (bk_tokens b + (s - bk_updated b) * ?r)" if "t \<le> s" for s
      using 2 that full [of s] by (auto simp: potential_def current_bucket_def Let_def)
    have split: "(t' - bk_updated b) * ?r = (t - bk_updated b) * ?r + (t' - t) * ?r" by algebra
    show ?thesis unfolding pot [OF assms(3)] pot [OF order_refl] split by (rule min_carry [OF gain, symmetric])
  qed
qed

lemma allow_step:
  assumes s: "limiter_sound lib rl K" and ok: "limiter_ok lib rl K t c" and key: "key \<in> K"
    and st: "allow lib rl t key 1 c = (yes, c')"
  shows "limiter_ok lib rl K t c'"
    and "yes \<longleftrightarrow> 1 \<le> potential lib rl t key c"
    and "potential lib rl t k c' = potential lib rl t k c - (if yes \<and> k = key then 1 else 0)"
proof -
  let ?b = "current_bucket lib rl t key c"
  let ?b' = "if yes then ?b\<lparr>bk_tokens := bk_tokens ?b - 1\<rparr> else ?b"
  have c': "c' = tc_set lib t c key ?b'" and yes: "yes \<longleftrightarrow> 1 \<le> bk_tokens ?b"
    using st by (auto simp: allow_def Let_def split: if_splits)
  show "yes \<longleftrightarrow> 1 \<le> potential lib rl t key c" using yes by (simp add: potential_def)
  have ent: "entry_ok lib rl t c x" for x using ok by (simp add: limiter_ok_def)
  have range: "0 \<le> bk_tokens ?b'" "bk_tokens ?b' \<le> rl_capacity rl" "bk_updated ?b' = t"
    using potential_range [OF s ent, of key] yes by (auto simp: potential_def)
  note laws = cache_set_laws [OF s ok key]
  have ent': "entry_ok lib rl t c' x" for x
  proof (cases "x = key")
    case True
    then show ?thesis unfolding entry_ok_def c' using laws(1) range by (intro disjI2 exI [of _ ?b']) auto
  next
    case False
    then show ?thesis using ent [of x] laws(2) unfolding entry_ok_def c' by simp
  qed
  have "x \<in> K" if "tc_get lib t c' x \<noteq> None" for x
  proof (cases "x = key")
    case False
    with that have "x \<in> cached_keys lib t c" using laws(2) [of t x] by (simp add: c' cached_keys_def)
    with ok show ?thesis by (auto simp: limiter_ok_def)
  qed (use key in simp)
  then have "cached_keys lib t c' \<subseteq> K" unfolding cached_keys_def by blast
  with ent' show "limiter_ok lib rl K t c'" by (simp add: limiter_ok_def)
  have ttl: "0 < rl_idle_ttl rl" using s by (simp add: limiter_sound_def)
  show "potential lib rl t k c' = potential lib rl t k c - (if yes \<and> k = key then 1 else 0)"
  proof (cases "k = key")
    case True
    have "tc_get lib t c' key = Some ?b'" using laws(1) [of t] ttl unfolding c' by simp
    with True range(2,3) show ?thesis by (simp add: potential_def current_bucket_def [of lib rl t key c'])
  next
    case False
    then show ?thesis using laws(2) [of t k ?b'] by (simp add: potential_def current_bucket_def c')
  qed
qed

section \<open>A sequence of attempts\<close>

text \<open>How many attempts of client \<open>k\<close> pass, and the buckets afterwards.\<close>

fun attempts :: "'c ttl_cache \<Rightarrow> rate_limiter \<Rightarrow> string \<Rightarrow> (real \<times> string) list \<Rightarrow> 'c \<Rightarrow> nat \<times> 'c" where
  "attempts lib rl k [] c = (0, c)"
| "attempts lib rl k ((t, key) # rest) c =
     (case allow lib rl t key 1 c of (yes, c1) \<Rightarrow>
        (case attempts lib rl k rest c1 of (n, c2) \<Rightarrow> ((if yes \<and> key = k then Suc n else n), c2)))"

definition timed :: "real \<Rightarrow> real \<Rightarrow> string set \<Rightarrow> (real \<times> string) list \<Rightarrow> bool" where
  "timed t0 t1 K reqs \<longleftrightarrow> sorted (map fst reqs) \<and> (\<forall>(t, key) \<in> set reqs. t0 \<le> t \<and> t \<le> t1 \<and> key \<in> K)"

lemma timed_Cons:
  "timed t0 t1 K ((t, key) # rest) \<longleftrightarrow> t0 \<le> t \<and> t \<le> t1 \<and> key \<in> K \<and> timed t t1 K rest"
  if "t0 \<le> t1"
  using that by (auto simp: timed_def)

lemma attempts_spend_the_potential:
  assumes s: "limiter_sound lib rl K"
  shows "limiter_ok lib rl K t0 c \<Longrightarrow> t0 \<le> t1 \<Longrightarrow> timed t0 t1 K reqs \<Longrightarrow> attempts lib rl k reqs c = (n, c') \<Longrightarrow>
    limiter_ok lib rl K t1 c' \<and>
    n + potential lib rl t1 k c' \<le> potential lib rl t0 k c + (t1 - t0) * rl_refill rl \<and>
    min (rl_capacity rl) (potential lib rl t0 k c + (t1 - t0) * rl_refill rl) \<le> n + potential lib rl t1 k c'"
proof (induction reqs arbitrary: t0 c n)
  case Nil
  then have "potential lib rl t1 k c' = min (rl_capacity rl) (potential lib rl t0 k c + (t1 - t0) * rl_refill rl)"
    using potential_grows [OF s, of t0 c k t1] by (simp add: limiter_ok_def)
  with Nil show ?case using limiter_ok_later [of lib rl K t0 c t1] by simp
next
  case (Cons r rest)
  obtain t key where r: "r = (t, key)" by (cases r)
  from Cons.prems(2,3) r have t: "t0 \<le> t" "t \<le> t1" "key \<in> K" "timed t t1 K rest"
    by (simp_all add: timed_Cons)
  obtain yes c1 where al: "allow lib rl t key 1 c = (yes, c1)" by (cases "allow lib rl t key 1 c")
  obtain m where at: "attempts lib rl k rest c1 = (m, c')" and n: "n = (if yes \<and> key = k then Suc m else m)"
    using Cons.prems(4) r al by (auto split: prod.splits)
  have ok: "limiter_ok lib rl K t c" by (rule limiter_ok_later [OF Cons.prems(1) t(1)])
  note step = allow_step [OF s ok t(3) al]
  have grow: "potential lib rl t k c = min (rl_capacity rl) (potential lib rl t0 k c + (t - t0) * rl_refill rl)"
    using potential_grows [OF s _ t(1), of c k] Cons.prems(1) by (simp add: limiter_ok_def)
  have gain: "0 \<le> (t1 - t) * rl_refill rl" using s t(2) by (simp add: limiter_sound_def)
  have split: "(t1 - t0) * rl_refill rl = (t - t0) * rl_refill rl + (t1 - t) * rl_refill rl" by algebra
  from Cons.IH [OF step(1) t(2,4) at] step(3) [of k] grow gain split n
  show ?case by (auto simp: min_def split: if_splits)
qed


text \<open>
  Being refused costs nothing. A client whose attempts were all refused since a moment passes as
  soon as one token has been refilled after it, however often it tried in between.
\<close>
theorem throttled_client_recovers:
  assumes "limiter_sound lib rl K" "empty_cache lib c" "1 \<le> rl_capacity rl" "k \<in> K"
    and "tstart \<le> t0" "timed tstart t0 K before" "timed t0 t1 K reqs"
    and "t0 \<le> t1" "1 \<le> (t1 - t0) * rl_refill rl"
    and "fst (attempts lib rl k reqs (snd (attempts lib rl k before c))) = 0"
  shows "fst (allow lib rl t1 k 1 (snd (attempts lib rl k reqs (snd (attempts lib rl k before c)))))"
proof -
  obtain n0 c0 where a0: "attempts lib rl k before c = (n0, c0)" by (cases "attempts lib rl k before c")
  obtain c1 where a1: "attempts lib rl k reqs c0 = (0, c1)"
    using assms(10) a0 by (cases "attempts lib rl k reqs c0") auto
  have ok0: "limiter_ok lib rl K t0 c0"
    using attempts_spend_the_potential [OF assms(1) empty_cache_ok [OF assms(2)] assms(5,6) a0] by blast
  note run = attempts_spend_the_potential [OF assms(1) ok0 assms(8,7) a1]
  have "entry_ok lib rl t0 c0 k" using ok0 by (simp add: limiter_ok_def)
  then have "0 \<le> potential lib rl t0 k c0" by (rule potential_range(1) [OF assms(1)])
  with assms(3,9) have "1 \<le> min (rl_capacity rl) (potential lib rl t0 k c0 + (t1 - t0) * rl_refill rl)" by simp
  then have "1 \<le> potential lib rl t1 k c1" using run order_trans by fastforce
  moreover obtain yes c2 where al: "allow lib rl t1 k 1 c1 = (yes, c2)" by (cases "allow lib rl t1 k 1 c1")
  ultimately show ?thesis using allow_step(2) [OF assms(1) _ assms(4) al] run a0 a1 by simp
qed

text \<open>
  A flag of the environment that is set to the empty string is not read as false: its reader
  raises, in front of every default, so the server does not start.
\<close>
theorem empty_flag_raises:
  "flag (e(key \<mapsto> [])) key d = Inl AttributeError \<and>
   initialize (e(''AUTH_RATELIMIT_ENABLED'' \<mapsto> [])) = Inl AttributeError"
  by (simp add: flag_cases initialize_def)

section \<open>A cache with the documented behaviour\<close>

definition list_cache :: "real \<Rightarrow> (string, real \<times> bucket) dict ttl_cache" where
  "list_cache ttl = \<lparr>tc_get = (\<lambda>t c k. case map_of c k of Some (s, b) \<Rightarrow> if t < s + ttl then Some b else None | None \<Rightarrow> None),
     tc_set = (\<lambda>t c k b. AList.update k (t, b) c)\<rparr>"

lemma list_cache_laws: "ttl_cache_laws (list_cache (rl_idle_ttl rl)) rl"
  by (simp add: ttl_cache_laws_def list_cache_def dict_simps)

lemma list_cache_sound:
  "0 \<le> c \<Longrightarrow> c \<le> r * 3600 \<Longrightarrow> finite K \<Longrightarrow> card K \<le> 100000 \<Longrightarrow>
   limiter_sound (list_cache 3600) (new_limiter c r) K"
  using list_cache_laws [of "new_limiter c r"] by (simp add: limiter_sound_def new_limiter_def)

lemma list_cache_empty: "empty_cache (list_cache ttl) []"
  by (simp add: empty_cache_def list_cache_def)


theorem throttled_client_recovers_witness:
  "fst (allow (list_cache 3600) (new_limiter 1 1) 1 ''ip'' 1
     (snd (attempts (list_cache 3600) (new_limiter 1 1) ''ip'' [(0, ''ip''), (1/2, ''ip'')]
        (snd (attempts (list_cache 3600) (new_limiter 1 1) ''ip'' [(0, ''ip'')] [])))))"
  by (rule throttled_client_recovers [of "list_cache 3600" "new_limiter 1 1" "{''ip''}" "[]" "''ip''" 0 0 _ 1])
     (simp_all add: list_cache_sound list_cache_empty timed_def,
      simp_all add: new_limiter_def list_cache_def allow_def current_bucket_def)

end
