(* ===== verification/HttpGate.thy ===== *)
theory HttpGate
  imports OpaAuth RateLimit
begin

text \<open>
  What the route handlers share: the request as a handler sees it, the state of the application that
  handlers read and change (\<open>app.ctx\<close>), HTTP failures (\<open>exceptions/http.py\<close> and Sanic's), chaining
  of steps that may raise, and the throttle in front of every password check.
\<close>

section \<open>Requests, failures, application state\<close>

text \<open>Sanic's credentials: \<open>username\<close> and \<open>password\<close> raise \<open>AttributeError\<close> unless they are Basic.\<close>

datatype credentials = BasicAuth string string | OtherAuth

record request =
  rq_headers :: "string \<Rightarrow> string option"
  rq_credentials :: "credentials option"
  rq_remote_addr :: string
  rq_ip :: "string option"

text \<open>A \<open>SanicException\<close> with its status, or any other exception that leaves the handler\<close>

datatype failure = Http nat | Unhandled py_error

abbreviation BadRequest :: failure where "BadRequest \<equiv> Http 400"
abbreviation Unauthorized :: failure where "Unauthorized \<equiv> Http 401"
abbreviation NotFound :: failure where "NotFound \<equiv> Http 404"
abbreviation RateLimited :: failure where "RateLimited \<equiv> Http 429"

fun http_status :: "failure \<Rightarrow> nat" where
  "http_status (Http n) = n"
| "http_status (Unhandled _) = 500"

record 'k world =
  w_cache :: "'k ttl_cache"
  w_opa :: "opa_client option"
  w_checkpw :: bcrypt
  w_nmea :: "string \<Rightarrow> nmea_outcome"
  w_quality :: quality_config

record 'k app =
  ap_caster :: caster
  ap_limiter :: "(rate_limiter \<times> 'k) option"

section \<open>Steps\<close>

type_synonym ('k, 'a) handler = "'k app \<Rightarrow> (failure + 'a) \<times> 'k app"

definition fail :: "failure \<Rightarrow> ('k, 'a) handler" where
  "fail e ap = (Inl e, ap)"

definition return :: "'a \<Rightarrow> ('k, 'a) handler" where
  "return x ap = (Inr x, ap)"

definition then_do :: "('k, 'a) handler \<Rightarrow> ('a \<Rightarrow> ('k, 'b) handler) \<Rightarrow> ('k, 'b) handler" where
  "then_do h k ap = (case h ap of (Inl e, ap') \<Rightarrow> (Inl e, ap') | (Inr x, ap') \<Rightarrow> k x ap')"

definition require_that :: "bool \<Rightarrow> failure \<Rightarrow> ('k, unit) handler" where
  "require_that ok e = (if ok then return () else fail e)"

text \<open>A step of the caster; its exceptions are not HTTP errors.\<close>

definition on_caster :: "(caster \<Rightarrow> 'a outcome) \<Rightarrow> ('k, 'a) handler" where
  "on_caster f ap = (case f (ap_caster ap) of (r, c) \<Rightarrow> (map_sum Unhandled id r, ap\<lparr>ap_caster := c\<rparr>))"

named_theorems handler_simps \<open>running a handler\<close>

lemma step_simps [handler_simps]:
  "fail e ap = (Inl e, ap)" "return x ap = (Inr x, ap)"
  "require_that ok e ap = (if ok then (Inr (), ap) else (Inl e, ap))"
  by (simp_all add: fail_def return_def require_that_def)

lemma then_do_Inr [handler_simps]: "h ap = (Inr x, ap') \<Longrightarrow> then_do h k ap = k x ap'"
  and then_do_Inl [handler_simps]: "h ap = (Inl e, ap') \<Longrightarrow> then_do h k ap = (Inl e, ap')"
  by (simp_all add: then_do_def)

lemma then_do_Inr_iff:
  "then_do h k ap = (Inr y, ap') \<longleftrightarrow> (\<exists>x ap1. h ap = (Inr x, ap1) \<and> k x ap1 = (Inr y, ap'))"
  by (auto simp: then_do_def split: prod.splits sum.splits)

lemma then_do_Inl_iff:
  "then_do h k ap = (Inl e, ap') \<longleftrightarrow>
     h ap = (Inl e, ap') \<or> (\<exists>x ap1. h ap = (Inr x, ap1) \<and> k x ap1 = (Inl e, ap'))"
  by (auto simp: then_do_def split: prod.splits sum.splits)

text \<open>What every step keeps, a chain of steps keeps.\<close>

lemma then_do_keeps:
  assumes "P ap" "P (snd (h ap))" "\<And>x ap1. P ap1 \<Longrightarrow> P (snd (k x ap1))"
  shows "P (snd (then_do h k ap))"
  using assms by (auto simp: then_do_def split: prod.split sum.split)

section \<open>The throttle\<close>

definition charge :: "'k world \<Rightarrow> real \<Rightarrow> request \<Rightarrow> ('k, unit) handler" where
  "charge w now rq ap =
     (case enforce_auth_rate_limit (w_cache w) now (rq_remote_addr rq) (rq_ip rq) (ap_limiter ap) of
        (ok, limiter) \<Rightarrow> (if ok then Inr () else Inl RateLimited, ap\<lparr>ap_limiter := limiter\<rparr>))"

text \<open>\<open>request.credentials.username\<close> and \<open>.password\<close>\<close>

definition basic_credentials :: "request \<Rightarrow> ('k, string \<times> string) handler" where
  "basic_credentials rq =
     (case rq_credentials rq of
        Some (BasicAuth u p) \<Rightarrow> return (u, p)
      | _ \<Rightarrow> fail (Unhandled AttributeError))"

definition header_is :: "request \<Rightarrow> string \<Rightarrow> string \<Rightarrow> bool" where
  "header_is rq k v \<longleftrightarrow> py_lower (opt_default [] (rq_headers rq k)) = py_lower v"

definition NTRIP_VERSION :: string where "NTRIP_VERSION = ''Ntrip-Version''"
definition NTRIP_VERSION_2 :: string where "NTRIP_VERSION_2 = ''Ntrip/2.0''"
definition NTRIP_GGA :: string where "NTRIP_GGA = ''Ntrip-GGA''"
definition NTRIP_STR :: string where "NTRIP_STR = ''Ntrip-STR''"
definition CONTENT_TYPE_GNSS :: string where "CONTENT_TYPE_GNSS = ''gnss/data''"

text \<open>
  \<open>if not request.credentials: raise Unauthorized\<close>, then the throttle, then the credentials: the part
  the three password-checking routes have in common.
\<close>

definition throttled_credentials :: "'k world \<Rightarrow> real \<Rightarrow> request \<Rightarrow> ('k, string \<times> string) handler" where
  "throttled_credentials w now rq =
     then_do (require_that (rq_credentials rq \<noteq> None) Unauthorized) (\<lambda>_.
     then_do (charge w now rq) (\<lambda>_. basic_credentials rq))"

definition may_attempt :: "'k world \<Rightarrow> real \<Rightarrow> request \<Rightarrow> 'k app \<Rightarrow> bool" where
  "may_attempt w now rq ap \<longleftrightarrow>
     fst (enforce_auth_rate_limit (w_cache w) now (rq_remote_addr rq) (rq_ip rq) (ap_limiter ap))"

definition charged :: "'k world \<Rightarrow> real \<Rightarrow> request \<Rightarrow> 'k app \<Rightarrow> 'k app" where
  "charged w now rq ap =
     ap\<lparr>ap_limiter := snd (enforce_auth_rate_limit (w_cache w) now (rq_remote_addr rq) (rq_ip rq) (ap_limiter ap))\<rparr>"

lemma charged_caster [simp]: "ap_caster (charged w now rq ap) = ap_caster ap"
  by (simp add: charged_def)

lemma throttled_credentials_cases [handler_simps]:
  "throttled_credentials w now rq ap =
     (case rq_credentials rq of
        None \<Rightarrow> (Inl Unauthorized, ap)
      | Some cr \<Rightarrow>
          (if may_attempt w now rq ap
           then (case cr of BasicAuth u p \<Rightarrow> Inr (u, p) | OtherAuth \<Rightarrow> Inl (Unhandled AttributeError))
           else Inl RateLimited, charged w now rq ap))"
  by (auto simp: throttled_credentials_def then_do_def step_simps charge_def charged_def may_attempt_def
      basic_credentials_def split: option.split prod.split credentials.split)

section \<open>Environment of the NTRIP routes\<close>

text \<open>
  The \<open>before_server_start\<close> listeners of \<open>services/v1/ntrip/base.py\<close>: the check of the required
  variables, then the caster. A present caster is kept; an empty \<open>OPA_URL\<close> gives
  \<open>OPAClient(None)\<close>, which has no \<open>rstrip\<close>.
\<close>

definition ntrip_setup :: "environ \<Rightarrow> opa_service \<Rightarrow> (opa_client \<times> caster) option \<Rightarrow> py_error + (opa_client \<times> caster)" where
  "ntrip_setup environ session existing =
     andThen (verify_environ environ [''OPA_URL'']) (\<lambda>_.
     case existing of
       Some x \<Rightarrow> Inr x
     | None \<Rightarrow>
         andThen (env_extract environ ''OPA_URL'' True (Some ''http://opa:8181'') None as_str) (\<lambda>opa_url.
           case opa_url of
             None \<Rightarrow> Inl AttributeError
           | Some url \<Rightarrow> Inr (new_opa_client url session, start (new_caster (Some 3600) 4096))))"

lemma ntrip_setup_started:
  "ntrip_setup environ session None = Inr (opa, c) \<Longrightarrow> caster_ok c \<and> cs_queue c = Some []"
  by (auto simp: ntrip_setup_def andThen_Inr_iff start_def caster_ok_start_stop(1) [unfolded start_def]
      split: option.splits)

end
