(* ===== verification/NtripPut.thy ===== *)
theory NtripPut
  imports HttpGate
begin

text \<open>
  The base station's route, \<open>services/v1/ntrip/put.py\<close>. The handler is split where it awaits OPA: the
  question is asked in one state, the verdict is acted on in a later one, so two handlers can be
  interleaved; \<open>put\<close> is the handler with nothing in between. Logging, the socket option and the
  early 200 response are not modelled.
\<close>

section \<open>The handler\<close>

definition put_guard :: "'k world \<Rightarrow> real \<Rightarrow> request \<Rightarrow> ('k, string \<times> string) handler" where
  "put_guard w now rq =
     then_do (require_that (header_is rq NTRIP_VERSION NTRIP_VERSION_2) BadRequest) (\<lambda>_.
     then_do (require_that (header_is rq ''Content-Type'' CONTENT_TYPE_GNSS) BadRequest) (\<lambda>_.
     throttled_credentials w now rq))"

text \<open>An absent or empty \<open>Ntrip-STR\<close> gives no metadata. The parser of this model never raises.\<close>

definition put_metadata :: "request \<Rightarrow> string \<Rightarrow> metadata" where
  "put_metadata rq m =
     (if truthy (rq_headers rq NTRIP_STR) then parse_ntrip_str (rq_headers rq NTRIP_STR) m else no_metadata)"

definition put_register :: "real \<Rightarrow> request \<Rightarrow> string \<Rightarrow> ('k, unit) handler" where
  "put_register now rq m ap =
     (case register now m (put_metadata rq m) (ap_caster ap) of
        (Inl e, c) \<Rightarrow> (Inl (if e = ValueError then BadRequest else Unhandled e), ap\<lparr>ap_caster := c\<rparr>)
      | (Inr _, c) \<Rightarrow> (Inr (), ap\<lparr>ap_caster := c\<rparr>))"

text \<open>From OPA's reply to the registration.\<close>

definition put_verdict :: "'k world \<Rightarrow> real \<Rightarrow> request \<Rightarrow> string \<Rightarrow> string \<Rightarrow> json \<Rightarrow> ('k, unit) handler" where
  "put_verdict w now rq m password result =
     then_do (on_caster (base_station_verdict (w_checkpw w) password result)) (\<lambda>allowed.
     then_do (require_that allowed Unauthorized) (\<lambda>_. put_register now rq m))"

definition put_question :: "string \<Rightarrow> string \<Rightarrow> 'k app \<Rightarrow> json" where
  "put_question username m ap = base_station_input username m (ap_caster ap)"

definition put_admit :: "'k world \<Rightarrow> real \<Rightarrow> request \<Rightarrow> string \<Rightarrow> ('k, unit) handler" where
  "put_admit w now rq m =
     then_do (put_guard w now rq) (\<lambda>(username, password) ap.
       case w_opa w of
         None \<Rightarrow> fail Unauthorized ap
       | Some opa \<Rightarrow>
           put_verdict w now rq m password (query opa ''corshub/base_station'' (put_question username m ap)) ap)"

text \<open>One chunk of the streamed body; the acknowledgement is the number of rovers reached.\<close>

definition put_chunk :: "'k world \<Rightarrow> string \<Rightarrow> real \<times> frame \<Rightarrow> ('k, string list) handler" where
  "put_chunk w m tf =
     (if snd (snd tf) = [] then return []
      else then_do (on_caster (publish (w_quality w) (fst tf) m (snd tf))) (\<lambda>acks. return [str_of_nat acks]))"

fun put_chunks :: "'k world \<Rightarrow> string \<Rightarrow> (real \<times> frame) list \<Rightarrow> ('k, string list) handler" where
  "put_chunks w m [] ap = return [] ap"
| "put_chunks w m (tf # rest) ap =
     then_do (put_chunk w m tf) (\<lambda>a. then_do (put_chunks w m rest) (\<lambda>as. return (a @ as))) ap"

text \<open>\<open>finally: await caster.close(mountpoint)\<close>: an exception of \<open>close\<close> replaces the outcome.\<close>

definition and_close :: "string \<Rightarrow> ('k, 'a) handler \<Rightarrow> ('k, 'a) handler" where
  "and_close m h ap =
     (case h ap of (r, ap1) \<Rightarrow>
        (case on_caster (close_mountpoint m) ap1 of
           (Inl e, ap2) \<Rightarrow> (Inl e, ap2)
         | (Inr _, ap2) \<Rightarrow> (r, ap2)))"

text \<open>A request with a stream, or with its whole body\<close>

datatype put_body = Streamed "(real \<times> frame) list" | Whole real frame

definition put_transfer :: "'k world \<Rightarrow> string \<Rightarrow> put_body \<Rightarrow> ('k, string list) handler" where
  "put_transfer w m body =
     (case body of
        Streamed chunks \<Rightarrow> and_close m (put_chunks w m chunks)
      | Whole now f \<Rightarrow>
          then_do (if snd f = [] then return 0 else on_caster (publish (w_quality w) now m f)) (\<lambda>acks.
          then_do (on_caster (close_mountpoint m)) (\<lambda>_. return [str_of_nat acks])))"

definition put :: "'k world \<Rightarrow> real \<Rightarrow> request \<Rightarrow> string \<Rightarrow> put_body \<Rightarrow> ('k, string list) handler" where
  "put w now rq m body = then_do (put_admit w now rq m) (\<lambda>_. put_transfer w m body)"

section \<open>Who is admitted\<close>

lemma put_guard_cases:
  "put_guard w now rq ap =
     (if \<not> header_is rq NTRIP_VERSION NTRIP_VERSION_2 \<or> \<not> header_is rq ''Content-Type'' CONTENT_TYPE_GNSS
      then (Inl BadRequest, ap)
      else throttled_credentials w now rq ap)"
  by (simp add: put_guard_def then_do_def step_simps)

text \<open>The parts of the caster no authentication changes.\<close>

definition same_registry :: "caster \<Rightarrow> caster \<Rightarrow> bool" where
  "same_registry c c' \<longleftrightarrow>
     cs_mountpoints c' = cs_mountpoints c \<and> cs_transports c' = cs_transports c \<and> cs_store c' = cs_store c \<and>
     cs_next c' = cs_next c \<and> cs_queue c' = cs_queue c \<and> cs_positions c' = cs_positions c"

lemma same_registry_refl [simp]: "same_registry c c"
  by (simp add: same_registry_def)

lemma same_registry_trans: "same_registry a b \<Longrightarrow> same_registry b c \<Longrightarrow> same_registry a c"
  by (simp add: same_registry_def)

lemma verdict_keeps_registry:
  "same_registry c (snd (base_station_verdict checkpw pw result c))"
  "same_registry c (snd (rover_verdict checkpw pw result c))"
  by (simp_all add: same_registry_def base_station_verdict_def rover_verdict_def auth_result_def log_caster_def
      Let_def split: sum.split)

lemma verdict_keeps_ok:
  "caster_ok c \<Longrightarrow> caster_ok (snd (base_station_verdict checkpw pw result c))"
  "caster_ok c \<Longrightarrow> caster_ok (snd (rover_verdict checkpw pw result c))"
  by (simp_all add: base_station_verdict_def rover_verdict_def auth_result_def Let_def split: sum.split)

lemma register_refused_keeps: "register now m md c = (Inl e, c') \<Longrightarrow> c' = c"
  by (auto simp: register_def Let_def split: option.splits sum.splits)

lemma put_register_cases:
  "put_register now rq m ap = (r, ap') \<Longrightarrow>
     (r = Inr () \<or> ap' = ap) \<and> ap_caster ap' = snd (register now m (put_metadata rq m) (ap_caster ap)) \<and>
     (r = Inr () \<longleftrightarrow> (\<exists>mp. fst (register now m (put_metadata rq m) (ap_caster ap)) = Inr mp))"
  by (auto simp: put_register_def split: prod.splits sum.splits dest: register_refused_keeps)

lemma put_verdict_refused:
  assumes "put_verdict w now rq m pw result ap = (Inl e, ap')"
  shows "same_registry (ap_caster ap) (ap_caster ap')"
proof -
  have v: "same_registry (ap_caster ap) (snd (base_station_verdict (w_checkpw w) pw result (ap_caster ap)))"
    by (rule verdict_keeps_registry)
  from assms show ?thesis
    unfolding put_verdict_def then_do_Inl_iff
    by (auto simp: on_caster_def step_simps v split: prod.splits if_splits dest: put_register_cases)
       (use v in \<open>auto simp: put_register_def split: prod.splits sum.splits dest!: register_refused_keeps\<close>)
qed


text \<open>The verdict on the repository's policies.\<close>

lemma put_verdict_policy:
  "put_verdict w now rq m pw (query (policy_client base parse t data) ''corshub/base_station'' (base_station_input u m c0)) ap =
     then_do (on_caster (\<lambda>c. (Inr (base_station_decision parse t data (w_checkpw w) u pw m (available m c0)),
                              auth_result ''base_station'' (base_station_decision parse t data (w_checkpw w) u pw m (available m c0)) c)))
       (\<lambda>allowed. then_do (require_that allowed Unauthorized) (\<lambda>_. put_register now rq m)) ap"
proof -
  obtain r where r: "query (policy_client base parse t data) ''corshub/base_station'' (base_station_input u m c0) = JObj r"
    by (auto simp: query_policies base_station_policy_def Let_def)
  have "fst (base_station_verdict (w_checkpw w) pw (JObj r) c0) =
      Inr (base_station_decision parse t data (w_checkpw w) u pw m (available m c0))"
    using authenticate_base_station_decides [of base parse t data "w_checkpw w" u pw m c0]
    by (simp add: authenticate_base_station_def r)
  then have "base_station_verdict (w_checkpw w) pw (JObj r) c =
      (Inr (base_station_decision parse t data (w_checkpw w) u pw m (available m c0)),
       auth_result ''base_station'' (base_station_decision parse t data (w_checkpw w) u pw m (available m c0)) c)" for c
    by (auto simp: base_station_verdict_def Let_def)
  then show ?thesis by (simp add: put_verdict_def r then_do_def [of "on_caster _"] on_caster_def)
qed

lemma register_ignores_log: "fst (register now m md (auth_result role ok c)) = fst (register now m md c)"
  by (simp add: register_def auth_result_def log_caster_def Let_def split: option.split sum.split)

lemma put_admit_policy:
  assumes "w_opa w = Some (policy_client base parse t data)"
  shows "put_admit w now rq m ap =
      (if \<not> header_is rq NTRIP_VERSION NTRIP_VERSION_2 \<or> \<not> header_is rq ''Content-Type'' CONTENT_TYPE_GNSS
       then (Inl BadRequest, ap)
       else case rq_credentials rq of
           None \<Rightarrow> (Inl Unauthorized, ap)
         | Some (BasicAuth u p) \<Rightarrow>
             if may_attempt w now rq ap
             then put_verdict w now rq m p (query (policy_client base parse t data) ''corshub/base_station''
                    (base_station_input u m (ap_caster ap))) (charged w now rq ap)
             else (Inl RateLimited, charged w now rq ap)
         | Some OtherAuth \<Rightarrow>
             (Inl (if may_attempt w now rq ap then Unhandled AttributeError else RateLimited), charged w now rq ap))"
  by (simp add: put_admit_def then_do_def [of "put_guard w now rq"] put_guard_cases throttled_credentials_cases
      assms put_question_def split: option.split credentials.split)

lemma put_admit_iff:
  assumes "w_opa w = Some (policy_client base parse t data)"
  shows "fst (put_admit w now rq m ap) = Inr () \<longleftrightarrow>
     header_is rq NTRIP_VERSION NTRIP_VERSION_2 \<and> header_is rq ''Content-Type'' CONTENT_TYPE_GNSS \<and>
     may_attempt w now rq ap \<and>
     (\<exists>u p. rq_credentials rq = Some (BasicAuth u p) \<and>
        base_station_decision parse t data (w_checkpw w) u p m (available m (ap_caster ap))) \<and>
     \<not> available m (ap_caster ap) \<and>
     (\<exists>mp. fst (register now m (put_metadata rq m) (ap_caster ap)) = Inr mp)"
proof -
  have decided: "fst (then_do (on_caster (\<lambda>c. (Inr ok, auth_result ''base_station'' ok c)))
       (\<lambda>allowed. then_do (require_that allowed Unauthorized) (\<lambda>_. put_register now rq m)) ap1) = Inr () \<longleftrightarrow>
      ok \<and> (\<exists>mp. fst (register now m (put_metadata rq m) (ap_caster ap1)) = Inr mp)" for ok and ap1 :: "'a app"
    by (auto simp: then_do_def on_caster_def step_simps put_register_def register_ignores_log [symmetric, of now m _ "ap_caster ap1" "''base_station''" True]
        split: prod.splits sum.splits)
  have taken: "\<not> base_station_decision parse t data checkpw u p m True" for checkpw u p
    by (simp add: base_station_decision_def split: option.split)
  note admit = put_admit_policy [OF assms]
  show ?thesis
  proof (cases "rq_credentials rq")
    case None
    then show ?thesis by (simp add: admit)
  next
    case (Some cr)
    then show ?thesis
      using taken by (cases cr; cases "available m (ap_caster ap)") (auto simp: admit put_verdict_policy decided)
  qed
qed


lemma put_admitted_state:
  assumes "put_admit w now rq m ap = (Inr (), ap')" "w_opa w = Some (policy_client base parse t data)"
  shows "ap_caster ap' = snd (register now m (put_metadata rq m) (auth_result ''base_station'' True (ap_caster ap)))"
proof -
  have verdict: "ap_caster ap' = snd (register now m (put_metadata rq m) (auth_result ''base_station'' True (ap_caster ap)))"
    if "put_verdict w now rq m p (query (policy_client base parse t data) ''corshub/base_station'' (base_station_input u m (ap_caster ap)))
      (charged w now rq ap) = (Inr (), ap')" for u p
    using that unfolding put_verdict_policy
    by (auto simp: then_do_def on_caster_def step_simps put_register_def split: prod.splits sum.splits if_splits)
  with assms(1) show ?thesis unfolding put_admit_policy [OF assms(2)] by (auto split: if_splits option.splits credentials.splits)
qed

section \<open>A whole session\<close>

lemma on_caster_state [simp]: "ap_caster (snd (on_caster f ap)) = snd (f (ap_caster ap))"
  by (simp add: on_caster_def case_prod_beta)

lemma on_caster_result [simp]: "fst (on_caster f ap) = map_sum Unhandled id (fst (f (ap_caster ap)))"
  by (simp add: on_caster_def case_prod_beta)

text \<open>The mountpoint is open in a started, consistent caster.\<close>

definition session_open :: "string \<Rightarrow> 'k app \<Rightarrow> bool" where
  "session_open m ap \<longleftrightarrow> caster_ok (ap_caster ap) \<and> cs_queue (ap_caster ap) \<noteq> None \<and>
     map_of (cs_transports (ap_caster ap)) m \<noteq> None \<and> map_of (cs_mountpoints (ap_caster ap)) m \<noteq> None"

lemma enqueue_keeps_started: "cs_queue c \<noteq> None \<Longrightarrow> cs_queue (snd (enqueue_quality cfg m f c)) \<noteq> None"
  by (auto simp: enqueue_quality_def log_caster_def)

lemma publish_keeps_open:
  assumes "session_open m ap"
  shows "\<exists>n ap'. on_caster (publish cfg now m f) ap = (Inr n, ap') \<and> session_open m ap' \<and> ap_limiter ap' = ap_limiter ap"
proof -
  let ?c = "ap_caster ap"
  obtain t mp where t: "map_of (cs_transports ?c) m = Some t" "map_of (cs_mountpoints ?c) m = Some mp"
    and ok: "caster_ok ?c" "cs_queue ?c \<noteq> None"
    using assms unfolding session_open_def by blast
  note p = publish_open [OF t ok(2), of cfg now f]
  have "caster_ok (snd (publish cfg now m f ?c))" by (rule caster_ok_publish [OF ok(1)])
  moreover have "cs_queue (snd (publish cfg now m f ?c)) \<noteq> None"
    unfolding p snd_conv by (rule enqueue_keeps_started) (use ok(2) in simp)
  ultimately have "session_open m (snd (on_caster (publish cfg now m f) ap))"
    using t by (simp add: session_open_def p enqueue_frame dict_simps)
  then show ?thesis by (simp add: on_caster_def p)
qed

lemma put_chunk_open:
  assumes "session_open m ap"
  shows "\<exists>a ap'. put_chunk w m tf ap = (Inr a, ap') \<and> session_open m ap' \<and> length a = (if snd (snd tf) = [] then 0 else 1)"
  using publish_keeps_open [OF assms, of "w_quality w" "fst tf" "snd tf"] assms
  by (auto simp: put_chunk_def then_do_def step_simps)

lemma put_chunks_open:
  "session_open m ap \<Longrightarrow>
     \<exists>as ap'. put_chunks w m chunks ap = (Inr as, ap') \<and> session_open m ap' \<and>
       length as = length (filter (\<lambda>tf. snd (snd tf) \<noteq> []) chunks)"
proof (induction chunks arbitrary: ap)
  case Nil
  then show ?case by (simp add: step_simps)
next
  case (Cons tf rest)
  obtain a ap1 where 1: "put_chunk w m tf ap = (Inr a, ap1)" "session_open m ap1"
    "length a = (if snd (snd tf) = [] then 0 else 1)" using put_chunk_open [OF Cons.prems] by blast
  obtain as ap2 where 2: "put_chunks w m rest ap1 = (Inr as, ap2)" "session_open m ap2"
    "length as = length (filter (\<lambda>tf. snd (snd tf) \<noteq> []) rest)" using Cons.IH [OF 1(2)] by blast
  from 1 2 show ?case by (simp add: then_do_def step_simps)
qed

lemma close_session:
  assumes "session_open m ap"
  shows "\<exists>ap'. on_caster (close_mountpoint m) ap = (Inr (), ap') \<and> caster_ok (ap_caster ap') \<and>
    \<not> available m (ap_caster ap') \<and> map_of (cs_transports (ap_caster ap')) m = None \<and>
    map_of (cs_mountpoints (ap_caster ap')) m \<noteq> None \<and> get_rover_positions m (ap_caster ap') = []"
proof -
  let ?c = "ap_caster ap"
  obtain t mp where t: "map_of (cs_transports ?c) m = Some t" "map_of (cs_mountpoints ?c) m = Some mp"
    and ok: "caster_ok ?c"
    using assms unfolding session_open_def by blast
  have "caster_ok (snd (close_mountpoint m ?c))" by (rule caster_ok_close [OF ok])
  then show ?thesis
    using t(2) by (simp add: on_caster_def close_open [OF t(2,1)] available_def dict_simps get_rover_positions_def)
      (simp add: forget_def dict_simps)
qed

lemma register_opens:
  "register now m md c = (Inr mp, c') \<Longrightarrow> map_of (cs_transports c') m \<noteq> None \<and> map_of (cs_mountpoints c') m \<noteq> None"
  by (auto simp: register_def Let_def open_transport_def dict_simps split: option.splits sum.splits if_splits)

lemma register_queue [simp]: "cs_queue (snd (register now m md c)) = cs_queue c"
  by (simp add: register_def Let_def open_transport_def split: option.split sum.split)

lemma put_verdict_opens:
  assumes "put_verdict w now rq m pw result ap = (Inr (), ap')" "caster_ok (ap_caster ap)" "cs_queue (ap_caster ap) \<noteq> None"
  shows "session_open m ap'"
proof -
  let ?c = "snd (base_station_verdict (w_checkpw w) pw result (ap_caster ap))"
  obtain allowed ap1 ap2 where s: "on_caster (base_station_verdict (w_checkpw w) pw result) ap = (Inr allowed, ap1)"
    "require_that allowed Unauthorized ap1 = (Inr (), ap2)" "put_register now rq m ap2 = (Inr (), ap')"
    using assms(1) unfolding put_verdict_def then_do_Inr_iff by auto
  have "ap_caster ap2 = ?c"
    using s(2) on_caster_state [of "base_station_verdict (w_checkpw w) pw result" ap] s(1)
    by (auto simp: step_simps split: if_splits)
  with s(3) obtain mp where r: "register now m (put_metadata rq m) ?c = (Inr mp, ap_caster ap')"
    by (auto simp: put_register_def split: prod.splits sum.splits)
  have c: "caster_ok ?c" "cs_queue ?c \<noteq> None"
    using verdict_keeps_ok(1) [OF assms(2)] verdict_keeps_registry(1) [of "ap_caster ap"] assms(3)
    by (simp_all add: same_registry_def)
  show ?thesis
    using register_opens [OF r] caster_ok_register [OF c(1), of now m "put_metadata rq m"] c(2) r
      register_queue [of now m "put_metadata rq m" ?c]
    by (simp add: session_open_def)
qed

lemma put_admit_opens:
  assumes "put_admit w now rq m ap = (Inr (), ap')" "caster_ok (ap_caster ap)" "cs_queue (ap_caster ap) \<noteq> None"
  shows "session_open m ap'"
proof -
  have guard: "ap_caster (snd (put_guard w now rq ap)) = ap_caster ap"
    by (simp add: put_guard_cases throttled_credentials_cases split: option.split)
  with assms show ?thesis
    unfolding put_admit_def then_do_Inr_iff
    by (auto simp: step_simps split: option.splits intro!: put_verdict_opens)
qed


text \<open>
  Two stations with valid credentials that connect together are both admitted. The policy sees
  the transport as it was when each handler asked, so when both ask before either has registered,
  both register; the first to finish closes the mountpoint under the other, whose chunks then reach
  nobody and whose handler ends in a \<open>KeyError\<close>.
\<close>
theorem concurrent_stations_are_both_admitted:
  assumes "caster_ok (ap_caster ap)" "cs_queue (ap_caster ap) \<noteq> None"
    and "map_of (cs_mountpoints (ap_caster ap)) m \<noteq> None" "\<not> available m (ap_caster ap)"
    and "w_opa w = Some (policy_client base parse t data)"
    and "base_station_decision parse t data (w_checkpw w) u p m False"
  shows "\<exists>q ap1 ap2 ap3.
     q = query (policy_client base parse t data) ''corshub/base_station'' (put_question u m ap) \<and>
     put_verdict w now rq1 m p q ap = (Inr (), ap1) \<and> put_verdict w now rq2 m p q ap1 = (Inr (), ap2) \<and>
     on_caster (close_mountpoint m) ap2 = (Inr (), ap3) \<and>
     fst (publish (w_quality w) later m f (ap_caster ap3)) = Inr 0 \<and>
     fst (put_transfer w m (Streamed []) ap3) = Inl (Unhandled (KeyError m))"
proof -
  let ?q = "query (policy_client base parse t data) ''corshub/base_station'' (put_question u m ap)"
  have admit: "\<exists>b. put_verdict w now rq m p ?q a = (Inr (), b) \<and> session_open m b"
    if a: "caster_ok (ap_caster a)" "cs_queue (ap_caster a) \<noteq> None" "map_of (cs_mountpoints (ap_caster a)) m \<noteq> None"
    for rq a
  proof -
    have "fst (put_verdict w now rq m p ?q a) = Inr ()"
      using assms(4,6) a(3)
      by (auto simp: put_question_def put_verdict_policy then_do_def on_caster_def step_simps put_register_def
          register_def auth_result_def log_caster_def Let_def)
    then obtain b where "put_verdict w now rq m p ?q a = (Inr (), b)"
      by (cases "put_verdict w now rq m p ?q a") simp
    with put_verdict_opens [OF this a(1,2)] show ?thesis by blast
  qed
  obtain ap1 where 1: "put_verdict w now rq1 m p ?q ap = (Inr (), ap1)" "session_open m ap1"
    using admit [OF assms(1,2,3)] by blast
  obtain ap2 where 2: "put_verdict w now rq2 m p ?q ap1 = (Inr (), ap2)" "session_open m ap2"
    using admit [of ap1] 1(2) unfolding session_open_def by blast
  obtain ap3 where 3: "on_caster (close_mountpoint m) ap2 = (Inr (), ap3)"
    "map_of (cs_transports (ap_caster ap3)) m = None" "map_of (cs_mountpoints (ap_caster ap3)) m \<noteq> None"
    using close_session [OF 2(2)] by blast
  have "fst (publish (w_quality w) later m f (ap_caster ap3)) = Inr 0" using 3(2) by (simp add: publish_cases)
  moreover have "fst (put_transfer w m (Streamed []) ap3) = Inl (Unhandled (KeyError m))"
    using 3(2,3) by (simp add: put_transfer_def and_close_def step_simps on_caster_def close_mountpoint_def)
  ultimately show ?thesis using 1(1) 2(1) 3(1) by blast
qed

section \<open>Witnesses\<close>

definition demo_world :: "(string, real \<times> bucket) dict world" where
  "demo_world = \<lparr>w_cache = list_cache 3600, w_opa = Some demo_opa, w_checkpw = demo_checkpw,
     w_nmea = (\<lambda>s. if s = ''gga'' then NmeaMsg ''GGA'' (NvFloat (Fin 51)) (NvFloat (Fin 4)) else NmeaRaises),
     w_quality = demo_config\<rparr>"

definition demo_request :: request where
  "demo_request = \<lparr>rq_headers = [''Ntrip-Version'' \<mapsto> ''Ntrip/2.0'', ''Content-Type'' \<mapsto> ''GNSS/data''],
     rq_credentials = Some (BasicAuth ''base'' ''pw''), rq_remote_addr = ''10.0.0.1'', rq_ip = None\<rparr>"

text \<open>The caster of the earlier witnesses after its station has left: registered, but closed.\<close>

definition demo_app :: "(string, real \<times> bucket) dict app" where
  "demo_app = \<lparr>ap_caster = snd (close_mountpoint ''BASE-1'' demo_caster), ap_limiter = Some (new_limiter 5 1, [])\<rparr>"

lemma demo_app_facts:
  "caster_ok (ap_caster demo_app)" "cs_queue (ap_caster demo_app) = Some []"
  "map_of (cs_mountpoints (ap_caster demo_app)) ''BASE-1'' = Some (demo_mountpoint\<lparr>mp_last_seen := 5\<rparr>)"
  "\<not> available ''BASE-1'' (ap_caster demo_app)"
  subgoal by (simp add: demo_app_def caster_ok_close demo_caster_ok)
  by (simp_all add: demo_app_def close_open [OF demo_caster_facts(2,1)] available_def dict_simps demo_caster_facts
      del: map_of_eq_Some_iff)

lemma demo_decision:
  "base_station_decision demo_window 1750000000000000000 demo_data demo_checkpw ''base'' ''pw'' ''BASE-1'' False"
  by (simp add: base_station_decision_def registered_def demo_data_def within_window_def object_get_def date_ns_def
      demo_window_def knows_password_def verify_password_def demo_checkpw_def)

lemma demo_attempt: "may_attempt demo_world now rq demo_app"
  by (simp add: may_attempt_def enforce_auth_rate_limit_def demo_app_def demo_world_def allow_def
      current_bucket_def list_cache_def new_limiter_def Let_def)

lemma demo_headers:
  "header_is demo_request NTRIP_VERSION NTRIP_VERSION_2" "header_is demo_request ''Content-Type'' CONTENT_TYPE_GNSS"
  by code_simp+

lemma demo_registers: "\<exists>mp. fst (register 6 ''BASE-1'' md (ap_caster demo_app)) = Inr mp"
  using demo_app_facts(3) by (simp add: register_def Let_def del: map_of_eq_Some_iff)



lemma demo_admitted: "\<exists>ap1. put_admit demo_world 6 demo_request ''BASE-1'' demo_app = (Inr (), ap1)"
proof -
  have "\<exists>b. put_verdict demo_world 6 demo_request ''BASE-1'' ''pw''
      (query (policy_client ''http://opa:8181/'' demo_window 1750000000000000000 demo_data) ''corshub/base_station''
        (put_question ''base'' ''BASE-1'' (charged demo_world 6 demo_request demo_app)))
      (charged demo_world 6 demo_request demo_app) = (Inr (), b)"
    using demo_registers [of "put_metadata demo_request ''BASE-1''"]
    by (auto simp: put_question_def put_verdict_policy then_do_def on_caster_def step_simps put_register_def
        demo_app_facts(4) demo_world_def demo_decision register_ignores_log split: prod.splits sum.splits)
       (metis Inl_Inr_False fst_conv register_ignores_log)+
  then show ?thesis
    using demo_headers demo_attempt
    by (simp add: put_admit_def then_do_def put_guard_cases throttled_credentials_cases demo_world_def demo_opa_def)
       (simp add: demo_request_def)
qed


theorem concurrent_stations_are_both_admitted_witness:
  "\<exists>ap1 ap2. put_verdict demo_world 6 demo_request ''BASE-1'' ''pw''
       (query demo_opa ''corshub/base_station'' (put_question ''base'' ''BASE-1'' demo_app)) demo_app = (Inr (), ap1) \<and>
     put_verdict demo_world 6 demo_request ''BASE-1'' ''pw''
       (query demo_opa ''corshub/base_station'' (put_question ''base'' ''BASE-1'' demo_app)) ap1 = (Inr (), ap2)"
  using concurrent_stations_are_both_admitted [OF demo_app_facts(1) _ _ demo_app_facts(4), of demo_world
      "''http://opa:8181/''" demo_window 1750000000000000000 demo_data "''base''" "''pw''" 6 demo_request demo_request]
    demo_app_facts demo_decision
  by (simp add: demo_world_def demo_opa_def del: map_of_eq_Some_iff) blast

end
