(* ===== verification/NtripRead.thy ===== *)
theory NtripRead
  imports NtripPut NearestBase
begin

text \<open>
  The rover's routes: \<open>services/v1/ntrip/read.py\<close> with the reader of GGA sentences in the request
  body, \<open>nearest.py\<close>, \<open>quality.py\<close> and \<open>sourcetable.py\<close>. A stream is begun, fed with body chunks,
  and ended; what happens in between is every other task of the program.
\<close>

section \<open>GGA sentences in the request body\<close>

definition MAX_GGA_BUFFER :: nat where
  "MAX_GGA_BUFFER = 4096"

definition NEWLINE :: byte where
  "NEWLINE = 10"

text \<open>\<open>line.decode("ascii", errors="ignore")\<close>\<close>

definition decode_ascii :: "bytes \<Rightarrow> string" where
  "decode_ascii bs = map (\<lambda>b. char_of (unat b)) (filter (\<lambda>b. b < 128) bs)"

definition gga_line :: "(string \<Rightarrow> nmea_outcome) \<Rightarrow> string \<Rightarrow> string \<Rightarrow> bytes \<Rightarrow> caster \<Rightarrow> caster" where
  "gga_line nmea m user line c =
     (case parse_ntrip_gga nmea (Some (py_strip (decode_ascii line))) of
        None \<Rightarrow> c
      | Some (lat, lon) \<Rightarrow>
          log_caster [MInc ''rover_gga_updates_total'' [m] 1] (set_rover_position m user lat lon c))"

lemma cut_line:
  "x \<notin> set l \<Longrightarrow> takeWhile (\<lambda>b. b \<noteq> x) (l @ x # r) = l"
  "x \<notin> set l \<Longrightarrow> dropWhile (\<lambda>b. b \<noteq> x) (l @ x # r) = x # r"
  by (induction l) auto

lemma tl_dropWhile_shorter: "x \<in> set xs \<Longrightarrow> length (tl (dropWhile (\<lambda>b. b \<noteq> x) xs)) < length xs"
  by (auto simp: cut_line dest!: split_list_first)

text \<open>\<open>while b"\n" in buf: line, buf = buf.split(b"\n", 1)\<close>\<close>

function gga_drain :: "(bytes \<Rightarrow> caster \<Rightarrow> caster) \<Rightarrow> bytes \<Rightarrow> caster \<Rightarrow> bytes \<times> caster" where
  "gga_drain on_line buf c =
     (if NEWLINE \<in> set buf
      then gga_drain on_line (tl (dropWhile (\<lambda>b. b \<noteq> NEWLINE) buf)) (on_line (takeWhile (\<lambda>b. b \<noteq> NEWLINE) buf) c)
      else (buf, c))"
  by pat_completeness auto
termination
  by (relation "measure (\<lambda>(_, buf, _). length buf)") (simp_all add: tl_dropWhile_shorter del: length_tl)

declare gga_drain.simps [simp del]

definition gga_chunk :: "(bytes \<Rightarrow> caster \<Rightarrow> caster) \<Rightarrow> bytes \<Rightarrow> bytes \<times> caster \<Rightarrow> bytes \<times> caster" where
  "gga_chunk on_line chunk st =
     (if chunk = [] then st
      else (case gga_drain on_line (fst st @ chunk) (snd st) of
              (buf, c) \<Rightarrow> (if length buf > MAX_GGA_BUFFER then [] else buf, c)))"

definition read_rover_gga :: "(string \<Rightarrow> nmea_outcome) \<Rightarrow> string \<Rightarrow> string \<Rightarrow> bytes list \<Rightarrow> caster \<Rightarrow> bytes \<times> caster" where
  "read_rover_gga nmea m user chunks c = fold (gga_chunk (gga_line nmea m user)) chunks ([], c)"

lemma gga_drain_no_newline: "NEWLINE \<notin> set buf \<Longrightarrow> gga_drain on_line buf c = (buf, c)"
  by (simp add: gga_drain.simps)

lemma gga_drain_line:
  "NEWLINE \<notin> set line \<Longrightarrow> gga_drain on_line (line @ NEWLINE # rest) c = gga_drain on_line rest (on_line line c)"
  by (subst gga_drain.simps) (simp add: cut_line)

text \<open>The reference: all the lines of the whole body, and the unfinished one.\<close>

definition byte_lines :: "bytes \<Rightarrow> bytes list" where
  "byte_lines bs = foldr (\<lambda>b ls. if b = NEWLINE then [] # ls else (b # hd ls) # tl ls) bs [[]]"

lemma byte_lines_nonempty [simp]: "byte_lines bs \<noteq> []"
  by (induction bs) (auto simp: byte_lines_def)

lemma byte_lines_simps [simp]:
  "byte_lines [] = [[]]"
  "byte_lines (b # bs) = (if b = NEWLINE then [] # byte_lines bs else (b # hd (byte_lines bs)) # tl (byte_lines bs))"
  by (simp_all add: byte_lines_def)

lemma byte_lines_prefix:
  "NEWLINE \<notin> set line \<Longrightarrow> byte_lines (line @ bs) = (line @ hd (byte_lines bs)) # tl (byte_lines bs)"
  by (induction line) auto

lemma gga_drain_lines:
  "gga_drain on_line buf c = (last (byte_lines buf), fold on_line (butlast (byte_lines buf)) c)"
proof (induction on_line buf c rule: gga_drain.induct)
  case (1 on_line buf c)
  show ?case
  proof (cases "NEWLINE \<in> set buf")
    case True
    let ?line = "takeWhile (\<lambda>b. b \<noteq> NEWLINE) buf" and ?rest = "tl (dropWhile (\<lambda>b. b \<noteq> NEWLINE) buf)"
    have b: "buf = ?line @ NEWLINE # ?rest" and l: "NEWLINE \<notin> set ?line"
      using split_list_first [OF True] by (auto simp: cut_line)
    have "byte_lines buf = ?line # byte_lines ?rest"
      by (subst b, subst byte_lines_prefix [OF l]) simp
    moreover have "gga_drain on_line buf c = gga_drain on_line ?rest (on_line ?line c)"
      by (subst gga_drain.simps) (simp add: True)
    ultimately show ?thesis using "1.IH" [OF True] by simp
  next
    case False
    then have "byte_lines buf = [buf]" using byte_lines_prefix [OF False, of "[]"] by simp
    with False show ?thesis by (simp add: gga_drain_no_newline)
  qed
qed

lemma byte_lines_append:
  "byte_lines (xs @ ys) = butlast (byte_lines xs) @ byte_lines (last (byte_lines xs) @ ys)"
proof (induction xs)
  case (Cons b xs)
  obtain l ls where l: "byte_lines xs = l # ls" by (cases "byte_lines xs") auto
  show ?case
  proof (cases "b = NEWLINE")
    case True
    with Cons l show ?thesis by simp
  next
    case False
    show ?thesis
    proof (cases ls)
      case Nil
      with Cons l False show ?thesis by simp
    next
      case (Cons k ks)
      with Cons.IH l False show ?thesis by simp
    qed
  qed
qed simp

lemma last_line_no_newline: "NEWLINE \<notin> set (last (byte_lines bs))"
proof -
  have "x \<in> set (byte_lines bs) \<Longrightarrow> NEWLINE \<notin> set x" for x
    by (induction bs arbitrary: x) (auto split: if_splits dest: list.set_sel(2) [rotated])
  then show ?thesis by simp
qed

definition lines_bounded :: "bytes \<Rightarrow> bool" where
  "lines_bounded bs \<longleftrightarrow> list_all (\<lambda>l. length l \<le> MAX_GGA_BUFFER) (byte_lines bs)"


lemma gga_chunks_drain:
  "NEWLINE \<notin> set buf \<Longrightarrow> lines_bounded (buf @ concat chunks) \<Longrightarrow>
     fold (gga_chunk on_line) chunks (buf, c) = gga_drain on_line (buf @ concat chunks) c"
proof (induction chunks arbitrary: buf c)
  case Nil
  then show ?case by (simp add: gga_drain_no_newline)
next
  case (Cons chunk chunks)
  show ?case
  proof (cases "chunk = []")
    case True
    with Cons show ?thesis by (simp add: gga_chunk_def)
  next
    case False
    let ?l = "last (byte_lines (buf @ chunk))"
    have split: "byte_lines (buf @ concat (chunk # chunks)) = butlast (byte_lines (buf @ chunk)) @ byte_lines (?l @ concat chunks)"
      using byte_lines_append [of "buf @ chunk" "concat chunks"] by simp
    have first: "byte_lines (?l @ concat chunks) = (?l @ hd (byte_lines (concat chunks))) # tl (byte_lines (concat chunks))"
      by (rule byte_lines_prefix [OF last_line_no_newline])
    have b: "lines_bounded (?l @ concat chunks)"
      using Cons.prems(2) unfolding lines_bounded_def split by (simp add: list_all_append)
    then have "length ?l \<le> MAX_GGA_BUFFER" unfolding lines_bounded_def first by simp
    with False have step: "gga_chunk on_line chunk (buf, c) = (?l, fold on_line (butlast (byte_lines (buf @ chunk))) c)"
      by (simp add: gga_chunk_def gga_drain_lines)
    show ?thesis
      using Cons.IH [OF last_line_no_newline b] step split
      by (simp add: gga_drain_lines butlast_append)
  qed
qed

text \<open>
  C31: the GGA reader does not depend on how the body is cut into chunks: as long as no line exceeds
  4096 bytes, reading the chunks is handling the lines of the whole body in order, and what is kept
  is the unfinished line.
\<close>
theorem gga_reader_chunking:
  assumes "lines_bounded (concat chunks)"
  shows "read_rover_gga nmea m user chunks c =
    (last (byte_lines (concat chunks)), fold (gga_line nmea m user) (butlast (byte_lines (concat chunks))) c)"
  using gga_chunks_drain [of "[]" chunks] assms by (simp add: read_rover_gga_def gga_drain_lines)

text \<open>
  Whatever a rover sends, the reader holds at most 4096 bytes between chunks.
\<close>
theorem gga_reader_bounded:
  "length (fst (read_rover_gga nmea m user chunks c)) \<le> MAX_GGA_BUFFER"
proof -
  have "length (fst st) \<le> MAX_GGA_BUFFER \<Longrightarrow> length (fst (fold (gga_chunk f) chunks st)) \<le> MAX_GGA_BUFFER" for f st
    by (induction chunks arbitrary: st) (auto simp: gga_chunk_def split: prod.split)
  then show ?thesis by (simp add: read_rover_gga_def)
qed

section \<open>Rover positions of a session\<close>

definition rover_position :: "string \<Rightarrow> string \<Rightarrow> caster \<Rightarrow> (pyfloat \<times> pyfloat) option" where
  "rover_position m u c = map_of (get_rover_positions m c) u"

lemma rover_position_set:
  "rover_position m' u' (set_rover_position m u lat lon c) =
     (if m' = m \<and> u' = u then Some (lat, lon) else rover_position m' u' c)"
  by (auto simp: rover_position_def get_rover_positions_def set_rover_position_def dict_simps)

lemma rover_position_clear:
  "rover_position m' u' (clear_rover_position m u c) = (if m' = m \<and> u' = u then None else rover_position m' u' c)"
proof (cases "map_of (cs_positions c) m")
  case None
  then show ?thesis by (auto simp: rover_position_def get_rover_positions_def clear_rover_position_def)
next
  case (Some d)
  have "AList.delete u d = [] \<Longrightarrow> u' \<noteq> u \<Longrightarrow> map_of d u' = None"
    using map_of_dict_pop [of u d] by (metis fun_upd_other map_of.simps(1))
  with Some show ?thesis
    by (auto simp: rover_position_def get_rover_positions_def clear_rover_position_def Let_def dict_simps)
qed

lemma rover_position_log [simp]: "rover_position m u (log_caster ops c) = rover_position m u c"
  by (simp add: rover_position_def get_rover_positions_def log_caster_def)

lemma gga_line_position:
  "(m', u') \<noteq> (m, u) \<Longrightarrow> rover_position m' u' (gga_line nmea m u line c) = rover_position m' u' c"
  by (auto simp: gga_line_def rover_position_set split: option.split)

section \<open>Validation of a stream request\<close>

text \<open>\<open>haversine\<close> with a coordinate that is None raises \<open>TypeError\<close>.\<close>

definition nmea_gate :: "'k world \<Rightarrow> request \<Rightarrow> mountpoint \<Rightarrow> ('k, unit) handler" where
  "nmea_gate w rq mp =
     (if \<not> mp_nmea mp then return ()
      else case parse_ntrip_gga (w_nmea w) (rq_headers rq NTRIP_GGA) of
          None \<Rightarrow> fail BadRequest
        | Some (lat, lon) \<Rightarrow>
            if Fin 0 < mp_mask mp
            then (case base_distance mp lat lon of
                    None \<Rightarrow> fail (Unhandled TypeError)
                  | Some (Inl e) \<Rightarrow> fail (Unhandled e)
                  | Some (Inr km) \<Rightarrow> require_that (\<not> mp_mask mp < km) BadRequest)
            else return ())"

definition stream_checks :: "'k world \<Rightarrow> request \<Rightarrow> string \<Rightarrow> ('k, unit) handler" where
  "stream_checks w rq m ap =
     (case map_of (cs_mountpoints (ap_caster ap)) m of
        None \<Rightarrow> fail NotFound ap
      | Some mp \<Rightarrow> if available m (ap_caster ap) then nmea_gate w rq mp ap else fail NotFound ap)"

text \<open>What the returned \<open>ResponseStream\<close> closes over: mountpoint, user name, session limit.\<close>

definition stream_mountpoint :: "'k world \<Rightarrow> real \<Rightarrow> request \<Rightarrow> string \<Rightarrow> ('k, string \<times> string \<times> json) handler" where
  "stream_mountpoint w now rq m =
     then_do (require_that (header_is rq NTRIP_VERSION NTRIP_VERSION_2) BadRequest) (\<lambda>_.
     then_do (throttled_credentials w now rq) (\<lambda>(username, password).
     then_do (on_caster (authenticate_rover (w_opa w) (w_checkpw w) username password m)) (\<lambda>(allowed, limit).
     then_do (require_that allowed Unauthorized) (\<lambda>_.
     then_do (stream_checks w rq m) (\<lambda>_. return (m, username, limit))))))"

definition find_and_read :: "'k world \<Rightarrow> real \<Rightarrow> request \<Rightarrow> ('k, string \<times> string \<times> json) handler" where
  "find_and_read w now rq ap =
     (case parse_ntrip_gga (w_nmea w) (rq_headers rq NTRIP_GGA) of
        None \<Rightarrow> fail BadRequest ap
      | Some (lat, lon) \<Rightarrow>
          (case http_nearest (cs_mountpoints (ap_caster ap)) lat lon of
             Inl e \<Rightarrow> fail (Unhandled e) ap
           | Inr None \<Rightarrow> fail NotFound ap
           | Inr (Some best_id) \<Rightarrow> stream_mountpoint w now rq best_id ap))"

section \<open>The stream\<close>

record rover_session =
  rs_mountpoint :: string
  rs_user :: string
  rs_deadline :: "real option"
  rs_sub :: "(nat \<times> nat) option"
  rs_buf :: bytes

text \<open>\<open>asyncio.timeout(max_session_seconds)\<close>: the time at which the session ends\<close>

definition session_deadline :: "real \<Rightarrow> json \<Rightarrow> py_error + real option" where
  "session_deadline now limit =
     (case limit of
        JNull \<Rightarrow> Inr None
      | JInt n \<Rightarrow> Inr (Some (now + of_int n))
      | JBool b \<Rightarrow> Inr (Some (now + (if b then 1 else 0)))
      | _ \<Rightarrow> Inl TypeError)"

text \<open>
  \<open>stream_frames\<close> up to its first suspension. A mountpoint that has closed meanwhile gives a session
  without a subscription, which ends at once.
\<close>

definition seed_position :: "'k world \<Rightarrow> request \<Rightarrow> string \<Rightarrow> string \<Rightarrow> caster \<Rightarrow> caster" where
  "seed_position w rq m user c =
     (case parse_ntrip_gga (w_nmea w) (rq_headers rq NTRIP_GGA) of
        None \<Rightarrow> c
      | Some (lat, lon) \<Rightarrow> set_rover_position m user lat lon c)"

definition stream_end :: "rover_session \<Rightarrow> caster \<Rightarrow> caster" where
  "stream_end s c =
     clear_rover_position (rs_mountpoint s) (rs_user s)
       (case rs_sub s of None \<Rightarrow> c | Some (t, sub) \<Rightarrow> leave_subscription t sub c)"

definition stream_begin :: "'k world \<Rightarrow> real \<Rightarrow> request \<Rightarrow> string \<times> string \<times> json \<Rightarrow> caster \<Rightarrow> rover_session outcome" where
  "stream_begin w now rq grant c =
     (case grant of (m, user, limit) \<Rightarrow>
        (let c = seed_position w rq m user c;
             s = \<lparr>rs_mountpoint = m, rs_user = user, rs_deadline = None, rs_sub = None, rs_buf = []\<rparr> in
         case session_deadline now limit of
           Inl e \<Rightarrow> (Inl e, stream_end s c)
         | Inr d \<Rightarrow>
             (case Caster.subscribe m c of
                Inl _ \<Rightarrow> (Inr (s\<lparr>rs_deadline := d\<rparr>), c)
              | Inr t \<Rightarrow>
                  (case metered_subscribe m t c of
                     (sub, c) \<Rightarrow> (Inr (s\<lparr>rs_deadline := d, rs_sub := Some (t, sub)\<rparr>), c)))))"

definition stream_body :: "'k world \<Rightarrow> bytes \<Rightarrow> rover_session \<Rightarrow> caster \<Rightarrow> rover_session \<times> caster" where
  "stream_body w chunk s c =
     (case gga_chunk (gga_line (w_nmea w) (rs_mountpoint s) (rs_user s)) chunk (rs_buf s, c) of
        (buf, c) \<Rightarrow> (s\<lparr>rs_buf := buf\<rparr>, c))"

text \<open>
  The frames written, from the times and outcomes of the subscriber's \<open>get\<close>: the loop ends with the
  stream, and a \<open>get\<close> that is still waiting at the deadline is cancelled.
\<close>

fun stream_writes :: "real option \<Rightarrow> (real \<times> 'f get_outcome) list \<Rightarrow> (real \<times> 'f) list" where
  "stream_writes deadline [] = []"
| "stream_writes deadline ((t, r) # rest) =
     (if (case deadline of None \<Rightarrow> False | Some d \<Rightarrow> d \<le> t) then []
      else case r of
          Delivered f \<Rightarrow> (t, f) # stream_writes deadline rest
        | Blocked \<Rightarrow> stream_writes deadline rest
        | _ \<Rightarrow> [])"


section \<open>Who gets a stream\<close>

definition in_reach :: "'k world \<Rightarrow> request \<Rightarrow> mountpoint \<Rightarrow> bool" where
  "in_reach w rq mp \<longleftrightarrow>
     (mp_nmea mp \<longrightarrow>
        (case parse_ntrip_gga (w_nmea w) (rq_headers rq NTRIP_GGA) of
           None \<Rightarrow> False
         | Some (lat, lon) \<Rightarrow>
             Fin 0 < mp_mask mp \<longrightarrow> (\<exists>km. base_distance mp lat lon = Some (Inr km) \<and> \<not> mp_mask mp < km)))"

lemma nmea_gate_ok: "fst (nmea_gate w rq mp ap) = Inr () \<longleftrightarrow> in_reach w rq mp"
  by (auto simp: nmea_gate_def in_reach_def step_simps split: option.splits sum.splits)

lemma stream_checks_ok:
  "fst (stream_checks w rq m ap) = Inr () \<longleftrightarrow>
     available m (ap_caster ap) \<and> (\<exists>mp. map_of (cs_mountpoints (ap_caster ap)) m = Some mp \<and> in_reach w rq mp)"
  by (auto simp: stream_checks_def nmea_gate_ok step_simps split: option.split)

lemma authenticate_rover_keeps:
  "same_registry c (snd (authenticate_rover opa checkpw u p m c))"
  by (simp add: authenticate_rover_def verdict_keeps_registry split: option.split)

lemma stream_checks_same:
  "same_registry (ap_caster ap) (ap_caster ap') \<Longrightarrow> fst (stream_checks w rq m ap') = fst (stream_checks w rq m ap)"
  by (simp add: stream_checks_def available_def same_registry_def step_simps nmea_gate_def split: option.split sum.split)

lemma stream_mountpoint_cases:
  "w_opa w = Some (policy_client base parse t data) \<Longrightarrow>
   fst (stream_mountpoint w now rq m ap) = Inr g \<longleftrightarrow>
     header_is rq NTRIP_VERSION NTRIP_VERSION_2 \<and> may_attempt w now rq ap \<and> fst (stream_checks w rq m ap) = Inr () \<and>
     (\<exists>u p limit. rq_credentials rq = Some (BasicAuth u p) \<and> g = (m, u, limit) \<and>
        rover_decision parse t data (w_checkpw w) u p m = (True, limit))"
proof -
  assume opa: "w_opa w = Some (policy_client base parse t data)"
  have after: "fst (then_do (on_caster (authenticate_rover (w_opa w) (w_checkpw w) u p m)) (\<lambda>(allowed, limit).
      then_do (require_that allowed Unauthorized) (\<lambda>_. then_do (stream_checks w rq m) (\<lambda>_. return (m, u, limit)))) (charged w now rq ap)) = Inr g
     \<longleftrightarrow> fst (stream_checks w rq m ap) = Inr () \<and>
        (\<exists>limit. rover_decision parse t data (w_checkpw w) u p m = (True, limit) \<and> g = (m, u, limit))" for u p
  proof -
    let ?c = "ap_caster ap"
    let ?ap = "(charged w now rq ap)\<lparr>ap_caster := snd (authenticate_rover (w_opa w) (w_checkpw w) u p m ?c)\<rparr>"
    obtain ok limit where d: "rover_decision parse t data (w_checkpw w) u p m = (ok, limit)" by fastforce
    have "on_caster (authenticate_rover (w_opa w) (w_checkpw w) u p m) (charged w now rq ap) = (Inr (ok, limit), ?ap)"
      using d opa by (simp add: on_caster_def case_prod_beta authenticate_rover_decides)
    moreover have "fst (stream_checks w rq m ?ap) = fst (stream_checks w rq m ap)"
      by (rule stream_checks_same) (simp add: authenticate_rover_keeps)
    ultimately show ?thesis
      using d by (cases "stream_checks w rq m ?ap") (auto simp: then_do_def step_simps split: sum.splits)
  qed
  show ?thesis
  proof (cases "rq_credentials rq")
    case None
    then show ?thesis by (auto simp: stream_mountpoint_def then_do_def step_simps throttled_credentials_cases)
  next
    case (Some cr)
    then show ?thesis
      using after
      by (cases cr) (auto simp: stream_mountpoint_def then_do_def [of "require_that (header_is _ _ _) _"]
          then_do_def [of "throttled_credentials _ _ _"] step_simps throttled_credentials_cases)
  qed
qed


text \<open>
  An \<open>anonymous\<close> rover is cut off after a minute: every frame written to a session that the
  policy granted to \<open>anonymous\<close> is written before 60 seconds have passed, whatever the subscriber
  delivers.
\<close>
theorem anonymous_stream_is_cut:
  assumes "w_opa w = Some (policy_client base parse t data)"
    and "fst (stream_mountpoint w now rq m ap) = Inr (m', ''anonymous'', limit)"
    and "fst (stream_begin w begin rq (m', ''anonymous'', limit) c) = Inr s"
    and "(tw, f) \<in> set (stream_writes (rs_deadline s) events)"
  shows "tw < begin + 60"
proof -
  have "rover_decision parse t data (w_checkpw w) ''anonymous'' p m = (True, limit) \<Longrightarrow> limit = JInt 60" for p
    by (auto simp: rover_decision_def split: option.splits if_splits)
  then have "limit = JInt 60" using assms(2) unfolding stream_mountpoint_cases [OF assms(1)] by auto
  then have d: "rs_deadline s = Some (begin + 60)"
    using assms(3) by (auto simp: stream_begin_def session_deadline_def Let_def split: sum.splits prod.splits)
  have "(tw, f) \<in> set (stream_writes (Some b) events) \<Longrightarrow> tw < b" for b
  proof (induction events)
    case (Cons e events)
    then show ?case by (cases e) (auto split: if_splits get_outcome.splits)
  qed simp
  with assms(4) d show ?thesis by simp
qed

section \<open>Sessions and positions\<close>

lemma stream_end_position:
  "rover_position m' u' (stream_end s c) =
     (if m' = rs_mountpoint s \<and> u' = rs_user s then None else rover_position m' u' c)"
  by (simp add: stream_end_def rover_position_clear leave_subscription_def upd_transport_def
      rover_position_def [of _ _ "c\<lparr>cs_store := _\<rparr>"] get_rover_positions_def split: option.split prod.split)
     (simp add: rover_position_def get_rover_positions_def)

lemma subscribe_position [simp]: "rover_position m u (snd (metered_subscribe n t c)) = rover_position m u c"
  by (simp add: metered_subscribe_def Let_def case_prod_beta rover_position_def get_rover_positions_def log_caster_def)

lemma stream_begin_position:
  assumes "fst (stream_begin w now rq (m, u, limit) c) = Inr s"
  shows "rs_mountpoint s = m \<and> rs_user s = u \<and>
    rover_position m' u' (snd (stream_begin w now rq (m, u, limit) c)) = rover_position m' u' (seed_position w rq m u c)"
  using assms subscribe_position [of m' u' m _ "seed_position w rq m u c"]
  by (auto simp: stream_begin_def Let_def case_prod_beta split: sum.splits)

lemma seed_position_other: "(m', u') \<noteq> (m, u) \<Longrightarrow> rover_position m' u' (seed_position w rq m u c) = rover_position m' u' c"
  by (auto simp: seed_position_def rover_position_set split: option.split)

lemma gga_chunk_other:
  assumes "(m', u') \<noteq> (m, u)"
  shows "rover_position m' u' (snd (gga_chunk (gga_line nmea m u) chunk st)) = rover_position m' u' (snd st)"
proof -
  have "rover_position m' u' (fold (gga_line nmea m u) ls c) = rover_position m' u' c" for ls c
    by (induction ls arbitrary: c) (simp_all add: gga_line_position [OF assms])
  then show ?thesis by (simp add: gga_chunk_def gga_drain_lines case_prod_beta)
qed

text \<open>
  C27: a session touches the position of its own user at its own mountpoint only, from its first
  sentence to its end, and leaves none behind.
\<close>
theorem session_owns_its_position:
  assumes "fst (stream_begin w now rq (m, u, limit) c) = Inr s"
  shows "rs_mountpoint s = m \<and> rs_user s = u \<and>
    (\<forall>m' u'. (m', u') \<noteq> (m, u) \<longrightarrow>
       rover_position m' u' (snd (stream_begin w now rq (m, u, limit) c)) = rover_position m' u' c \<and>
       (\<forall>chunk d. rover_position m' u' (snd (stream_body w chunk s d)) = rover_position m' u' d) \<and>
       (\<forall>d. rover_position m' u' (stream_end s d) = rover_position m' u' d)) \<and>
    (\<forall>d. rover_position m u (stream_end s d) = None)"
proof (intro conjI allI impI)
  note b = stream_begin_position [OF assms]
  show "rs_mountpoint s = m" "rs_user s = u" using b by simp_all
  fix d show "rover_position m u (stream_end s d) = None" using b by (simp add: stream_end_position)
next
  note b = stream_begin_position [OF assms]
  fix m' u' assume o: "(m', u') \<noteq> (m, u)"
  show "rover_position m' u' (snd (stream_begin w now rq (m, u, limit) c)) = rover_position m' u' c"
    using b [of m' u'] seed_position_other [OF o] by simp
  fix chunk d
  show "rover_position m' u' (snd (stream_body w chunk s d)) = rover_position m' u' d"
    using b gga_chunk_other [OF o] by (simp add: stream_body_def case_prod_beta)
  show "rover_position m' u' (stream_end s d) = rover_position m' u' d"
    using b o by (auto simp: stream_end_position)
qed

text \<open>
  Rovers that share an account (\<open>anonymous\<close> is made for that) share one position entry: when
  one of two such sessions on a mountpoint ends, the position of the other is gone although it is
  still subscribed.
\<close>
theorem shared_account_loses_position:
  assumes "caster_ok c" "map_of (cs_transports c) m = Some t"
    and "parse_ntrip_gga (w_nmea w) (rq_headers rq NTRIP_GGA) = Some pos"
    and "fst (stream_begin w now rq (m, u, limit) c) = Inr s1"
  shows "\<exists>s2 c2 i. stream_begin w now rq (m, u, limit) (snd (stream_begin w now rq (m, u, limit) c)) = (Inr s2, c2) \<and>
     rs_sub s2 = Some (t, i) \<and> rover_position m u c2 = Some pos \<and>
     rover_position m u (stream_end s1 c2) = None \<and> i \<in> tq_active (cs_store (stream_end s1 c2) t)"
proof -
  let ?seed = "seed_position w rq m u"
  have seeded: "cs_transports (?seed d) = cs_transports d" "cs_store (?seed d) = cs_store d"
    "rover_position m u (?seed d) = Some pos" for d
    subgoal using assms(3) by (cases pos) (simp add: seed_position_def set_rover_position_def)
    subgoal using assms(3) by (cases pos) (simp add: seed_position_def set_rover_position_def)
    subgoal using assms(3) by (cases pos) (simp add: seed_position_def rover_position_set)
    done
  have run: "\<exists>i. stream_begin w now rq (m, u, limit) d =
      (Inr \<lparr>rs_mountpoint = m, rs_user = u, rs_deadline = rs_deadline s1, rs_sub = Some (t, i), rs_buf = []\<rparr>,
       snd (metered_subscribe m t (?seed d))) \<and> i = fst (tq_subscribe (cs_store d t))"
    if "map_of (cs_transports d) m = Some t" for d
    using assms(2,4) that seeded(1)
    by (auto simp: stream_begin_def Let_def Caster.subscribe_def metered_subscribe_def log_caster_def case_prod_beta seeded(2)
        split: sum.splits)
  let ?c1 = "snd (stream_begin w now rq (m, u, limit) c)"
  let ?i = "fst (tq_subscribe (cs_store c t))" and ?tr1 = "snd (tq_subscribe (cs_store c t))"
  let ?j = "fst (tq_subscribe ?tr1)" and ?tr2 = "snd (tq_subscribe ?tr1)"
  have c1: "?c1 = snd (metered_subscribe m t (?seed c))"
    and e: "s1 = \<lparr>rs_mountpoint = m, rs_user = u, rs_deadline = rs_deadline s1, rs_sub = Some (t, ?i), rs_buf = []\<rparr>"
    using run [OF assms(2)] assms(4) by auto
  have s1: "rs_sub s1 = Some (t, ?i)" "rs_mountpoint s1 = m" "rs_user s1 = u"
    using arg_cong [OF e, of rs_sub] arg_cong [OF e, of rs_mountpoint] arg_cong [OF e, of rs_user] by simp_all
  have t1: "map_of (cs_transports ?c1) m = Some t" "cs_store ?c1 t = ?tr1"
    using assms(2) by (simp_all add: c1 metered_subscribe_def Let_def case_prod_beta log_caster_def seeded)
  let ?c2 = "snd (metered_subscribe m t (?seed ?c1))"
  obtain s2 where s2: "stream_begin w now rq (m, u, limit) ?c1 = (Inr s2, ?c2)" "rs_sub s2 = Some (t, ?j)"
    using run [OF t1(1)] t1(2) by auto
  have tr2: "cs_store ?c2 t = ?tr2"
    by (simp add: metered_subscribe_def Let_def case_prod_beta log_caster_def seeded t1(2))
  have ok: "tq_ok (cs_store c t)" "tq_ok ?tr1" by (simp_all add: caster_ok_store_ok [OF assms(1)] tq_ok_subscribe)
  have "?j \<in> tq_active ?tr2" "?j \<noteq> ?i"
    using tq_active_subscribe [OF ok(2)] tq_active_subscribe [OF ok(1)] fresh_active [OF ok(2)] by auto
  then have "?j \<in> tq_active (tq_unsubscribe ?i ?tr2)"
    using tq_active_unsubscribe [OF tq_ok_subscribe [OF ok(2)], of ?i] by auto
  then show ?thesis
    using s2 s1 tr2 by (intro exI [of _ s2] exI [of _ ?c2] exI [of _ ?j])
      (simp add: seeded(3) stream_end_position, simp add: stream_end_def leave_subscription_def clear_rover_position_def
        Let_def split: option.split)
qed


section \<open>The nearest mountpoint\<close>

text \<open>
  NEAR and NEAREST offer the closest registered mountpoint, open or not. When that one is closed
  (its station has left, its entry stays registered until the reaper comes), the rover is refused,
  even if an open mountpoint is within its range.
\<close>
theorem nearest_refuses_behind_closed_base:
  assumes "parse_ntrip_gga (w_nmea w) (rq_headers rq NTRIP_GGA) = Some (lat, lon)"
    and "http_nearest (cs_mountpoints (ap_caster ap)) lat lon = Inr (Some i)"
    and "\<not> available i (ap_caster ap)"
  shows "fst (find_and_read w now rq ap) \<noteq> Inr g"
proof -
  have closed: "fst (stream_checks w rq i a) \<noteq> Inr ()" if "same_registry (ap_caster ap) (ap_caster a)" for a
    unfolding stream_checks_same [OF that] stream_checks_ok using assms(3) by simp
  have "fst (stream_mountpoint w now rq i ap) \<noteq> Inr g"
  proof
    assume "fst (stream_mountpoint w now rq i ap) = Inr g"
    then obtain u p limit a b where "on_caster (authenticate_rover (w_opa w) (w_checkpw w) u p i) a = (Inr (True, limit), b)"
      "ap_caster a = ap_caster ap" "fst (stream_checks w rq i b) = Inr ()"
      by (auto simp: stream_mountpoint_def then_do_def step_simps throttled_credentials_cases
          split: if_splits prod.splits sum.splits option.splits credentials.splits)
    moreover from this(1,2) have "same_registry (ap_caster ap) (ap_caster b)"
      using authenticate_rover_keeps [of "ap_caster ap"] on_caster_state [of "authenticate_rover (w_opa w) (w_checkpw w) u p i" a]
      by simp
    ultimately show False using closed by blast
  qed
  with assms(1,2) show ?thesis by (simp add: find_and_read_def)
qed

section \<open>Quality and source table\<close>

record quality_report =
  qr_mountpoint :: string
  qr_online :: bool
  qr_last_seen_seconds :: real
  qr_arp :: "(position3 \<times> int) option"
  qr_constellations :: "(string, quality_entry) dict"
  qr_parse_errors :: int
  qr_rover_positions :: "(string \<times> pyfloat \<times> pyfloat) list option"

definition mountpoint_quality_dict :: "real \<Rightarrow> string \<Rightarrow> caster \<Rightarrow> failure + quality_report" where
  "mountpoint_quality_dict now m c =
     (case map_of (cs_mountpoints c) m of
        None \<Rightarrow> Inl NotFound
      | Some mp \<Rightarrow>
          (let q = cs_quality c; positions = get_rover_positions m c in
           Inr \<lparr>qr_mountpoint = m,
                qr_online = dict_has (cs_transports c) m,
                qr_last_seen_seconds = py_round (now - mp_last_seen mp) 3,
                qr_arp = map_option (\<lambda>p. (p, counter_value (qs_log q) ''base_station_arp_changes_total'' [m])) (map_of (qs_arp q) m),
                qr_constellations = (case map_of (qs_quality q) m of None \<Rightarrow> [] | Some mq \<Rightarrow> quality_to_dict mq),
                qr_parse_errors = counter_value (qs_log q) ''rtcm_parse_errors_total'' [m],
                qr_rover_positions = (if positions = [] then None
                                      else Some (map (\<lambda>(rover_id, lat, lon). (rover_id, lat, lon)) positions))\<rparr>))"

text \<open>The source table's response: status, content type, headers, body\<close>

definition sourcetable_response :: "caster \<Rightarrow> nat \<times> string \<times> (string \<times> string) list \<times> string" where
  "sourcetable_response c =
     (200, ''gnss/sourcetable'', [(''Ntrip-Version'', NTRIP_VERSION_2), (''Cache-Control'', ''no-store, no-cache'')],
      format_sourcetable (cs_mountpoints c))"

text \<open>
  The quality report tells the truth about the caster: a mountpoint is reported exactly when it
  is registered, as online exactly when a rover could subscribe to it, and with exactly the rovers
  whose position the caster holds.
\<close>
theorem quality_report_is_current:
  "(\<forall>r. mountpoint_quality_dict now m c = Inr r \<longrightarrow>
      qr_online r = (Caster.subscribe m c \<noteq> Inl (KeyError m)) \<and> qr_online r = available m c \<and>
      (\<forall>u p. rover_position m u c = Some p \<longleftrightarrow>
         (\<exists>l. qr_rover_positions r = Some l \<and> map_of l u = Some p))) \<and>
   (mountpoint_quality_dict now m c = Inl NotFound \<longleftrightarrow> map_of (cs_mountpoints c) m = None)"
  by (auto simp: mountpoint_quality_dict_def Let_def Caster.subscribe_def available_def rover_position_def
      simp del: map_of_eq_Some_iff split: option.splits)

section \<open>Witnesses\<close>

definition demo_rover_request :: request where
  "demo_rover_request = \<lparr>rq_headers = [''Ntrip-Version'' \<mapsto> ''ntrip/2.0'', ''Ntrip-GGA'' \<mapsto> ''gga''],
     rq_credentials = Some (BasicAuth ''anonymous'' ''anon''), rq_remote_addr = [], rq_ip = None\<rparr>"

definition demo_open_app :: "(string, real \<times> bucket) dict app" where
  "demo_open_app = \<lparr>ap_caster = demo_caster, ap_limiter = None\<rparr>"

lemma demo_rover_facts:
  "header_is demo_rover_request NTRIP_VERSION NTRIP_VERSION_2"
  "parse_ntrip_gga (w_nmea demo_world) (rq_headers demo_rover_request NTRIP_GGA) = Some (Fin 51, Fin 4)"
  "may_attempt demo_world now demo_rover_request demo_open_app"
  "rover_decision demo_window 1750000000000000000 demo_data demo_checkpw ''anonymous'' ''anon'' ''BASE-1'' = (True, JInt 60)"
  "w_opa demo_world = Some (policy_client ''http://opa:8181/'' demo_window 1750000000000000000 demo_data)"
  "available ''BASE-1'' demo_caster"
proof -
  show "header_is demo_rover_request NTRIP_VERSION NTRIP_VERSION_2" by code_simp
  have "py_strip ''gga'' = ''gga''" by code_simp
  then show "parse_ntrip_gga (w_nmea demo_world) (rq_headers demo_rover_request NTRIP_GGA) = Some (Fin 51, Fin 4)"
    by (simp add: parse_ntrip_gga_def demo_world_def demo_rover_request_def NTRIP_GGA_def)
  show "may_attempt demo_world now demo_rover_request demo_open_app"
    by (simp add: may_attempt_def enforce_auth_rate_limit_def demo_open_app_def)
  show "rover_decision demo_window 1750000000000000000 demo_data demo_checkpw ''anonymous'' ''anon'' ''BASE-1'' = (True, JInt 60)"
    using demo_admits(1) [of "new_caster None 8"] by (simp add: demo_opa_def authenticate_rover_decides)
  show "w_opa demo_world = Some (policy_client ''http://opa:8181/'' demo_window 1750000000000000000 demo_data)"
    by (simp add: demo_world_def demo_opa_def)
  show "available ''BASE-1'' demo_caster" by (simp add: available_def demo_caster_facts del: map_of_eq_Some_iff)
qed

lemma demo_rover_in_reach: "\<exists>mp. map_of (cs_mountpoints demo_caster) ''BASE-1'' = Some mp \<and> in_reach demo_world demo_rover_request mp"
  by (simp add: demo_caster_facts(2) in_reach_def demo_rover_facts(2) demo_mountpoint_def del: map_of_eq_Some_iff)


lemma demo_stream:
  "fst (stream_mountpoint demo_world 6 demo_rover_request ''BASE-1'' demo_open_app) = Inr (''BASE-1'', ''anonymous'', JInt 60)"
  unfolding stream_mountpoint_cases [OF demo_rover_facts(5)] stream_checks_ok
  using demo_rover_facts(1,3,4,6) demo_rover_in_reach
  by (simp add: demo_open_app_def demo_world_def) (simp add: demo_rover_request_def)

lemma demo_begin:
  "\<exists>s. fst (stream_begin demo_world now demo_rover_request (''BASE-1'', ''anonymous'', JInt 60) demo_caster) = Inr s"
  by (simp add: stream_begin_def session_deadline_def Let_def case_prod_beta split: sum.split)


theorem anonymous_stream_is_cut_witness:
  "\<exists>s. fst (stream_begin demo_world 7 demo_rover_request (''BASE-1'', ''anonymous'', JInt 60) demo_caster) = Inr s \<and>
     (\<forall>(t, f) \<in> set (stream_writes (rs_deadline s) [(8, Delivered 1), (70, Delivered (2::nat))]). t < 67)"
proof -
  obtain s where s: "fst (stream_begin demo_world 7 demo_rover_request (''BASE-1'', ''anonymous'', JInt 60) demo_caster) = Inr s"
    using demo_begin by blast
  have "t < 67" if "(t, f) \<in> set (stream_writes (rs_deadline s) [(8, Delivered 1), (70, Delivered (2::nat))])" for t f
    using anonymous_stream_is_cut [OF demo_rover_facts(5) demo_stream s that] by simp
  then have "\<forall>(t, f) \<in> set (stream_writes (rs_deadline s) [(8, Delivered 1), (70, Delivered (2::nat))]). t < 67"
    by (intro ballI) (simp only: split_paired_all prod.case)
  with s show ?thesis by (intro exI conjI)
qed

theorem session_owns_its_position_witness:
  "\<exists>s. rover_position ''BASE-1'' ''anonymous'' (stream_end s demo_caster) = None"
proof -
  obtain s where "fst (stream_begin demo_world 6 demo_rover_request (''BASE-1'', ''anonymous'', JInt 60) demo_caster) = Inr s"
    using demo_begin by blast
  from session_owns_its_position [OF this]
  have "rover_position ''BASE-1'' ''anonymous'' (stream_end s demo_caster) = None" by simp
  then show ?thesis by (rule exI)
qed

theorem shared_account_loses_position_witness:
  "\<exists>s1 (s2 :: rover_session) c2 i. rs_sub s2 = Some (0, i) \<and> rover_position ''BASE-1'' ''anonymous'' (stream_end s1 c2) = None \<and>
     i \<in> tq_active (cs_store (stream_end s1 c2) 0)"
proof -
  obtain s1 where "fst (stream_begin demo_world 6 demo_rover_request (''BASE-1'', ''anonymous'', JInt 60) demo_caster) = Inr s1"
    using demo_begin by blast
  from shared_account_loses_position [OF demo_caster_ok demo_caster_facts(1) demo_rover_facts(2) this]
  show ?thesis by blast
qed

theorem gga_reader_chunking_witness:
  "fst (read_rover_gga (w_nmea demo_world) ''BASE-1'' ''rover'' [[103, 103], [97, 10, 1], [2]] demo_caster) = [1, 2]"
  using gga_reader_chunking [of "[[103, 103], [97, 10, 1], [2]]" "w_nmea demo_world" "''BASE-1''" "''rover''" demo_caster]
  by (simp add: lines_bounded_def NEWLINE_def MAX_GGA_BUFFER_def)

text \<open>The closer base is closed, the farther one open.\<close>

definition demo_two_bases :: "(string, real \<times> bucket) dict app" where
  "demo_two_bases = \<lparr>ap_caster = demo_caster\<lparr>cs_mountpoints :=
       [(''BASE-0'', demo_mountpoint\<lparr>mp_latitude := Some (Fin 51), mp_longitude := Some (Fin 4)\<rparr>),
        (''BASE-1'', demo_mountpoint)]\<rparr>, ap_limiter = None\<rparr>"

theorem nearest_refuses_behind_closed_base_witness:
  "available ''BASE-1'' (ap_caster demo_two_bases) \<and> fst (find_and_read demo_world 6 demo_rover_request demo_two_bases) \<noteq>
     Inr (''BASE-0'', ''anonymous'', JInt 60)"
proof -
  have far: "\<not> distance_km a b c d < 0" for a b c d using distance_range(1) [of a b c d] by linarith
  have near: "http_nearest (cs_mountpoints (ap_caster demo_two_bases)) (Fin 51) (Fin 4) = Inr (Some ''BASE-0'')"
    by (simp add: http_nearest_def demo_two_bases_def nearest_from.simps(2) base_distance_def demo_mountpoint_def haversine_Fin far)
  have "cs_transports demo_caster = [(''BASE-1'', 0)]" by (simp add: demo_defs case_prod_beta)
  then have "\<not> available ''BASE-0'' (ap_caster demo_two_bases)" "available ''BASE-1'' (ap_caster demo_two_bases)"
    by (simp_all add: available_def demo_two_bases_def)
  with nearest_refuses_behind_closed_base [OF demo_rover_facts(2) near, of 6] show ?thesis by blast
qed

end
