(* ===== verification/Base64.thy ===== *)
theory Base64
  imports PyText
begin

text \<open>
  Python's \<open>base64\<close> as the repository uses it: \<open>urlsafe_b64encode\<close> with the padding stripped
  (\<open>_b64url\<close> of \<open>rtcm/keys.py\<close>), and \<open>b64decode\<close> in its lenient mode, which skips foreign characters
  and stops at a complete padding. The round trip shows that nothing of a key is lost.
\<close>

section \<open>Digits\<close>

definition std_char :: "nat \<Rightarrow> char" where
  "std_char n =
     (if n < 26 then char_of (n + 65) else if n < 52 then char_of (n + 71)
      else if n < 62 then char_of (n - 4) else if n = 62 then CHR ''+'' else CHR ''/'')"

definition url_char :: "nat \<Rightarrow> char" where
  "url_char n = (if n = 62 then CHR ''-'' else if n = 63 then CHR ''_'' else std_char n)"

definition std_digit :: "char \<Rightarrow> nat option" where
  "std_digit c =
     (let n = (of_char c :: nat) in
      if 65 \<le> n \<and> n \<le> 90 then Some (n - 65)
      else if 97 \<le> n \<and> n \<le> 122 then Some (n - 71)
      else if 48 \<le> n \<and> n \<le> 57 then Some (n + 4)
      else if n = 43 then Some 62 else if n = 47 then Some 63 else None)"

section \<open>Encoding\<close>

fun sextets :: "nat list \<Rightarrow> nat list" where
  "sextets (a # b # c # rest) = a div 4 # (a mod 4 * 16 + b div 16) # (b mod 16 * 4 + c div 64) # c mod 64 # sextets rest"
| "sextets [a, b] = [a div 4, a mod 4 * 16 + b div 16, b mod 16 * 4]"
| "sextets [a] = [a div 4, a mod 4 * 16]"
| "sextets [] = []"

definition padding :: "nat \<Rightarrow> string" where
  "padding n = replicate ((3 - n mod 3) mod 3) CHR ''=''"

definition b64encode :: "(nat \<Rightarrow> char) \<Rightarrow> bytes \<Rightarrow> string" where
  "b64encode alphabet raw = map alphabet (sextets (map unat raw)) @ padding (length raw)"

text \<open>\<open>base64.urlsafe_b64encode(raw).rstrip(b"=").decode("ascii")\<close>\<close>

definition b64url :: "bytes \<Rightarrow> string" where
  "b64url raw = rev (dropWhile (\<lambda>c. c = CHR ''='') (rev (b64encode url_char raw)))"

section \<open>Decoding\<close>

text \<open>
  The state of the decoder: how many digits of the current group of four have been read, the bits
  not yet output, and the pads in a row. None is \<open>binascii.Error\<close>.
\<close>

fun a2b :: "(char \<Rightarrow> nat option) \<Rightarrow> nat \<Rightarrow> nat \<Rightarrow> nat \<Rightarrow> string \<Rightarrow> nat list option" where
  "a2b digit quad left pads [] = (if quad = 0 then Some [] else None)"
| "a2b digit quad left pads (c # cs) =
     (if c = CHR ''=''
      then (if 2 \<le> quad \<and> 4 \<le> quad + (pads + 1) then Some []
            else a2b digit quad left (if 2 \<le> quad then pads + 1 else pads) cs)
      else case digit c of
          None \<Rightarrow> a2b digit quad left pads cs
        | Some d \<Rightarrow>
            (if quad = 0 then a2b digit 1 d 0 cs
             else if quad = 1 then map_option ((#) (left * 4 + d div 16)) (a2b digit 2 (d mod 16) 0 cs)
             else if quad = 2 then map_option ((#) (left * 16 + d div 4)) (a2b digit 3 (d mod 4) 0 cs)
             else map_option ((#) (left * 64 + d)) (a2b digit 0 0 0 cs)))"

definition b64decode :: "string \<Rightarrow> bytes option" where
  "b64decode s = map_option (map of_nat) (a2b std_digit 0 0 0 s)"

section \<open>Round trips\<close>

lemma sextets_small: "\<forall>x \<in> set xs. x < 256 \<Longrightarrow> \<forall>d \<in> set (sextets xs). d < 64"
  by (induction xs rule: sextets.induct) auto

lemma std_digit_char: "n < 64 \<Longrightarrow> std_digit (std_char n) = Some n"
  by (auto simp: std_digit_def std_char_def Let_def of_char_of less_Suc_eq_le)

lemma of_char_pad: "(of_char CHR ''='' :: nat) = 61"
  by simp

lemma std_char_not_pad: "n < 64 \<Longrightarrow> std_char n \<noteq> CHR ''=''"
  using std_digit_char [of n] by (auto simp: std_digit_def)

lemma url_char_not_pad: "n < 64 \<Longrightarrow> url_char n \<noteq> CHR ''=''"
  by (auto simp: url_char_def std_char_not_pad)

definition reads :: "(nat \<Rightarrow> char) \<Rightarrow> (char \<Rightarrow> nat option) \<Rightarrow> bool" where
  "reads alphabet digit \<longleftrightarrow> (\<forall>n < 64. digit (alphabet n) = Some n \<and> alphabet n \<noteq> CHR ''='')"

lemma reads_std: "reads std_char std_digit"
  by (simp add: reads_def std_digit_char std_char_not_pad)

lemma a2b_digit:
  assumes "reads alphabet digit" "d < 64"
  shows "a2b digit quad left pads (alphabet d # cs) =
    (if quad = 0 then a2b digit 1 d 0 cs
     else if quad = 1 then map_option ((#) (left * 4 + d div 16)) (a2b digit 2 (d mod 16) 0 cs)
     else if quad = 2 then map_option ((#) (left * 16 + d div 4)) (a2b digit 3 (d mod 4) 0 cs)
     else map_option ((#) (left * 64 + d)) (a2b digit 0 0 0 cs))"
  using assms by (simp add: reads_def)

lemma byte_halves:
  assumes "a < 256" "b < (256::nat)"
  shows "a div 4 < 64" "a mod 4 * 16 + b div 16 < 64" "a div 4 * 4 + (a mod 4 * 16 + b div 16) div 16 = a"
    "(a mod 4 * 16 + b div 16) mod 16 = b div 16" "b mod 16 * 4 + c div 64 < 64 \<or> \<not> c < 256"
    "c < 256 \<Longrightarrow> b div 16 * 16 + (b mod 16 * 4 + c div 64) div 4 = b"
    "c < 256 \<Longrightarrow> (b mod 16 * 4 + c div 64) mod 4 = c div 64"
    "c div 64 * 64 + c mod 64 = c"
proof -
  have q: "b div 16 < 16" "a mod 4 < 4" "b mod 16 < 16" using assms(2) by (auto simp: less_mult_imp_div_less)
  show "a div 4 < 64" using assms(1) by (simp add: less_mult_imp_div_less)
  show "a mod 4 * 16 + b div 16 < 64" using q by simp
  show "a div 4 * 4 + (a mod 4 * 16 + b div 16) div 16 = a"
    using q by simp
  show "(a mod 4 * 16 + b div 16) mod 16 = b div 16" using q by simp
  show "b mod 16 * 4 + c div 64 < 64 \<or> \<not> c < 256" using q by (auto simp: less_mult_imp_div_less)
  assume "c < 256"
  then have c: "c div 64 < 4" by (simp add: less_mult_imp_div_less)
  show "b div 16 * 16 + (b mod 16 * 4 + c div 64) div 4 = b" using c by simp
  show "(b mod 16 * 4 + c div 64) mod 4 = c div 64" using c by simp
qed simp

lemma a2b_sextets:
  assumes "reads alphabet digit"
  shows "\<forall>x \<in> set xs. x < 256 \<Longrightarrow>
    a2b digit 0 l p (map alphabet (sextets xs) @ padding (length xs)) = Some xs"
proof (induction xs arbitrary: l p rule: sextets.induct)
  case (1 a b c rest)
  then have r: "a < 256" "b < 256" "c < 256" "\<forall>x \<in> set rest. x < 256" by simp_all
  note h = byte_halves [OF r(1,2)]
  have "padding (length (a # b # c # rest)) = padding (length rest)" by (simp add: padding_def)
  moreover have "c mod 64 < 64" "b mod 16 * 4 + c div 64 < 64" using h(5) [of c] r(3) by auto
  ultimately show ?case
    using "1.IH" [OF r(4)] h r(3) by (simp add: a2b_digit [OF assms] del: a2b.simps)
next
  case (2 a b)
  then have r: "a < 256" "b < 256" by simp_all
  note h = byte_halves [OF r]
  have "b mod 16 * 4 < 64" by simp
  then show ?case
    using h by (simp add: a2b_digit [OF assms] padding_def del: a2b.simps)
      (simp add: minus_mod_eq_mult_div [symmetric])
next
  case (3 a)
  then have r: "a < 256" by simp
  note h = byte_halves [OF r, of 0]
  show ?case
    using h by (simp add: a2b_digit [OF assms] padding_def numeral_2_eq_2 del: a2b.simps(2)) simp
next
  case 4
  show ?case by (simp add: padding_def)
qed

lemma unat_bytes: "\<forall>x \<in> set (map unat bs). x < 256" for bs :: bytes
proof -
  have "unat b < 256" for b :: byte using unsigned_less [of b] by simp
  then show ?thesis by auto
qed

lemma b64_roundtrip: "b64decode (b64encode std_char bs) = Some bs"
  using a2b_sextets [OF reads_std unat_bytes, of 0 0 bs]
  by (simp add: b64decode_def b64encode_def comp_def)

lemma b64url_digits: "b64url bs = map url_char (sextets (map unat bs))"
proof -
  let ?d = "map url_char (sextets (map unat bs))"
  have "\<forall>c \<in> set ?d. c \<noteq> CHR ''=''"
    using sextets_small [OF unat_bytes, of bs] url_char_not_pad by auto
  then have "rev ?d \<noteq> [] \<longrightarrow> hd (rev ?d) \<noteq> CHR ''=''"
    using hd_in_set [of "rev ?d"] unfolding set_rev by blast
  then have "dropWhile (\<lambda>c. c = CHR ''='') (rev ?d) = rev ?d"
    unfolding dropWhile_eq_self_iff by blast
  then have "dropWhile (\<lambda>c. c = CHR ''='') (rev (?d @ replicate n CHR ''='')) = rev ?d" for n
  proof -
    have "dropWhile (\<lambda>c. c = CHR ''='') (replicate n CHR ''='' @ rev ?d) = dropWhile (\<lambda>c. c = CHR ''='') (rev ?d)"
      by (induction n) simp_all
    with \<open>dropWhile (\<lambda>c. c = CHR ''='') (rev ?d) = rev ?d\<close> show ?thesis by (simp only: rev_append rev_replicate)
  qed
  then show ?thesis unfolding b64url_def b64encode_def padding_def by (simp only: rev_rev_ident)
qed

text \<open>A reader of JOSE's base64url restores the padding and the alphabet.\<close>

definition url_digit :: "char \<Rightarrow> nat option" where
  "url_digit c = (if c = CHR ''-'' then Some 62 else if c = CHR ''_'' then Some 63
                  else if c = CHR ''+'' \<or> c = CHR ''/'' then None else std_digit c)"

definition b64url_decode :: "string \<Rightarrow> bytes option" where
  "b64url_decode s =
     map_option (map of_nat) (a2b url_digit 0 0 0 (s @ replicate ((4 - length s mod 4) mod 4) CHR ''=''))"

lemma reads_url: "reads url_char url_digit"
proof -
  have "std_char n \<noteq> c" if "n < 62" "c \<in> {CHR ''-'', CHR ''_'', CHR ''+'', CHR ''/''}" for n c
    using that std_digit_char [of n] by (auto simp: std_digit_def)
  then show ?thesis
    by (auto simp: reads_def url_char_def url_digit_def std_digit_char std_char_not_pad less_Suc_eq numeral_eq_Suc)
qed

lemma length_sextets: "length (sextets xs) = 4 * (length xs div 3) + (if length xs mod 3 = 0 then 0 else length xs mod 3 + 1)"
  by (induction xs rule: sextets.induct) (simp_all add: add.commute)

lemma sextet_padding: "replicate ((4 - length (sextets xs) mod 4) mod 4) CHR ''='' = padding (length xs)"
proof -
  have "length (sextets xs) mod 4 = (if length xs mod 3 = 0 then 0 else length xs mod 3 + 1)"
    unfolding length_sextets by (simp add: mod_Suc)
  moreover have "length xs mod 3 = 0 \<or> length xs mod 3 = 1 \<or> length xs mod 3 = 2" by linarith
  ultimately show ?thesis by (elim disjE) (simp_all only: padding_def, simp_all)
qed

lemma b64url_roundtrip: "b64url_decode (b64url bs) = Some bs"
  using a2b_sextets [OF reads_url unat_bytes, of 0 0 bs] sextet_padding [of "map unat bs"]
  by (simp add: b64url_decode_def b64url_digits comp_def)

end
