(* ===== verification/SigningKeys.thy ===== *)
theory SigningKeys
  imports Base64 Env
begin

text \<open>
  Signing keys, \<open>rtcm/keys.py\<close>: the JWK view of an Ed25519 key and where the key comes from. The
  \<open>cryptography\<close> package (PEM parsing, key generation, public keys, signatures) and SHA-256 are
  parameters; a private key is its 32-byte seed.
\<close>

section \<open>Keys\<close>

datatype pem_result = PemInvalid | PemOtherKey | PemEd25519 bytes

record key_library =
  kl_load_pem :: "bytes \<Rightarrow> pem_result"
  kl_generate :: bytes
  kl_public :: "bytes \<Rightarrow> bytes"
  kl_sign :: "bytes \<Rightarrow> bytes \<Rightarrow> bytes"
  kl_verify :: "bytes \<Rightarrow> bytes \<Rightarrow> bytes \<Rightarrow> bool option"
  kl_sha256 :: "bytes \<Rightarrow> bytes"

record signing_key =
  sk_private :: bytes
  sk_public :: bytes
  sk_kid :: string

definition encode_ascii :: "string \<Rightarrow> bytes" where
  "encode_ascii s = map of_char s"

definition QUOTE :: char where
  "QUOTE = CHR 0x22"

definition quoted :: "string \<Rightarrow> string" where
  "quoted s = QUOTE # s @ [QUOTE]"

text \<open>The canonical JSON of RFC 7638 and its hash\<close>

definition jwk_thumbprint :: "key_library \<Rightarrow> bytes \<Rightarrow> string" where
  "jwk_thumbprint lib public_key =
     (let x = b64url public_key;
          canonical = ''{'' @ quoted ''crv'' @ '':'' @ quoted ''Ed25519'' @ '','' @ quoted ''kty'' @ '':'' @ quoted ''OKP'' @
                      '','' @ quoted ''x'' @ '':'' @ quoted x @ ''}''
      in b64url (kl_sha256 lib (encode_ascii canonical)))"

definition new_signing_key :: "key_library \<Rightarrow> bytes \<Rightarrow> signing_key" where
  "new_signing_key lib private_key =
     (let public = kl_public lib private_key in
      \<lparr>sk_private = private_key, sk_public = public, sk_kid = jwk_thumbprint lib public\<rparr>)"

definition sign_payload :: "key_library \<Rightarrow> signing_key \<Rightarrow> bytes \<Rightarrow> bytes" where
  "sign_payload lib k payload = kl_sign lib (sk_private k) payload"

text \<open>\<open>ed25519_verify\<close> of \<open>crypto/sign.py\<close>: a rejected or malformed signature is False; None is one of the caught exceptions.\<close>

definition verify_payload :: "key_library \<Rightarrow> bytes \<Rightarrow> bytes \<Rightarrow> bytes \<Rightarrow> bool" where
  "verify_payload lib payload sig public_key =
     (case kl_verify lib public_key sig payload of Some ok \<Rightarrow> ok | None \<Rightarrow> False)"

definition jwk :: "signing_key \<Rightarrow> (string, string) dict" where
  "jwk k = [(''kty'', ''OKP''), (''crv'', ''Ed25519''), (''x'', b64url (sk_public k)), (''kid'', sk_kid k),
            (''use'', ''sig''), (''alg'', ''EdDSA'')]"

definition jwks :: "signing_key \<Rightarrow> (string, (string, string) dict list) dict" where
  "jwks k = [(''keys'', [jwk k])]"

definition from_private_pem :: "key_library \<Rightarrow> bytes \<Rightarrow> py_error + signing_key" where
  "from_private_pem lib pem =
     (case kl_load_pem lib pem of
        PemInvalid \<Rightarrow> Inl ValueError
      | PemOtherKey \<Rightarrow> Inl TypeError
      | PemEd25519 seed \<Rightarrow> Inr (new_signing_key lib seed))"

text \<open>\<open>Ed25519PrivateKey.from_private_bytes\<close> accepts exactly 32 bytes.\<close>

definition from_seed :: "key_library \<Rightarrow> bytes \<Rightarrow> py_error + signing_key" where
  "from_seed lib seed = (if length seed = 32 then Inr (new_signing_key lib seed) else Inl ValueError)"

section \<open>Provisioning\<close>

definition begins_with :: "string \<Rightarrow> string \<Rightarrow> bool" where
  "begins_with prefix s \<longleftrightarrow> take (length prefix) s = prefix"

text \<open>\<open>read_file\<close> is the file system; a file that cannot be opened raises \<open>OSError\<close>.\<close>

definition resolve_signing_key ::
  "key_library \<Rightarrow> (string \<Rightarrow> bytes option) \<Rightarrow> string option \<Rightarrow> string option \<Rightarrow> bool \<Rightarrow> py_error + signing_key" where
  "resolve_signing_key lib read_file key_path key_inline allow_ephemeral =
     (if truthy key_inline
      then
        (let s = py_strip (the key_inline) in
         if begins_with ''-----BEGIN'' s then from_private_pem lib (encode_ascii s)
         else (case b64decode s of None \<Rightarrow> Inl ValueError | Some seed \<Rightarrow> from_seed lib seed))
      else if truthy key_path
      then (case read_file (the key_path) of None \<Rightarrow> Inl OSError | Some pem \<Rightarrow> from_private_pem lib pem)
      else if \<not> allow_ephemeral then Inl ValueError
      else Inr (new_signing_key lib (kl_generate lib)))"

lemma resolved_from:
  "resolve_signing_key lib read_file key_path key_inline allow_ephemeral = Inr k \<Longrightarrow>
     truthy key_inline \<or> truthy key_path \<or> allow_ephemeral"
  by (auto simp: resolve_signing_key_def split: if_splits)

section \<open>Properties\<close>


lemma std_char_plain: "n < 64 \<Longrightarrow> \<not> is_space (std_char n) \<and> std_char n \<noteq> CHR ''-''"
  using std_digit_char [of n] by (auto simp: std_digit_def is_space_def Let_def split: if_splits)

lemma b64encode_chars: "c \<in> set (b64encode std_char bs) \<Longrightarrow> \<not> is_space c \<and> c \<noteq> CHR ''-''"
  using sextets_small [OF unat_bytes, of bs] std_char_plain
  by (auto simp: b64encode_def padding_def is_space_def Let_def)

lemma strip_around:
  assumes "\<forall>c \<in> set xs. \<not> is_space c" "\<forall>c \<in> set v. is_space c" "\<forall>c \<in> set w. is_space c"
  shows "py_strip (v @ xs @ w) = xs"
proof -
  have skip: "dropWhile is_space (ws @ ys) = ys" if "\<forall>c \<in> set ws. is_space c" "ys = [] \<or> \<not> is_space (hd ys)" for ws ys
    using that by (induction ws) (auto simp: dropWhile_eq_self_iff)
  show ?thesis
  proof (cases "xs = []")
    case True
    have "\<forall>c \<in> set (v @ xs @ w). is_space c" using True assms(2,3) by auto
    then have "dropWhile is_space (v @ xs @ w) = []" unfolding dropWhile_eq_Nil_conv .
    then show ?thesis unfolding py_strip_def by (simp only: True rev.simps dropWhile.simps)
  next
    case False
    then have "dropWhile is_space (v @ xs @ w) = xs @ w" using assms(1,2) by (intro skip) auto
    moreover have "dropWhile is_space (rev w @ rev xs) = rev xs"
      using False assms(1,3) hd_in_set [of "rev xs"] by (intro skip) auto
    ultimately show ?thesis by (simp add: py_strip_def)
  qed
qed

text \<open>
  An inline key wins over a file and over the development fallback, and a 32-byte seed given in
  base64, surrounded by any white space, is the private key that signs.
\<close>
theorem inline_seed_is_used:
  assumes "length seed = 32" "\<forall>c \<in> set v. is_space c" "\<forall>c \<in> set w. is_space c"
  shows "resolve_signing_key lib read_file key_path (Some (v @ b64encode std_char seed @ w)) allow_ephemeral =
           Inr (new_signing_key lib seed) \<and>
         sk_private (new_signing_key lib seed) = seed"
proof -
  let ?b = "b64encode std_char seed"
  have strip: "py_strip (v @ ?b @ w) = ?b"
    by (rule strip_around) (use assms b64encode_chars in auto)
  have "?b \<noteq> []" using assms(1) by (cases "map unat seed" rule: sextets.cases) (auto simp: b64encode_def)
  moreover from this have "hd ?b \<noteq> CHR ''-''" using b64encode_chars [of "hd ?b" seed] hd_in_set by blast
  ultimately have "\<not> begins_with ''-----BEGIN'' ?b" "truthy (Some (v @ ?b @ w))"
    by (cases ?b; simp add: begins_with_def truthy_def)+
  then show ?thesis
    using assms(1) by (simp add: resolve_signing_key_def strip b64_roundtrip from_seed_def Let_def) (simp add: new_signing_key_def Let_def)
qed

theorem inline_seed_is_used_witness:
  "resolve_signing_key \<lparr>kl_load_pem = (\<lambda>_. PemInvalid), kl_generate = [], kl_public = (\<lambda>s. s), kl_sign = (\<lambda>k p. p),
       kl_verify = (\<lambda>k s p. None), kl_sha256 = (\<lambda>b. b)\<rparr> (\<lambda>_. None) (Some ''key.pem'')
     (Some ('' '' @ b64encode std_char (replicate 32 7) @ [CHR 0x0A])) False =
   Inr (new_signing_key \<lparr>kl_load_pem = (\<lambda>_. PemInvalid), kl_generate = [], kl_public = (\<lambda>s. s), kl_sign = (\<lambda>k p. p),
       kl_verify = (\<lambda>k s p. None), kl_sha256 = (\<lambda>b. b)\<rparr> (replicate 32 7))"
  by (rule inline_seed_is_used [THEN conjunct1]) (simp_all add: is_space_def)

end
