(* ===== verification/RtcmRoutes.thy ===== *)
theory RtcmRoutes
  imports HttpGate Tokens SigningKeys
begin

text \<open>
  The HTTP side of the UDP egress: configuration and start-up (\<open>services/v1/rtcm/base.py\<close>), the
  session bootstrap (\<open>session.py\<close>) and the key publication (\<open>jwks.py\<close>).
\<close>

section \<open>Configuration\<close>

text \<open>A variable that is set to the empty string is read as None.\<close>

record rtcm_config =
  rc_enabled :: bool
  rc_signing_enabled :: bool
  rc_udp_host :: "string option"
  rc_udp_port :: "int option"
  rc_udp_endpoint :: "string option"
  rc_token_secret :: string
  rc_token_ttl :: "int option"
  rc_session_ttl :: "pyfloat option"
  rc_keepalive_interval :: "int option"
  rc_max_datagram :: "int option"
  rc_allow_ephemeral_key :: bool

abbreviation read_env :: "environ \<Rightarrow> string \<Rightarrow> string \<Rightarrow> (string \<Rightarrow> py_error + 'a) \<Rightarrow> py_error + 'a option" where
  "read_env environ key d dtype \<equiv> env_extract environ key True (Some d) None dtype"

definition host_port :: "string option \<Rightarrow> int option \<Rightarrow> string" where
  "host_port host port =
     (case host of None \<Rightarrow> ''None'' | Some h \<Rightarrow> h) @ '':'' @ (case port of None \<Rightarrow> ''None'' | Some p \<Rightarrow> str_of_int p)"

definition load_config :: "environ \<Rightarrow> py_error + rtcm_config" where
  "load_config environ =
     andThen (flag environ ''RTCM_UDP_ENABLED'' ''false'') (\<lambda>enabled.
     andThen (read_env environ ''RTCM_UDP_HOST'' ''0.0.0.0'' as_str) (\<lambda>host.
     andThen (read_env environ ''RTCM_UDP_PORT'' ''5009'' as_int) (\<lambda>port.
     andThen (read_env environ ''RTCM_SESSION_TOKEN_SECRET'' [] as_str) (\<lambda>secret.
     let token_secret = opt_default [] secret in
     if enabled \<and> token_secret = [] then Inl ValueError
     else
       andThen (flag environ ''RTCM_UDP_SIGNING_ENABLED'' ''false'') (\<lambda>signing_enabled.
       andThen (read_env environ ''RTCM_UDP_ENDPOINT'' (host_port host port) as_str) (\<lambda>udp_endpoint.
       andThen (read_env environ ''RTCM_SESSION_TOKEN_TTL'' ''60'' as_int) (\<lambda>token_ttl.
       andThen (read_env environ ''RTCM_UDP_SESSION_TTL'' ''30'' as_float) (\<lambda>session_ttl.
       andThen (read_env environ ''RTCM_UDP_KEEPALIVE_INTERVAL'' ''10'' as_int) (\<lambda>keepalive_interval.
       andThen (read_env environ ''RTCM_UDP_MAX_DATAGRAM'' ''1200'' as_int) (\<lambda>max_datagram.
       andThen (flag environ ''RTCM_SIGNING_ALLOW_EPHEMERAL'' ''false'') (\<lambda>allow_ephemeral_key.
       Inr \<lparr>rc_enabled = enabled, rc_signing_enabled = signing_enabled, rc_udp_host = host, rc_udp_port = port,
            rc_udp_endpoint = udp_endpoint, rc_token_secret = token_secret, rc_token_ttl = token_ttl,
            rc_session_ttl = session_ttl, rc_keepalive_interval = keepalive_interval,
            rc_max_datagram = max_datagram, rc_allow_ephemeral_key = allow_ephemeral_key\<rparr>)))))))))))"

definition build_signing_key ::
  "key_library \<Rightarrow> (string \<Rightarrow> bytes option) \<Rightarrow> environ \<Rightarrow> rtcm_config \<Rightarrow> py_error + signing_key option" where
  "build_signing_key lib read_file environ config =
     (if \<not> rc_signing_enabled config then Inr None
      else
        andThen (env_extract environ ''RTCM_SIGNING_KEY_PATH'' True None None as_str) (\<lambda>key_path.
        andThen (env_extract environ ''RTCM_SIGNING_PRIVATE_KEY'' True None None as_str) (\<lambda>key_inline.
        andThen (resolve_signing_key lib read_file key_path key_inline (rc_allow_ephemeral_key config)) (\<lambda>k.
        Inr (Some k)))))"

text \<open>\<open>app.ctx\<close> after \<open>setup\<close>; \<open>rx_server\<close>: a UDP server was built from the configuration and started.\<close>

record rtcm_ctx =
  rx_config :: rtcm_config
  rx_signing_key :: "signing_key option"
  rx_server :: bool

definition rtcm_setup ::
  "key_library \<Rightarrow> (string \<Rightarrow> bytes option) \<Rightarrow> environ \<Rightarrow> bool \<Rightarrow> py_error + rtcm_ctx" where
  "rtcm_setup lib read_file environ has_caster =
     andThen (load_config environ) (\<lambda>config.
       if \<not> rc_enabled config then Inr \<lparr>rx_config = config, rx_signing_key = None, rx_server = False\<rparr>
       else
         andThen (build_signing_key lib read_file environ config) (\<lambda>key.
         Inr \<lparr>rx_config = config, rx_signing_key = key, rx_server = has_caster\<rparr>))"

text \<open>\<open>after_server_stop\<close>: the server is stopped and dropped, if there is one.\<close>

definition rtcm_finalize :: "rtcm_ctx \<Rightarrow> rtcm_ctx" where
  "rtcm_finalize x = (if rx_server x then x\<lparr>rx_server := False\<rparr> else x)"

section \<open>The routes\<close>

text \<open>\<open>request.json\<close>: a body that is not JSON raises; no body gives None.\<close>

datatype json_body = NotJson | NoBody | JsonBody json

definition requested_mountpoint :: "json_body \<Rightarrow> failure + string" where
  "requested_mountpoint body =
     (case body of
        NotJson \<Rightarrow> Inl BadRequest
      | NoBody \<Rightarrow> Inl BadRequest
      | JsonBody j \<Rightarrow>
          (case json_get (if json_true j then j else JObj []) ''mountpoint'' of
             Inl e \<Rightarrow> Inl (Unhandled e)
           | Inr (JStr m) \<Rightarrow> if m = [] then Inl BadRequest else Inr m
           | Inr _ \<Rightarrow> Inl BadRequest))"

record session_reply =
  sr_token :: string
  sr_udp_endpoint :: "string option"
  sr_signing_kid :: "string option"

text \<open>The time to live is a number here; None would raise in \<open>now + ttl\<close>.\<close>

definition create_session ::
  "'k world \<Rightarrow> jwt_library \<Rightarrow> rtcm_ctx \<Rightarrow> real \<Rightarrow> int \<Rightarrow> request \<Rightarrow> json_body \<Rightarrow> ('k, session_reply) handler" where
  "create_session w jwt x now unix_now rq body =
     then_do (require_that (rc_enabled (rx_config x)) NotFound) (\<lambda>_.
     then_do (require_that (rq_credentials rq \<noteq> None) Unauthorized) (\<lambda>_.
     case requested_mountpoint body of
       Inl e \<Rightarrow> fail e
     | Inr m \<Rightarrow>
         then_do (charge w now rq) (\<lambda>_.
         then_do (basic_credentials rq) (\<lambda>(username, password).
         then_do (on_caster (authenticate_rover (w_opa w) (w_checkpw w) username password m)) (\<lambda>(allowed, _).
         then_do (require_that allowed Unauthorized) (\<lambda>_.
         case rc_token_ttl (rx_config x) of
           None \<Rightarrow> fail (Unhandled TypeError)
         | Some ttl \<Rightarrow>
             return \<lparr>sr_token = issue_session_token jwt unix_now (rc_token_secret (rx_config x)) username m ttl,
                     sr_udp_endpoint = rc_udp_endpoint (rx_config x),
                     sr_signing_kid = map_option sk_kid (rx_signing_key x)\<rparr>))))))"

definition jwks_response :: "rtcm_ctx \<Rightarrow> failure + (string, (string, string) dict list) dict" where
  "jwks_response x = (case rx_signing_key x of None \<Rightarrow> Inl NotFound | Some k \<Rightarrow> Inr (jwks k))"

section \<open>Properties\<close>

text \<open>
  The egress never starts half configured. A started server has a non-empty token secret and,
  where signing is on, a signing key that was configured or explicitly allowed to be ephemeral; a
  disabled egress has neither server nor key.
\<close>
theorem egress_starts_fully_configured:
  assumes "rtcm_setup lib read_file environ has_caster = Inr x"
  shows "(rx_server x \<longrightarrow> has_caster \<and> rc_enabled (rx_config x) \<and> rc_token_secret (rx_config x) \<noteq> []) \<and>
     (rc_enabled (rx_config x) \<longrightarrow> (rx_signing_key x \<noteq> None) = rc_signing_enabled (rx_config x)) \<and>
     (\<not> rc_enabled (rx_config x) \<longrightarrow> \<not> rx_server x \<and> rx_signing_key x = None) \<and>
     (rx_signing_key x \<noteq> None \<longrightarrow>
        truthy (environ ''RTCM_SIGNING_PRIVATE_KEY'') \<or> truthy (environ ''RTCM_SIGNING_KEY_PATH'') \<or>
        rc_allow_ephemeral_key (rx_config x))"
proof -
  obtain config where c: "load_config environ = Inr config" and x: "rx_config x = config"
    using assms by (auto simp: rtcm_setup_def andThen_Inr_iff split: if_splits)
  have secret: "rc_enabled config \<longrightarrow> rc_token_secret config \<noteq> []"
    using c by (auto simp: load_config_def andThen_Inr_iff Let_def split: if_splits)
  have key: "build_signing_key lib read_file environ config = Inr k \<Longrightarrow>
      (k \<noteq> None) = rc_signing_enabled config \<and>
      (k \<noteq> None \<longrightarrow> truthy (environ ''RTCM_SIGNING_PRIVATE_KEY'') \<or> truthy (environ ''RTCM_SIGNING_KEY_PATH'') \<or>
        rc_allow_ephemeral_key config)" for k
    unfolding build_signing_key_def
    by (auto simp: andThen_Inr_iff split: if_splits dest!: resolved_from dest: given_value)
  from assms c show ?thesis
    using secret key by (auto simp: rtcm_setup_def andThen_Inr_iff split: if_splits)
qed

lemma map_sum_Inr_iff: "map_sum f id x = Inr y \<longleftrightarrow> x = Inr y"
  by (cases x) auto

lemma create_session_Inr:
  assumes "create_session w jwt x now unix_now rq body ap = (Inr reply, ap')"
  shows "\<exists>m u p limit ttl. rc_enabled (rx_config x) \<and> requested_mountpoint body = Inr m \<and> may_attempt w now rq ap \<and>
     rq_credentials rq = Some (BasicAuth u p) \<and> rc_token_ttl (rx_config x) = Some ttl \<and>
     fst (authenticate_rover (w_opa w) (w_checkpw w) u p m (ap_caster ap)) = Inr (True, limit) \<and>
     sr_token reply = issue_session_token jwt unix_now (rc_token_secret (rx_config x)) u m ttl"
  using assms
  by (auto simp: create_session_def then_do_def step_simps charge_def basic_credentials_def may_attempt_def on_caster_def
      map_sum_Inr_iff
      split: if_splits prod.splits sum.splits option.splits credentials.splits)


text \<open>
  The bootstrap forgets the session limit. Whatever \<open>max_session_seconds\<close> the policy attaches to
  a rover (60 for \<open>anonymous\<close>), the reply and its token are the same as without it, so nothing tells
  the UDP server to end the session.
\<close>
theorem bootstrap_forgets_session_limit:
  assumes "\<And>u m. query opa1 ''corshub/rover'' (rover_input u m) = JObj (d1 u m)"
    and "\<And>u m. query opa2 ''corshub/rover'' (rover_input u m) = JObj (AList.update ''max_session_seconds'' limit (d1 u m))"
  shows "fst (create_session (w\<lparr>w_opa := Some opa1\<rparr>) jwt x now unix_now rq body ap) =
         fst (create_session (w\<lparr>w_opa := Some opa2\<rparr>) jwt x now unix_now rq body ap)"
proof -
  have same: "\<exists>ok l1 l2 c1 c2. authenticate_rover (Some opa1) checkpw u p m c = (Inr (ok, l1), c1) \<and>
              authenticate_rover (Some opa2) checkpw u p m c = (Inr (ok, l2), c2)" for checkpw u p m c
  proof -
    have "\<exists>ok l1 l2. fst (authenticate_rover (Some opa1) checkpw u p m c) = Inr (ok, l1) \<and>
          fst (authenticate_rover (Some opa2) checkpw u p m c) = Inr (ok, l2)"
      by (cases "json_true (opt_default JNull (map_of (d1 u m) ''allow''))")
         (auto simp: authenticate_rover_def assms verdicts_of_objects dict_simps)
    then show ?thesis
      by (cases "authenticate_rover (Some opa1) checkpw u p m c"; cases "authenticate_rover (Some opa2) checkpw u p m c") auto
  qed
  show ?thesis
  proof (cases "requested_mountpoint body")
    case (Inl e)
    then show ?thesis by (simp add: create_session_def then_do_def step_simps)
  next
    case (Inr m)
    show ?thesis
    proof (cases "rq_credentials rq")
      case (Some cr)
      show ?thesis
      proof (cases cr)
        case (BasicAuth u p)
        obtain ok l1 l2 c1 c2 where "authenticate_rover (Some opa1) (w_checkpw w) u p m (ap_caster ap) = (Inr (ok, l1), c1)"
          "authenticate_rover (Some opa2) (w_checkpw w) u p m (ap_caster ap) = (Inr (ok, l2), c2)"
          using same by blast
        with Some Inr BasicAuth show ?thesis
          by (simp add: create_session_def then_do_def step_simps charge_def basic_credentials_def on_caster_def
              split: prod.split sum.split option.split)
      qed (simp add: create_session_def then_do_def step_simps charge_def basic_credentials_def Inr Some split: prod.split)
    qed (simp add: create_session_def then_do_def step_simps)
  qed
qed


section \<open>Witnesses\<close>

definition demo_keys :: key_library where
  "demo_keys = \<lparr>kl_load_pem = (\<lambda>_. PemInvalid), kl_generate = replicate 32 1, kl_public = rev, kl_sign = (\<lambda>k p. p),
     kl_verify = (\<lambda>k s p. Some (s = p)), kl_sha256 = (\<lambda>b. b)\<rparr>"

definition demo_environ :: environ where
  "demo_environ = [''RTCM_UDP_ENABLED'' \<mapsto> ''True'', ''RTCM_SESSION_TOKEN_SECRET'' \<mapsto> ''s3cret'']"

definition demo_config_values :: rtcm_config where
  "demo_config_values = \<lparr>rc_enabled = True, rc_signing_enabled = False, rc_udp_host = Some ''0.0.0.0'', rc_udp_port = Some 5009,
     rc_udp_endpoint = Some ''0.0.0.0:5009'', rc_token_secret = ''s3cret'', rc_token_ttl = Some 60,
     rc_session_ttl = Some (Fin 30), rc_keepalive_interval = Some 10, rc_max_datagram = Some 1200,
     rc_allow_ephemeral_key = False\<rparr>"

definition demo_rtcm :: rtcm_ctx where
  "demo_rtcm = \<lparr>rx_config = demo_config_values, rx_signing_key = None, rx_server = True\<rparr>"

lemma demo_load_with:
  "\<exists>x. rtcm_setup demo_keys (\<lambda>_. None) (demo_environ(''OPA_URL'' := a, ''AUTH_RATELIMIT_ENABLED'' := b)) True = Inr x \<and>
     rc_enabled (rx_config x) \<and> rx_server x"
proof -
  have n: "as_int ''5009'' = Inr 5009" "as_int ''60'' = Inr 60" "as_int ''10'' = Inr 10" "as_int ''1200'' = Inr 1200"
    by code_simp+
  have f: "map to_lower (py_strip ''True'') = ''true''" "map to_lower (py_strip ''false'') = ''false''" by code_simp+
  have p: "py_sign (py_lower (py_strip ''30'')) = (False, ''30'')" "break_at (CHR ''e'') ''30'' = (''30'', None)"
    "break_at (CHR ''.'') ''30'' = (''30'', None)" "digit_run ''30'' = Some [3, 0]" by code_simp+
  have t: "\<exists>x. as_float ''30'' = Inr x"
    by (simp add: as_float_def py_float_def unsigned_float_def mantissa_def p del: digit_run.simps)
  show ?thesis
    using t
    by (auto simp: rtcm_setup_def load_config_def flag_cases env_extract_optional demo_environ_def n f as_str_def Let_def
        build_signing_key_def)
qed

lemma demo_load: "\<exists>x. rtcm_setup demo_keys (\<lambda>_. None) demo_environ True = Inr x \<and> rx_server x"
proof -
  have "demo_environ(''OPA_URL'' := None, ''AUTH_RATELIMIT_ENABLED'' := None) = demo_environ"
    by (rule ext) (simp add: demo_environ_def)
  with demo_load_with [of None None] show ?thesis by auto
qed

theorem egress_starts_fully_configured_witness:
  "\<exists>x. rtcm_setup demo_keys (\<lambda>_. None) demo_environ True = Inr x \<and> rc_token_secret (rx_config x) \<noteq> []"
proof -
  obtain x where x: "rtcm_setup demo_keys (\<lambda>_. None) demo_environ True = Inr x" "rx_server x" using demo_load by blast
  from egress_starts_fully_configured [OF x(1)] x show ?thesis by blast
qed

definition demo_routes_world :: "(string, real \<times> bucket) dict world" where
  "demo_routes_world = \<lparr>w_cache = list_cache 3600,
     w_opa = Some (policy_client ''http://opa:8181/'' demo_window 1750000000000000000 demo_data), w_checkpw = demo_checkpw,
     w_nmea = (\<lambda>_. NmeaRaises), w_quality = demo_config\<rparr>"

definition demo_client :: request where
  "demo_client = \<lparr>rq_headers = Map.empty, rq_credentials = Some (BasicAuth ''anonymous'' ''anon''),
     rq_remote_addr = [], rq_ip = None\<rparr>"

definition demo_body :: json_body where
  "demo_body = JsonBody (JObj [(''mountpoint'', JStr ''BASE-1'')])"

abbreviation demo_ap :: "(string, real \<times> bucket) dict app" where
  "demo_ap \<equiv> \<lparr>ap_caster = new_caster None 8, ap_limiter = None\<rparr>"

lemma demo_create:
  "\<exists>reply ap'. create_session demo_routes_world stroke_library demo_rtcm 0 100 demo_client demo_body demo_ap = (Inr reply, ap')"
proof -
  have "fst (authenticate_rover (w_opa demo_routes_world) (w_checkpw demo_routes_world) ''anonymous'' ''anon'' ''BASE-1'' (new_caster None 8)) =
      Inr (True, JInt 60)"
    using demo_admits(1) by (simp add: demo_routes_world_def demo_opa_def)
  then obtain c where "authenticate_rover (w_opa demo_routes_world) (w_checkpw demo_routes_world) ''anonymous'' ''anon'' ''BASE-1'' (new_caster None 8) =
      (Inr (True, JInt 60), c)"
    by (cases "authenticate_rover (w_opa demo_routes_world) (w_checkpw demo_routes_world) ''anonymous'' ''anon'' ''BASE-1'' (new_caster None 8)") simp
  then show ?thesis
    by (simp add: create_session_def then_do_def step_simps demo_rtcm_def demo_config_values_def demo_client_def demo_body_def
        requested_mountpoint_def charge_def enforce_auth_rate_limit_def basic_credentials_def on_caster_def)
qed


text \<open>Two policies that differ in the limit only\<close>

definition limit_opa :: "(string, json) dict \<Rightarrow> opa_client" where
  "limit_opa d = \<lparr>oc_base_url = [], oc_session = (\<lambda>url doc. Reply 200 (Some (JObj [(''result'', JObj d)])))\<rparr>"

theorem bootstrap_forgets_session_limit_witness:
  "fst (create_session (demo_routes_world\<lparr>w_opa := Some (limit_opa [(''allow'', JBool True), (''password_hash'', JStr ''$anon'')])\<rparr>)
      stroke_library demo_rtcm 0 100 demo_client demo_body demo_ap) =
   fst (create_session (demo_routes_world\<lparr>w_opa := Some (limit_opa [(''allow'', JBool True), (''password_hash'', JStr ''$anon''),
        (''max_session_seconds'', JInt 60)])\<rparr>)
      stroke_library demo_rtcm 0 100 demo_client demo_body demo_ap)"
  by (rule bootstrap_forgets_session_limit [of _ "\<lambda>u m. [(''allow'', JBool True), (''password_hash'', JStr ''$anon'')]" _ "JInt 60"])
     (simp_all add: query_def limit_opa_def)

end
