(* ===== verification/Onboard.thy ===== *)
theory Onboard
  imports OpaAuth
begin

text \<open>
  The onboarding bot \<open>.github/scripts/onboard.py\<close>: which registry entries of a pull request get a
  password, and in which order hashes, fingerprints and comments are written. sops, git, age,
  ssh-keygen, bcrypt and the GitHub API are the environment; YAML text is given as the tree of its
  mappings, in which a key may still occur twice.
\<close>

section \<open>Environment and effects\<close>

datatype bot_error =
    RuntimeError string
  | OSErr string
  | CalledProcessError string
  | TimeoutExpired
  | YAMLError string
  | SystemExit int
  | IndexError
  | Python py_error

text \<open>What the script changes outside itself\<close>

datatype bot_effect =
    PostComment string
  | SopsSet "string list" string
  | WriteFingerprints json

type_synonym entry_id = "string \<times> string"

text \<open>
  Calls whose answers may differ from one entry to the next carry the entry (role, username).
  \<open>be_fails\<close> is the exception an effect raises instead of happening.
\<close>

record bot_env =
  be_actor :: string
  be_github_keys :: "entry_id \<Rightarrow> string \<Rightarrow> bot_error + (string, string) dict list"
  be_token :: "entry_id \<Rightarrow> string"
  be_hashpw :: "entry_id \<Rightarrow> string \<Rightarrow> string"
  be_age :: "entry_id \<Rightarrow> string \<Rightarrow> string list \<Rightarrow> bot_error + string"
  be_keygen :: "string \<Rightarrow> nat \<times> string list"
  be_fails :: "bot_effect \<Rightarrow> bot_error option"

definition perform :: "bot_env \<Rightarrow> bot_effect \<Rightarrow> bot_effect list \<Rightarrow> (bot_error + unit) \<times> bot_effect list" where
  "perform env eff out = (case be_fails env eff of Some e \<Rightarrow> (Inl e, out) | None \<Rightarrow> (Inr (), out @ [eff]))"

abbreviation NL :: string where "NL \<equiv> [CHR 0x0A]"

section \<open>Loading YAML\<close>

definition py_dict :: "(string \<times> json) list \<Rightarrow> (string, json) dict" where
  "py_dict pairs = fold (\<lambda>(k, v) d. AList.update k v d) pairs []"

fun first_duplicate :: "string list \<Rightarrow> (string \<times> json) list \<Rightarrow> string option" where
  "first_duplicate seen [] = None"
| "first_duplicate seen ((k, v) # pairs) = (if k \<in> set seen then Some k else first_duplicate (k # seen) pairs)"

definition no_duplicate_mapping :: "(string \<times> json) list \<Rightarrow> bot_error + json" where
  "no_duplicate_mapping pairs =
     (case first_duplicate [] pairs of
        Some k \<Rightarrow> Inl (YAMLError (''duplicate key: '' @ [CHR 0x27] @ k @ [CHR 0x27]))
      | None \<Rightarrow> Inr (JObj (py_dict pairs)))"

fun yaml_load :: "bool \<Rightarrow> json \<Rightarrow> bot_error + json"
and yaml_list :: "bool \<Rightarrow> json list \<Rightarrow> bot_error + json list"
and yaml_pairs :: "bool \<Rightarrow> (string \<times> json) list \<Rightarrow> bot_error + (string \<times> json) list" where
  "yaml_load strict (JObj pairs) =
     andThen (yaml_pairs strict pairs)
       (\<lambda>ps. if strict then no_duplicate_mapping ps else Inr (JObj (py_dict ps)))"
| "yaml_load strict (JList xs) = andThen (yaml_list strict xs) (\<lambda>ys. Inr (JList ys))"
| "yaml_load strict JNull = Inr JNull"
| "yaml_load strict (JBool b) = Inr (JBool b)"
| "yaml_load strict (JInt i) = Inr (JInt i)"
| "yaml_load strict (JStr s) = Inr (JStr s)"
| "yaml_list strict [] = Inr []"
| "yaml_list strict (x # xs) =
     andThen (yaml_load strict x) (\<lambda>y. andThen (yaml_list strict xs) (\<lambda>ys. Inr (y # ys)))"
| "yaml_pairs strict [] = Inr []"
| "yaml_pairs strict ((k, x) # ps) =
     andThen (yaml_load strict x) (\<lambda>y. andThen (yaml_pairs strict ps) (\<lambda>qs. Inr ((k, y) # qs)))"

text \<open>\<open>v or {}\<close>\<close>

definition or_empty :: "json \<Rightarrow> json" where
  "or_empty v = (if json_true v then v else JObj [])"

text \<open>The argument is what \<open>sops -d\<close> printed, or how it failed.\<close>

definition sops_decrypt :: "bool \<Rightarrow> bot_error + json \<Rightarrow> bot_error + json" where
  "sops_decrypt strict stdout = andThen stdout (\<lambda>t. andThen (yaml_load strict t) (\<lambda>v. Inr (or_empty v)))"

definition decrypt_main_values :: "bot_error + unit \<Rightarrow> bot_error + json \<Rightarrow> bot_error + json" where
  "decrypt_main_values git_show stdout =
     (case git_show of
        Inl (CalledProcessError _) \<Rightarrow> Inr (JObj [])
      | Inl e \<Rightarrow> Inl e
      | Inr _ \<Rightarrow> sops_decrypt False stdout)"

definition load_fingerprints :: "(bot_error + json) option \<Rightarrow> bot_error + json" where
  "load_fingerprints file =
     (case file of
        None \<Rightarrow> Inr (JObj [])
      | Some t \<Rightarrow> andThen t (\<lambda>t. andThen (yaml_load False t) (\<lambda>v. Inr (or_empty v))))"

section \<open>Which entries are concerned\<close>

text \<open>\<open>value.get(key, default)\<close> and \<open>key in value\<close>\<close>

fun get_or :: "json \<Rightarrow> string \<Rightarrow> json \<Rightarrow> bot_error + json" where
  "get_or (JObj d) k dflt = Inr (opt_default dflt (map_of d k))"
| "get_or _ k dflt = Inl (Python AttributeError)"

fun py_in :: "string \<Rightarrow> json \<Rightarrow> bot_error + bool" where
  "py_in k (JObj d) = Inr (dict_has d k)"
| "py_in k (JStr s) = Inr (is_infix k s)"
| "py_in k (JList xs) = Inr (JStr k \<in> set xs)"
| "py_in k _ = Inl (Python TypeError)"

definition registry_entries :: "json \<Rightarrow> string \<Rightarrow> bot_error + json" where
  "registry_entries values role =
     andThen (get_or values ''opa'' (JObj [])) (\<lambda>opa.
     andThen (get_or opa ''registry'' (JObj [])) (\<lambda>registry.
     andThen (get_or (or_empty registry) role (JObj [])) (\<lambda>entries. Inr (or_empty entries))))"

definition pinned_owner :: "json \<Rightarrow> string \<Rightarrow> string \<Rightarrow> bot_error + json" where
  "pinned_owner fp_data role username =
     andThen (get_or fp_data role (JObj [])) (\<lambda>r.
     andThen (get_or r username (JObj [])) (\<lambda>u. get_or u ''github_user'' JNull))"

record change_set =
  cs_new :: "(string, json) dict"
  cs_rotation :: "(string, json) dict"
  cs_tampered :: "string list"

definition tampered_label :: "string \<Rightarrow> string \<Rightarrow> string" where
  "tampered_label username role = ''`'' @ username @ ''` ('' @ role @ '')''"

fun detect_entries ::
  "bot_env \<Rightarrow> json \<Rightarrow> json \<Rightarrow> string \<Rightarrow> (string, json) dict \<Rightarrow> change_set \<Rightarrow> bot_error + change_set" where
  "detect_entries env main fp_data role [] cs = Inr cs"
| "detect_entries env main fp_data role ((username, entry) # pr) cs =
     andThen (py_in ''password_hash'' entry) (\<lambda>has_hash.
     andThen (py_in username main) (\<lambda>in_main.
       if \<not> in_main \<and> \<not> has_hash
       then detect_entries env main fp_data role pr (cs\<lparr>cs_new := AList.update username entry (cs_new cs)\<rparr>)
       else if in_main \<and> \<not> has_hash
       then andThen (pinned_owner fp_data role username) (\<lambda>owner.
              if owner = JStr (be_actor env)
              then detect_entries env main fp_data role pr (cs\<lparr>cs_rotation := AList.update username entry (cs_rotation cs)\<rparr>)
              else detect_entries env main fp_data role pr (cs\<lparr>cs_tampered := cs_tampered cs @ [tampered_label username role]\<rparr>))
       else detect_entries env main fp_data role pr cs))"

definition detect_changes :: "bot_env \<Rightarrow> json \<Rightarrow> json \<Rightarrow> json \<Rightarrow> string \<Rightarrow> bot_error + change_set" where
  "detect_changes env pr main fp_data role =
     (case pr of
        JObj entries \<Rightarrow> detect_entries env main fp_data role entries \<lparr>cs_new = [], cs_rotation = [], cs_tampered = []\<rparr>
      | _ \<Rightarrow> Inl (Python AttributeError))"

section \<open>One credential\<close>

record credential =
  cr_pw_hash :: string
  cr_encrypted :: string
  cr_fingerprints :: "string list"

definition unreserved :: "char \<Rightarrow> bool" where
  "unreserved c \<longleftrightarrow> is_upper c \<or> is_lower c \<or> is_digit c \<or> c \<in> set ''_.-~''"

definition hex_digit :: "nat \<Rightarrow> char" where
  "hex_digit n = ''0123456789ABCDEF'' ! n"

definition py_quote :: "string \<Rightarrow> string" where
  "py_quote s = concat (map (\<lambda>c. if unreserved c then [c]
     else [CHR ''%'', hex_digit (of_char c div 16), hex_digit (of_char c mod 16)]) s)"

definition fetch_ssh_keys :: "bot_env \<Rightarrow> entry_id \<Rightarrow> string \<Rightarrow> bot_error + string list" where
  "fetch_ssh_keys env entry github_user =
     andThen (be_github_keys env entry (''/users/'' @ py_quote github_user @ ''/keys''))
       (\<lambda>data. Inr (map (\<lambda>e. opt_default [] (map_of e ''key'')) (filter (\<lambda>e. dict_has e ''key'') data)))"

text \<open>The words \<open>ssh-keygen -lf\<close> printed: one word alone makes the index fail.\<close>

definition key_fingerprint :: "bot_env \<Rightarrow> string \<Rightarrow> bot_error + string option" where
  "key_fingerprint env pubkey =
     (case be_keygen env pubkey of
        (returncode, words) \<Rightarrow>
          if returncode = 0 \<and> words \<noteq> []
          then (case words of _ # fp # _ \<Rightarrow> Inr (Some fp) | _ \<Rightarrow> Inl IndexError)
          else Inr None)"

fun fingerprints_of :: "bot_env \<Rightarrow> string list \<Rightarrow> bot_error + string list" where
  "fingerprints_of env [] = Inr []"
| "fingerprints_of env (k # ks) =
     andThen (key_fingerprint env k) (\<lambda>fp.
     andThen (fingerprints_of env ks) (\<lambda>fps. Inr (if fp = None \<or> fp = Some [] then fps else opt_default [] fp # fps)))"

definition py_startswith :: "string \<Rightarrow> string \<Rightarrow> bool" where
  "py_startswith s p = (take (length p) s = p)"

definition error_line :: "entry_id \<Rightarrow> string \<Rightarrow> string" where
  "error_line entry what = ''['' @ snd entry @ ''] ('' @ fst entry @ ''): '' @ what"

text \<open>The credential, or None with a line added to the errors\<close>

definition generate_credential ::
  "bot_env \<Rightarrow> entry_id \<Rightarrow> string list \<Rightarrow> bot_error + credential option \<times> string list" where
  "generate_credential env entry errors =
     (let could_not = (\<lambda>exc. Inr (None, errors @ [error_line entry
            (''could not fetch SSH keys for @'' @ be_actor env @ '': '' @ exc)])) in
      case fetch_ssh_keys env entry (be_actor env) of
        Inl (RuntimeError exc) \<Rightarrow> could_not exc
      | Inl (OSErr exc) \<Rightarrow> could_not exc
      | Inl e \<Rightarrow> Inl e
      | Inr ssh_keys \<Rightarrow>
          (let age_keys = filter (\<lambda>k. py_startswith k ''ssh-ed25519'' \<or> py_startswith k ''ssh-rsa'') ssh_keys in
           if age_keys = []
           then Inr (None, errors @ [error_line entry
                  (''no ed25519 or RSA SSH keys found for @'' @ be_actor env @
                   ''. Add one at https://github.com/settings/keys.'')])
           else
             (let token = be_token env entry; pw_hash = be_hashpw env entry token in
              case be_age env entry token age_keys of
                Inl (CalledProcessError stderr) \<Rightarrow>
                  Inr (None, errors @ [error_line entry (''age encryption failed: '' @ py_strip stderr)])
              | Inl e \<Rightarrow> Inl e
              | Inr encrypted \<Rightarrow>
                  andThen (fingerprints_of env age_keys) (\<lambda>fingerprints.
                    Inr (Some \<lparr>cr_pw_hash = pw_hash, cr_encrypted = encrypted, cr_fingerprints = fingerprints\<rparr>, errors)))))"

fun generate_all ::
  "bot_env \<Rightarrow> entry_id list \<Rightarrow> string list \<Rightarrow> (entry_id, credential) dict \<Rightarrow>
   bot_error + (entry_id, credential) dict \<times> string list" where
  "generate_all env [] errors results = Inr (results, errors)"
| "generate_all env (entry # todo) errors results =
     andThen (generate_credential env entry errors) (\<lambda>(cred, errors).
       generate_all env todo errors (case cred of None \<Rightarrow> results | Some c \<Rightarrow> AList.update entry c results))"

section \<open>The comments\<close>

definition credential_comment :: "bot_env \<Rightarrow> entry_id \<Rightarrow> credential \<Rightarrow> string" where
  "credential_comment env entry cred =
     (let fp_lines = py_join NL (map (\<lambda>fp. ''- `'' @ fp @ ''`'') (cr_fingerprints cred));
          decrypt_cmd = ''age -d -i ~/.ssh/your-private-key <<'' @ [CHR 0x27] @ ''EOF'' @ [CHR 0x27] @ NL @
            py_strip (cr_encrypted cred) @ NL @ ''EOF''
      in ''Credentials issued for `'' @ snd entry @ ''` ('' @ fst entry @ '')'' @ NL @ NL @
         ''Encrypted to the following SSH keys registered to @'' @ be_actor env @ '':'' @ NL @ NL @
         fp_lines @ NL @ NL @
         ''Run the following to decrypt (replace `~/.ssh/your-private-key` with the matching private key):'' @ NL @ NL @
         ''```sh'' @ NL @ decrypt_cmd @ NL @ ''```'' @ NL @ NL @
         ''Store this password securely. It will not be shown again.'' @ NL @
         ''To rotate, open a new PR using the Credential rotation template.'')"

definition duplicate_comment :: "string \<Rightarrow> string" where
  "duplicate_comment exc =
     ''ops/values.yaml contains duplicate usernames: '' @ exc @ NL @ NL @
     ''Each username must appear at most once under each role.''"

definition tampered_comment :: "bot_env \<Rightarrow> string list \<Rightarrow> string" where
  "tampered_comment env all_tampered =
     ''Rotation rejected. The following entries had `password_hash` removed but @'' @ be_actor env @
     '' is not their registered owner: '' @ py_join '', '' all_tampered @ ''.'' @ NL @ NL @
     ''Credential rotation must be initiated by the original owner.''"

section \<open>The run\<close>

definition fingerprint_entry :: "bot_env \<Rightarrow> credential \<Rightarrow> json" where
  "fingerprint_entry env cred =
     JObj [(''github_user'', JStr (be_actor env)), (''key_fingerprints'', JList (map JStr (cr_fingerprints cred)))]"

text \<open>\<open>fp_data.setdefault(role, {})[username] = ...\<close>\<close>

fun set_fingerprint :: "json \<Rightarrow> string \<Rightarrow> string \<Rightarrow> json \<Rightarrow> bot_error + json" where
  "set_fingerprint (JObj d) role username v =
     (case opt_default (JObj []) (map_of d role) of
        JObj users \<Rightarrow> Inr (JObj (AList.update role (JObj (AList.update username v users)) d))
      | _ \<Rightarrow> Inl (Python TypeError))"
| "set_fingerprint _ role username v = Inl (Python AttributeError)"

definition hash_write :: "entry_id \<times> credential \<Rightarrow> bot_effect" where
  "hash_write r = SopsSet [''opa'', ''registry'', fst (fst r), snd (fst r), ''password_hash''] (cr_pw_hash (snd r))"

fun store_hashes ::
  "bot_env \<Rightarrow> (entry_id \<times> credential) list \<Rightarrow> json \<Rightarrow> bot_effect list \<Rightarrow> (bot_error + json) \<times> bot_effect list" where
  "store_hashes env [] fp_data out = (Inr fp_data, out)"
| "store_hashes env (r # results) fp_data out =
     (case perform env (hash_write r) out of
        (Inl e, out) \<Rightarrow> (Inl e, out)
      | (Inr _, out) \<Rightarrow>
          (case set_fingerprint fp_data (fst (fst r)) (snd (fst r)) (fingerprint_entry env (snd r)) of
             Inl e \<Rightarrow> (Inl e, out)
           | Inr fp_data \<Rightarrow> store_hashes env results fp_data out))"

fun announce :: "bot_env \<Rightarrow> (entry_id \<times> credential) list \<Rightarrow> bot_effect list \<Rightarrow> (bot_error + unit) \<times> bot_effect list" where
  "announce env [] out = (Inr (), out)"
| "announce env (r # results) out =
     (case perform env (PostComment (credential_comment env (fst r) (snd r))) out of
        (Inl e, out) \<Rightarrow> (Inl e, out)
      | (Inr _, out) \<Rightarrow> announce env results out)"

text \<open>The comment about failed entries; without any result the run ends there.\<close>

definition report_errors :: "bot_env \<Rightarrow> string list \<Rightarrow> bool \<Rightarrow> (bot_error + unit) \<times> bot_effect list" where
  "report_errors env errors some_results =
     (if errors = [] then (Inr (), [])
      else case perform env (PostComment (py_join (NL @ NL) errors)) [] of
          (Inl e, out) \<Rightarrow> (Inl e, out)
        | (Inr _, out) \<Rightarrow> (if some_results then Inr () else Inl (SystemExit 1), out))"

definition issue :: "bot_env \<Rightarrow> entry_id list \<Rightarrow> json \<Rightarrow> (bot_error + unit) \<times> bot_effect list" where
  "issue env to_process fp_data =
     (if to_process = [] then (Inr (), [])
      else case generate_all env to_process [] [] of
          Inl e \<Rightarrow> (Inl e, [])
        | Inr (results, errors) \<Rightarrow>
            (case report_errors env errors (results \<noteq> []) of
               (Inl e, out) \<Rightarrow> (Inl e, out)
             | (Inr _, out) \<Rightarrow>
                 (case store_hashes env results fp_data out of
                    (Inl e, out) \<Rightarrow> (Inl e, out)
                  | (Inr fp_data, out) \<Rightarrow>
                      (case perform env (WriteFingerprints fp_data) out of
                         (Inl e, out) \<Rightarrow> (Inl e, out)
                       | (Inr _, out) \<Rightarrow> announce env results out))))"

text \<open>\<open>{**new, **rotation}\<close> of both roles\<close>

definition entries_to_process :: "change_set \<Rightarrow> change_set \<Rightarrow> entry_id list" where
  "entries_to_process stations rovers =
     map (\<lambda>u. (''base_stations'', u)) (map fst (AList.updates (map fst (cs_rotation stations)) (map snd (cs_rotation stations)) (cs_new stations))) @
     map (\<lambda>u. (''rovers'', u)) (map fst (AList.updates (map fst (cs_rotation rovers)) (map snd (cs_rotation rovers)) (cs_new rovers)))"

definition role_changes :: "bot_env \<Rightarrow> json \<Rightarrow> json \<Rightarrow> json \<Rightarrow> string \<Rightarrow> bot_error + change_set" where
  "role_changes env pr_values main_values fp_data role =
     andThen (registry_entries pr_values role) (\<lambda>pr.
     andThen (registry_entries main_values role) (\<lambda>main. detect_changes env pr main fp_data role))"

text \<open>What the three files hold, and what the run does with them\<close>

record bot_input =
  bi_values :: "bot_error + json"
  bi_git_show :: "bot_error + unit"
  bi_main_values :: "bot_error + json"
  bi_fingerprints :: "(bot_error + json) option"

definition exit_with_comment :: "bot_env \<Rightarrow> string \<Rightarrow> (bot_error + unit) \<times> bot_effect list" where
  "exit_with_comment env body =
     (case perform env (PostComment body) [] of (Inl e, out) \<Rightarrow> (Inl e, out) | (Inr _, out) \<Rightarrow> (Inl (SystemExit 1), out))"

definition bot_changes :: "bot_env \<Rightarrow> json \<Rightarrow> bot_input \<Rightarrow> bot_error + json \<times> change_set \<times> change_set" where
  "bot_changes env pr_values inp =
     andThen (decrypt_main_values (bi_git_show inp) (bi_main_values inp)) (\<lambda>main_values.
     andThen (load_fingerprints (bi_fingerprints inp)) (\<lambda>fp_data.
     andThen (role_changes env pr_values main_values fp_data ''base_stations'') (\<lambda>stations.
     andThen (role_changes env pr_values main_values fp_data ''rovers'') (\<lambda>rovers.
       Inr (fp_data, stations, rovers)))))"

definition bot_main :: "bot_env \<Rightarrow> bot_input \<Rightarrow> (bot_error + unit) \<times> bot_effect list" where
  "bot_main env inp =
     (case sops_decrypt True (bi_values inp) of
        Inl (YAMLError exc) \<Rightarrow> exit_with_comment env (duplicate_comment exc)
      | Inl e \<Rightarrow> (Inl e, [])
      | Inr pr_values \<Rightarrow>
          (case bot_changes env pr_values inp of
             Inl e \<Rightarrow> (Inl e, [])
           | Inr (fp_data, stations, rovers) \<Rightarrow>
               (let all_tampered = cs_tampered stations @ cs_tampered rovers in
                if all_tampered \<noteq> [] then exit_with_comment env (tampered_comment env all_tampered)
                else issue env (entries_to_process stations rovers) fp_data)))"

section \<open>Shape of a run\<close>

abbreviation announcement :: "bot_env \<Rightarrow> entry_id \<times> credential \<Rightarrow> bot_effect" where
  "announcement env r \<equiv> PostComment (credential_comment env (fst r) (snd r))"

lemma perform_cases:
  "perform env eff out = (r, out') \<Longrightarrow> (\<exists>e. r = Inl e) \<and> out' = out \<or> r = Inr () \<and> out' = out @ [eff]"
  by (auto simp: perform_def split: option.splits)

lemma store_hashes_shape:
  "store_hashes env rs fp out = (r, out') \<Longrightarrow>
     \<exists>n. out' = out @ map hash_write (take n rs) \<and> ((\<exists>e. r = Inl e) \<or> n = length rs)"
proof (induction rs arbitrary: fp out)
  case Nil
  then show ?case by simp
next
  case (Cons x rs)
  from Cons.prems show ?case
  proof (cases "perform env (hash_write x) out")
    case (Pair a out1)
    with perform_cases [OF Pair] Cons.prems consider
        (raised) e where "r = Inl e" "out' = out"
      | (set_failed) e where "r = Inl e" "out' = out @ [hash_write x]"
      | (rest) fp1 where "store_hashes env rs fp1 (out @ [hash_write x]) = (r, out')"
      by (cases "set_fingerprint fp (fst (fst x)) (snd (fst x)) (fingerprint_entry env (snd x))") (auto split: sum.splits, metis+)
    then show ?thesis
    proof cases
      case raised
      then show ?thesis by (intro exI [of _ 0]) simp
    next
      case set_failed
      then show ?thesis by (intro exI [of _ 1]) simp
    next
      case rest
      from Cons.IH [OF this] obtain n where
        "out' = (out @ [hash_write x]) @ map hash_write (take n rs)" "(\<exists>e. r = Inl e) \<or> n = length rs" by blast
      then show ?thesis by (intro exI [of _ "Suc n"]) auto
    qed
  qed
qed

lemma announce_shape:
  "announce env rs out = (r, out') \<Longrightarrow> \<exists>m. out' = out @ map (announcement env) (take m rs)"
proof (induction rs arbitrary: out)
  case (Cons x rs)
  show ?case
  proof (cases "perform env (announcement env x) out")
    case (Pair a out1)
    with perform_cases [OF Pair] Cons.prems consider
        "out' = out" | "announce env rs (out @ [announcement env x]) = (r, out')"
      by (auto split: sum.splits)
    then show ?thesis
    proof cases
      case 1
      then show ?thesis by (intro exI [of _ 0]) simp
    next
      case 2
      from Cons.IH [OF this] obtain m where "out' = (out @ [announcement env x]) @ map (announcement env) (take m rs)" by blast
      then show ?thesis by (intro exI [of _ "Suc m"]) simp
    qed
  qed
qed simp

lemma report_errors_shape:
  "report_errors env errors b = (r, out) \<Longrightarrow> \<exists>errs. out = map PostComment errs \<and> length errs \<le> 1"
  by (auto simp: report_errors_def perform_def split: if_splits option.splits
      intro: exI [of _ "[]"] exI [of _ "[py_join (NL @ NL) errors]"])

definition run_shape :: "bot_env \<Rightarrow> (entry_id \<times> credential) list \<Rightarrow> bot_effect list \<Rightarrow> bool" where
  "run_shape env results out \<longleftrightarrow>
     (\<exists>errs n w m. out = map PostComment errs @ map hash_write (take n results) @ w @ map (announcement env) (take m results) \<and>
        length errs \<le> 1 \<and> (w = [] \<and> m = 0 \<or> (\<exists>fp. w = [WriteFingerprints fp]) \<and> n = length results))"

lemma run_shape_comment [simp]: "run_shape env rs []" "run_shape env rs [PostComment b]"
  unfolding run_shape_def
  by (rule exI [of _ "[]"], rule exI [of _ 0], simp, rule exI [of _ "[b]"], rule exI [of _ 0], simp)

lemma run_shape_store:
  assumes "length errs \<le> 1" "store_hashes env rs fp (map PostComment errs) = (Inl e, out)"
  shows "run_shape env rs out"
  using store_hashes_shape [OF assms(2)] assms(1) unfolding run_shape_def by force

lemma run_shape_written:
  assumes "length errs \<le> 1" "store_hashes env rs fp (map PostComment errs) = (Inr fp', out)"
  shows "run_shape env rs out" "announce env rs (out @ [WriteFingerprints fp'']) = (r, out') \<Longrightarrow> run_shape env rs out'"
proof -
  from store_hashes_shape [OF assms(2)] have out: "out = map PostComment errs @ map hash_write rs" by auto
  with assms(1) show "run_shape env rs out"
    unfolding run_shape_def by (intro exI [of _ errs] exI [of _ "length rs"] exI [of _ "[]"] exI [of _ 0]) simp
  assume "announce env rs (out @ [WriteFingerprints fp'']) = (r, out')"
  from announce_shape [OF this] obtain m where
    "out' = (out @ [WriteFingerprints fp'']) @ map (announcement env) (take m rs)" by blast
  with out assms(1) show "run_shape env rs out'"
    unfolding run_shape_def
    by (intro exI [of _ errs] exI [of _ "length rs"] exI [of _ "[WriteFingerprints fp'']"] exI [of _ m]) simp
qed

text \<open>The credentials a run computes from the entries to process\<close>

definition results_of :: "bot_env \<Rightarrow> entry_id list \<Rightarrow> (entry_id \<times> credential) list" where
  "results_of env todo = (case generate_all env todo [] [] of Inr (results, errors) \<Rightarrow> results | Inl _ \<Rightarrow> [])"

lemma issue_shape: "run_shape env (results_of env todo) (snd (issue env todo fp))"
proof (cases "generate_all env todo [] []")
  case (Inr res)
  obtain rs errors where res: "res = (rs, errors)" by fastforce
  obtain r out where rep: "report_errors env errors (rs \<noteq> []) = (r, out)" by fastforce
  from report_errors_shape [OF rep] obtain errs where errs: "out = map PostComment errs" "length errs \<le> 1" by blast
  have none: "run_shape env rs out"
    unfolding run_shape_def errs(1) using errs(2)
    by (intro exI [of _ errs] exI [of _ 0] exI [of _ "[]"]) simp
  obtain q out1 where st: "store_hashes env rs fp out = (q, out1)" by fastforce
  show ?thesis
  proof (cases "todo = []")
    case False
    have rs: "results_of env todo = rs" by (simp add: results_of_def Inr res)
    show ?thesis
    proof (cases r)
      case (Inl e)
      with False none rep rs show ?thesis by (simp add: issue_def Inr res)
    next
      case r: (Inr u)
      show ?thesis
      proof (cases q)
        case (Inl e)
        with st errs have "run_shape env rs out1" by (auto intro: run_shape_store)
        with False rep rs st r Inl show ?thesis by (simp add: issue_def Inr res)
      next
        case q: (Inr fp1)
        with st errs have w: "run_shape env rs out1"
          "\<And>r out'. announce env rs (out1 @ [WriteFingerprints fp1]) = (r, out') \<Longrightarrow> run_shape env rs out'"
          using run_shape_written by blast+
        from w(1) w(2) [OF surjective_pairing] False rep rs st r q show ?thesis
          by (simp add: issue_def Inr res perform_def split: option.split)
      qed
    qed
  qed (simp add: issue_def)
qed (simp add: issue_def results_of_def)

lemma exit_with_comment_shape: "snd (exit_with_comment env b) = [] \<or> snd (exit_with_comment env b) = [PostComment b]"
  by (auto simp: exit_with_comment_def perform_def split: option.split)


section \<open>Who gets a password\<close>

text \<open>
  An entry of the pull request without a hash that the main branch does not have, or that the
  fingerprint file pins to the person who opened the pull request
\<close>

definition entitled_to :: "string \<Rightarrow> json \<Rightarrow> json \<Rightarrow> (string, json) dict \<Rightarrow> string \<Rightarrow> string \<Rightarrow> bool" where
  "entitled_to actor main fp_data pr role u \<longleftrightarrow>
     (\<exists>entry. (u, entry) \<in> set pr \<and> py_in ''password_hash'' entry = Inr False \<and>
        (py_in u main = Inr False \<or> py_in u main = Inr True \<and> pinned_owner fp_data role u = Inr (JStr actor)))"

lemma detect_entries_entitled:
  assumes "detect_entries env main fp_data role pr cs = Inr cs'"
    and "u \<in> set (map fst (cs_new cs')) \<union> set (map fst (cs_rotation cs'))"
  shows "u \<in> set (map fst (cs_new cs)) \<union> set (map fst (cs_rotation cs)) \<or> entitled_to (be_actor env) main fp_data pr role u"
  using assms
proof (induction pr arbitrary: cs)
  case (Cons e pr)
  obtain username entry where e: "e = (username, entry)" by fastforce
  have more: "entitled_to (be_actor env) main fp_data pr role u \<Longrightarrow> entitled_to (be_actor env) main fp_data (e # pr) role u"
    by (auto simp: entitled_to_def)
  from Cons.prems(1) e obtain has_hash in_main where f:
      "py_in ''password_hash'' entry = Inr has_hash" "py_in username main = Inr in_main"
    by (auto simp: andThen_Inr_iff)
  let ?keys = "\<lambda>cs. set (map fst (cs_new cs)) \<union> set (map fst (cs_rotation cs))"
  obtain cs1 where next_cs: "detect_entries env main fp_data role pr cs1 = Inr cs'"
    "?keys cs1 = ?keys cs \<or>
       entitled_to (be_actor env) main fp_data (e # pr) role username \<and> ?keys cs1 = insert username (?keys cs)"
  proof (cases "has_hash")
    case True
    with Cons.prems(1) e f that [of cs] show ?thesis by simp
  next
    case hashless: False
    show ?thesis
    proof (cases in_main)
      case False
      with hashless e f have "entitled_to (be_actor env) main fp_data (e # pr) role username"
        by (auto simp: entitled_to_def)
      with False hashless Cons.prems(1) e f that [of "cs\<lparr>cs_new := AList.update username entry (cs_new cs)\<rparr>"]
      show ?thesis by (simp add: dom_update)
    next
      case True
      with hashless Cons.prems(1) e f obtain owner where o: "pinned_owner fp_data role username = Inr owner"
        by (auto simp: andThen_Inr_iff)
      show ?thesis
      proof (cases "owner = JStr (be_actor env)")
        case own: True
        with True hashless e f o have "entitled_to (be_actor env) main fp_data (e # pr) role username"
          by (auto simp: entitled_to_def)
        with True hashless own Cons.prems(1) e f o that [of "cs\<lparr>cs_rotation := AList.update username entry (cs_rotation cs)\<rparr>"]
        show ?thesis by (simp add: dom_update)
      next
        case False
        with True hashless Cons.prems(1) e f o
          that [of "cs\<lparr>cs_tampered := cs_tampered cs @ [tampered_label username role]\<rparr>"]
        show ?thesis by simp
      qed
    qed
  qed
  from Cons.IH [OF next_cs(1) Cons.prems(2)] next_cs(2) more show ?case by auto
qed simp

lemma detect_entries_tampered:
  assumes "detect_entries env main fp_data role pr cs = Inr cs'"
    and "cs_tampered cs \<noteq> [] \<or>
      (\<exists>entry. (u, entry) \<in> set pr \<and> py_in ''password_hash'' entry = Inr False \<and> py_in u main = Inr True \<and>
         pinned_owner fp_data role u \<noteq> Inr (JStr (be_actor env)))"
  shows "cs_tampered cs' \<noteq> []"
  using assms
proof (induction pr arbitrary: cs)
  case (Cons e pr)
  then show ?case
    by (cases e) (fastforce simp: andThen_Inr_iff split: if_splits)
qed simp

lemma generate_all_keys:
  "generate_all env todo errors results = Inr (results', errors') \<Longrightarrow>
     set (map fst results') \<subseteq> set (map fst results) \<union> set todo"
proof (induction todo arbitrary: errors results)
  case (Cons entry todo)
  then obtain cred errors1 where
    "generate_all env todo errors1 (case cred of None \<Rightarrow> results | Some c \<Rightarrow> AList.update entry c results) = Inr (results', errors')"
    by (auto simp: andThen_Inr_iff split: prod.splits)
  from Cons.IH [OF this] show ?case
    by (auto simp: dom_update split: option.splits)
qed simp

lemma issue_hashes:
  assumes "SopsSet path h \<in> set (snd (issue env todo fp))"
  shows "\<exists>role u. (role, u) \<in> set todo \<and> path = [''opa'', ''registry'', role, u, ''password_hash'']"
proof -
  from issue_shape [of env todo fp] assms obtain r where r: "r \<in> set (results_of env todo)" "SopsSet path h = hash_write r"
    unfolding run_shape_def by (fastforce dest: in_set_takeD)
  have "fst r \<in> set todo"
    using r(1) generate_all_keys [of env todo "[]" "[]"]
    by (cases "generate_all env todo [] []") (auto simp: results_of_def split: prod.splits)
  with r(2) show ?thesis
    by (intro exI [of _ "fst (fst r)"] exI [of _ "snd (fst r)"]) (simp add: hash_write_def)
qed

lemma exit_no_hashes: "SopsSet path h \<notin> set (snd (exit_with_comment env b))"
  using exit_with_comment_shape [of env b] by auto

lemma keys_of_updates: "set (map fst (AList.updates (map fst b) (map snd b) a)) = set (map fst a) \<union> set (map fst b)"
  by (simp add: dom_map_of_conv_image_fst [symmetric] updates_conv' Un_commute)

lemma role_changes_entitled:
  assumes "role_changes env pr_values main_values fp_data role = Inr cs"
    and "u \<in> set (map fst (AList.updates (map fst (cs_rotation cs)) (map snd (cs_rotation cs)) (cs_new cs)))"
  shows "\<exists>pr main. registry_entries pr_values role = Inr (JObj pr) \<and> registry_entries main_values role = Inr main \<and>
     entitled_to (be_actor env) main fp_data pr role u"
proof -
  from assms(1) obtain pr main where r: "registry_entries pr_values role = Inr pr" "registry_entries main_values role = Inr main"
      "detect_changes env pr main fp_data role = Inr cs"
    unfolding role_changes_def andThen_Inr_iff by blast
  then obtain entries where entries: "pr = JObj entries"
      "detect_entries env main fp_data role entries \<lparr>cs_new = [], cs_rotation = [], cs_tampered = []\<rparr> = Inr cs"
    by (cases pr) (simp_all add: detect_changes_def)
  from detect_entries_entitled [OF entries(2)] assms(2) r entries(1) show ?thesis
    unfolding keys_of_updates by auto
qed

definition demo_bot :: bot_env where
  "demo_bot = \<lparr>be_actor = ''ann'',
     be_github_keys = (\<lambda>entry path. if entry = (''rovers'', ''b'') then Inl (OSErr ''timed out'') else Inr [[(''key'', ''ssh-ed25519 AAAA'')]]),
     be_token = (\<lambda>_. ''t0ken''), be_hashpw = (\<lambda>_ _. ''$2b$12$''), be_age = (\<lambda>_ _ _. Inr ''-----AGE-----''),
     be_keygen = (\<lambda>_. (0, [''256'', ''SHA256:x''])), be_fails = (\<lambda>_. None)\<rparr>"

definition rovers_only :: "(string, json) dict \<Rightarrow> json" where
  "rovers_only rs = JObj [(''opa'', JObj [(''registry'', JObj [(''rovers'', JObj rs)])])]"

text \<open>Two new rovers; for the second one GitHub does not answer.\<close>

definition demo_first :: bot_input where
  "demo_first = \<lparr>bi_values = Inr (rovers_only [(''a'', JObj []), (''b'', JObj [])]), bi_git_show = Inr (),
     bi_main_values = Inr (JObj []), bi_fingerprints = None\<rparr>"

text \<open>What was committed is on the main branch; somebody else adds a rover.\<close>

definition demo_second :: bot_input where
  "demo_second =
     (let main = [(''a'', JObj [(''password_hash'', JStr ''$2b$12$'')]), (''b'', JObj [])] in
      \<lparr>bi_values = Inr (rovers_only (main @ [(''c'', JObj [])])), bi_git_show = Inr (), bi_main_values = Inr (rovers_only main),
       bi_fingerprints = Some (Inr (JObj [(''rovers'', JObj [(''a'', JObj [(''github_user'', JStr ''ann'')])])]))\<rparr>)"

lemma demo_first_run:
  "fst (bot_main demo_bot demo_first) = Inr ()"
  "SopsSet [''opa'', ''registry'', ''rovers'', ''a'', ''password_hash''] ''$2b$12$'' \<in> set (snd (bot_main demo_bot demo_first))"
  by code_simp+

lemmas demo_defs = demo_second_def rovers_only_def sops_decrypt_def no_duplicate_mapping_def py_dict_def or_empty_def
  decrypt_main_values_def load_fingerprints_def registry_entries_def pinned_owner_def Let_def

text \<open>
  C25: a password hash is only ever written for an entry that is entitled to one: the pull request
  lists it without a hash, and it is either unknown to the main branch or pinned to the very person
  who opened the pull request.
\<close>
theorem hashes_only_for_entitled:
  assumes "SopsSet path h \<in> set (snd (bot_main env inp))"
  shows "\<exists>pr_values main_values fp_data role u pr main.
     sops_decrypt True (bi_values inp) = Inr pr_values \<and>
     decrypt_main_values (bi_git_show inp) (bi_main_values inp) = Inr main_values \<and>
     load_fingerprints (bi_fingerprints inp) = Inr fp_data \<and>
     path = [''opa'', ''registry'', role, u, ''password_hash''] \<and> role \<in> {''base_stations'', ''rovers''} \<and>
     registry_entries pr_values role = Inr (JObj pr) \<and> registry_entries main_values role = Inr main \<and>
     entitled_to (be_actor env) main fp_data pr role u"
proof -
  from assms obtain pr_values fp_data stations rovers where run:
      "sops_decrypt True (bi_values inp) = Inr pr_values"
      "bot_changes env pr_values inp = Inr (fp_data, stations, rovers)"
      "SopsSet path h \<in> set (snd (issue env (entries_to_process stations rovers) fp_data))"
    using exit_no_hashes
    by (fastforce simp: bot_main_def Let_def split: sum.splits bot_error.splits prod.splits if_splits)
  from run(2) obtain main_values where m:
      "decrypt_main_values (bi_git_show inp) (bi_main_values inp) = Inr main_values"
      "load_fingerprints (bi_fingerprints inp) = Inr fp_data"
      "role_changes env pr_values main_values fp_data ''base_stations'' = Inr stations"
      "role_changes env pr_values main_values fp_data ''rovers'' = Inr rovers"
    by (auto simp: bot_changes_def andThen_Inr_iff)
  from issue_hashes [OF run(3)] obtain role u where
      u: "(role, u) \<in> set (entries_to_process stations rovers)" "path = [''opa'', ''registry'', role, u, ''password_hash'']"
    by blast
  from u(1) have "role \<in> {''base_stations'', ''rovers''} \<and>
      (\<exists>pr main. registry_entries pr_values role = Inr (JObj pr) \<and> registry_entries main_values role = Inr main \<and>
         entitled_to (be_actor env) main fp_data pr role u)"
    unfolding entries_to_process_def using role_changes_entitled [OF m(3)] role_changes_entitled [OF m(4)]
    by (simp only: set_append set_map Un_iff image_iff) fastforce
  with run(1) m u(2) show ?thesis by blast
qed

theorem hashes_only_for_entitled_witness:
  "\<exists>pr main fp_data. load_fingerprints (bi_fingerprints demo_first) = Inr fp_data \<and>
     entitled_to ''ann'' main fp_data pr ''rovers'' ''a''"
  using hashes_only_for_entitled [OF demo_first_run(2)] by (auto simp: demo_bot_def)

text \<open>
  An entry that reached the main branch without a hash, as one whose credential could not be
  generated does when another of the same pull request could, stops the bot for everybody else: until
  the pinned owner acts, every run ends with an error and writes nothing.
\<close>
theorem unissued_entry_blocks_everyone:
  assumes "sops_decrypt True (bi_values inp) = Inr pr_values"
    and "decrypt_main_values (bi_git_show inp) (bi_main_values inp) = Inr main_values"
    and "load_fingerprints (bi_fingerprints inp) = Inr fp_data"
    and "role \<in> {''base_stations'', ''rovers''}"
    and "registry_entries pr_values role = Inr (JObj pr)" "registry_entries main_values role = Inr main"
    and "(u, entry) \<in> set pr" "py_in ''password_hash'' entry = Inr False" "py_in u main = Inr True"
    and "pinned_owner fp_data role u \<noteq> Inr (JStr (be_actor env))"
  shows "(\<exists>e. fst (bot_main env inp) = Inl e) \<and> SopsSet path h \<notin> set (snd (bot_main env inp))"
proof (cases "bot_changes env pr_values inp")
  case (Inr res)
  obtain fp stations rovers where res: "res = (fp, stations, rovers)" by (cases res)
  with Inr assms(2,3) have ch: "role_changes env pr_values main_values fp_data ''base_stations'' = Inr stations"
      "role_changes env pr_values main_values fp_data ''rovers'' = Inr rovers" "fp = fp_data"
    by (auto simp: bot_changes_def andThen_Inr_iff)
  have t: "cs_tampered cs \<noteq> []" if "role_changes env pr_values main_values fp_data role = Inr cs" for cs
    using that assms(5-10) detect_entries_tampered [of env main fp_data role pr "\<lparr>cs_new = [], cs_rotation = [], cs_tampered = []\<rparr>" cs u]
    by (auto simp: role_changes_def detect_changes_def)
  from t ch assms(4) have "cs_tampered stations @ cs_tampered rovers \<noteq> []" by auto
  then have "bot_main env inp = exit_with_comment env (tampered_comment env (cs_tampered stations @ cs_tampered rovers))"
    by (simp add: bot_main_def assms(1) Inr res Let_def)
  then show ?thesis using exit_no_hashes
    by (auto simp: exit_with_comment_def perform_def split: option.splits)
qed (simp add: bot_main_def assms(1))

theorem unissued_entry_blocks_everyone_witness:
  "fst (bot_main demo_bot demo_first) = Inr () \<and>
   (\<exists>e. fst (bot_main (demo_bot\<lparr>be_actor := ''bob''\<rparr>) demo_second) = Inl e)"
proof -
  let ?pr = "[(''a'', JObj [(''password_hash'', JStr ''$2b$12$'')]), (''b'', JObj []), (''c'', JObj [])]"
  let ?main = "[(''a'', JObj [(''password_hash'', JStr ''$2b$12$'')]), (''b'', JObj [])]"
  have "sops_decrypt True (bi_values demo_second) = Inr (rovers_only ?pr)"
    "decrypt_main_values (bi_git_show demo_second) (bi_main_values demo_second) = Inr (rovers_only ?main)"
    "load_fingerprints (bi_fingerprints demo_second) = Inr (JObj [(''rovers'', JObj [(''a'', JObj [(''github_user'', JStr ''ann'')])])])"
    "registry_entries (rovers_only ?pr) ''rovers'' = Inr (JObj ?pr)" "registry_entries (rovers_only ?main) ''rovers'' = Inr (JObj ?main)"
    by (simp_all add: demo_defs)
  from unissued_entry_blocks_everyone [OF this(1-3) _ this(4,5), of "''b''" "JObj []" "demo_bot\<lparr>be_actor := ''bob''\<rparr>"] demo_first_run(1)
  show ?thesis by (simp add: pinned_owner_def demo_bot_def)
qed

end
