(* ===== verification/Metrics.thy ===== *)
theory Metrics
  imports NtripRead UdpEgress
begin

text \<open>
  The metrics of \<open>metrics.py\<close>: the declared families, and \<open>NTRIPCasterCollector\<close>, which samples the
  caster at each scrape. prometheus_client refuses an update with the wrong number of labels and a
  counter that decreases; \<open>op_ok\<close> says that an update is accepted. Label texts made from numbers
  keep the number.
\<close>

section \<open>Declared families\<close>

datatype metric_kind = Counter | Gauge | Histogram "real list"

record metric_family =
  mf_name :: string
  mf_kind :: metric_kind
  mf_labels :: "string list"

definition family :: "string \<Rightarrow> metric_kind \<Rightarrow> string list \<Rightarrow> metric_family" where
  "family name kind labels = \<lparr>mf_name = name, mf_kind = kind, mf_labels = labels\<rparr>"

definition caster_families :: "(string \<times> metric_family) list" where
  "caster_families =
     [(''frames_published_total'', family ''ntrip_frames_published_total'' Counter [''mountpoint'']),
      (''bytes_published_total'', family ''ntrip_bytes_published_total'' Counter [''mountpoint'']),
      (''frames_delivered_total'', family ''ntrip_frames_delivered_total'' Counter [''mountpoint'']),
      (''rover_sessions_total'', family ''ntrip_rover_sessions_total'' Counter [''mountpoint'']),
      (''mountpoints_reaped_total'', family ''ntrip_mountpoints_reaped_total'' Counter []),
      (''auth_requests_total'', family ''ntrip_auth_requests_total'' Counter [''role'', ''result'']),
      (''frame_size_bytes'', family ''ntrip_frame_size_bytes''
         (Histogram [64, 128, 256, 512, 1024, 2048, 4096, 8192]) [''mountpoint'']),
      (''frame_interval_seconds'', family ''ntrip_frame_interval_seconds''
         (Histogram [1 / 10, 1 / 2, 1, 2, 5, 10, 30, 60, 120]) [''mountpoint'']),
      (''rtcm_messages_total'', family ''ntrip_rtcm_messages_total'' Counter [''mountpoint'', ''message_type'']),
      (''rtcm_parse_errors_total'', family ''ntrip_rtcm_parse_errors_total'' Counter [''mountpoint'']),
      (''rtcm_quality_samples_dropped_total'', family ''ntrip_rtcm_quality_samples_dropped_total'' Counter [''mountpoint''])]"

definition udp_families :: "(string \<times> metric_family) list" where
  "udp_families =
     [(''rtcm_udp_hello_total'', family ''rtcm_udp_hello_total'' Counter [''result'']),
      (''rtcm_udp_token_rejected_total'', family ''rtcm_udp_token_rejected_total'' Counter []),
      (''rtcm_udp_datagrams_sent_total'', family ''rtcm_udp_datagrams_sent_total'' Counter [''mountpoint'']),
      (''rtcm_udp_bytes_sent_total'', family ''rtcm_udp_bytes_sent_total'' Counter [''mountpoint'']),
      (''rtcm_udp_frames_signed_total'', family ''rtcm_udp_frames_signed_total'' Counter [''mountpoint'']),
      (''rtcm_udp_sessions_reaped_total'', family ''rtcm_udp_sessions_reaped_total'' Counter []),
      (''rtcm_udp_sessions'', family ''rtcm_udp_sessions'' Gauge []),
      (''rtcm_udp_oversize_dropped_total'', family ''rtcm_udp_oversize_dropped_total'' Counter [''mountpoint''])]"

definition signal_families :: "(string \<times> metric_family) list" where
  "signal_families =
     [(''rtcm_signal_cnr_dbhz'', family ''ntrip_rtcm_signal_cnr_dbhz''
         (Histogram [10, 15, 20, 25, 30, 35, 40, 45, 50, 55, 60, 65, 70]) [''mountpoint'', ''constellation'']),
      (''base_station_arp_ecef_meters'', family ''ntrip_base_station_arp_ecef_meters'' Gauge [''mountpoint'', ''axis'']),
      (''rover_gga_updates_total'', family ''ntrip_rover_gga_updates_total'' Counter [''mountpoint'']),
      (''base_station_arp_changes_total'', family ''ntrip_base_station_arp_changes_total'' Counter [''mountpoint'']),
      (''rtcm_high_cnr_total'', family ''ntrip_rtcm_high_cnr_total'' Counter [''mountpoint'', ''constellation'']),
      (''rtcm_satellites_tracked'', family ''ntrip_rtcm_satellites_tracked''
         (Histogram (map real [1..<41])) [''mountpoint'', ''constellation''])]"

definition families :: "(string \<times> metric_family) list" where
  "families = caster_families @ udp_families @ signal_families"

section \<open>Accepted updates\<close>

fun op_ok :: "'r metric_op \<Rightarrow> bool" where
  "op_ok (MInc n ls i) =
     (case map_of families n of
        None \<Rightarrow> False
      | Some f \<Rightarrow> length ls = length (mf_labels f) \<and> (mf_kind f = Gauge \<or> mf_kind f = Counter \<and> 0 \<le> i))"
| "op_ok (MSet n ls x) =
     (case map_of families n of None \<Rightarrow> False | Some f \<Rightarrow> length ls = length (mf_labels f) \<and> mf_kind f = Gauge)"
| "op_ok (MObserve n ls x) =
     (case map_of families n of None \<Rightarrow> False | Some f \<Rightarrow> length ls = length (mf_labels f) \<and> (case mf_kind f of Histogram _ \<Rightarrow> True | _ \<Rightarrow> False))"

lemmas family_defs = families_def caster_families_def udp_families_def signal_families_def family_def

text \<open>Every update the program makes, with its declared family.\<close>

lemma caster_ops_ok [simp]:
  "op_ok (MInc ''frames_published_total'' [m] i) \<longleftrightarrow> 0 \<le> i"
  "op_ok (MInc ''bytes_published_total'' [m] i) \<longleftrightarrow> 0 \<le> i"
  "op_ok (MInc ''frames_delivered_total'' [m] i) \<longleftrightarrow> 0 \<le> i"
  "op_ok (MObserve ''frame_size_bytes'' [m] x)"
  "op_ok (MObserve ''frame_interval_seconds'' [m] x)"
  "op_ok (MInc ''rover_sessions_total'' [m] i) \<longleftrightarrow> 0 \<le> i"
  "op_ok (MInc ''mountpoints_reaped_total'' [] i) \<longleftrightarrow> 0 \<le> i"
  "op_ok (MInc ''auth_requests_total'' [a, b] i) \<longleftrightarrow> 0 \<le> i"
  "op_ok (MInc ''rtcm_quality_samples_dropped_total'' [m] i) \<longleftrightarrow> 0 \<le> i"
  by (simp_all add: family_defs)

lemma signal_ops_ok [simp]:
  "op_ok (MInc ''rtcm_messages_total'' [m, a] i) \<longleftrightarrow> 0 \<le> i"
  "op_ok (MInc ''rtcm_parse_errors_total'' [m] i) \<longleftrightarrow> 0 \<le> i"
  "op_ok (MObserve ''rtcm_signal_cnr_dbhz'' [m, a] x)"
  "op_ok (MSet ''base_station_arp_ecef_meters'' [m, a] x)"
  "op_ok (MInc ''rover_gga_updates_total'' [m] i) \<longleftrightarrow> 0 \<le> i"
  "op_ok (MInc ''base_station_arp_changes_total'' [m] i) \<longleftrightarrow> 0 \<le> i"
  "op_ok (MInc ''rtcm_high_cnr_total'' [m, a] i) \<longleftrightarrow> 0 \<le> i"
  "op_ok (MObserve ''rtcm_satellites_tracked'' [m, a] x)"
  by (simp_all add: family_defs)

lemma udp_ops_ok [simp]:
  "op_ok (MInc ''rtcm_udp_hello_total'' [a] i) \<longleftrightarrow> 0 \<le> i"
  "op_ok (MInc ''rtcm_udp_token_rejected_total'' [] i) \<longleftrightarrow> 0 \<le> i"
  "op_ok (MInc ''rtcm_udp_datagrams_sent_total'' [m] i) \<longleftrightarrow> 0 \<le> i"
  "op_ok (MInc ''rtcm_udp_bytes_sent_total'' [m] i) \<longleftrightarrow> 0 \<le> i"
  "op_ok (MInc ''rtcm_udp_frames_signed_total'' [m] i) \<longleftrightarrow> 0 \<le> i"
  "op_ok (MInc ''rtcm_udp_sessions_reaped_total'' [] i) \<longleftrightarrow> 0 \<le> i"
  "op_ok (MInc ''rtcm_udp_sessions'' [] i)"
  "op_ok (MInc ''rtcm_udp_oversize_dropped_total'' [m] i) \<longleftrightarrow> 0 \<le> i"
  by (simp_all add: family_defs)

declare op_ok.simps [simp del]

section \<open>Every update is accepted\<close>

abbreviation ops_ok :: "'r metric_op list \<Rightarrow> bool" where
  "ops_ok \<equiv> list_all op_ok"

abbreviation caster_log :: "caster \<Rightarrow> pyfloat metric_op list" where
  "caster_log c \<equiv> qs_log (cs_quality c)"

lemma log_metric_ops [simp]: "ops_ok (qs_log (log_metric ops s)) \<longleftrightarrow> ops_ok (qs_log s) \<and> ops_ok ops"
  by (simp add: log_metric_def)

lemma with_snapshot_log [simp]: "qs_log (with_snapshot b m f s) = qs_log s"
  by (simp add: with_snapshot_def)

lemma cnr_metrics_ok: "ops_ok (concat (map (cnr_metrics cfg m constellation) batch))"
  by (induction batch) (auto simp: cnr_metrics_def)

lemma observe_arp_log: "ops_ok (qs_log s) \<Longrightarrow> ops_ok (qs_log (observe_arp cfg m p s))"
  by (auto simp: observe_arp_def arp_gauges_def Let_def split: prod.split option.split)

lemma observe_satellites_log: "ops_ok (qs_log s) \<Longrightarrow> ops_ok (qs_log (observe_satellites b m constellation attrs s))"
  by (simp add: observe_satellites_def Let_def)

lemma observe_cnr_log: "ops_ok (qs_log s) \<Longrightarrow> ops_ok (qs_log (observe_cnr cfg b m constellation v attrs s))"
  by (simp add: observe_cnr_def Let_def cnr_metrics_ok)

lemma observe_msg_log: "ops_ok (qs_log s) \<Longrightarrow> ops_ok (qs_log (snd (observe_msg cfg b m t attrs s)))"
  by (auto simp: observe_msg_def Let_def observe_arp_log observe_satellites_log observe_cnr_log
      split: option.split sum.split py_error.split)

lemma observe_frame_log: "ops_ok (qs_log s) \<Longrightarrow> ops_ok (qs_log (snd (observe_frame cfg b m f s)))"
  by (auto simp: observe_frame_def observe_msg_log split: rtcm_outcome.split option.split)

lemma observe_frames_log: "ops_ok (qs_log s) \<Longrightarrow> ops_ok (qs_log (snd (observe_frames cfg b m fs s)))"
proof (induction fs arbitrary: s)
  case (Cons f fs)
  from observe_frame_log [OF Cons.prems, of cfg b m f] show ?case
    by (auto simp: Cons.IH split: prod.split option.split)
qed simp

lemma observe_log: "ops_ok (qs_log s) \<Longrightarrow> ops_ok (qs_log (snd (observe_rtcm_quality cfg b m chunk s)))"
  by (simp add: observe_rtcm_quality_def observe_frames_log split: prod.split)

lemma caster_log_frames [simp]:
  "caster_log (log_caster ops c) = caster_log c @ ops" "caster_log (upd_transport t f c) = caster_log c"
  "caster_log (open_transport m c) = caster_log c" "caster_log (forget m c) = caster_log c"
  "caster_log (set_rover_position m u x y c) = caster_log c" "caster_log (clear_rover_position m u c) = caster_log c"
  "caster_log (start c) = caster_log c" "caster_log (stop c) = caster_log c"
  "caster_log (leave_subscription t i c) = caster_log c"
  by (simp_all add: log_caster_def log_metric_def upd_transport_def open_transport_def forget_def set_rover_position_def
      clear_rover_position_def start_def stop_def leave_subscription_def Let_def split: option.split)

lemma caster_log_register [simp]: "caster_log (snd (register now m md c)) = caster_log c"
  by (auto simp: register_def Let_def split: option.split sum.split)

lemma caster_log_close [simp]: "caster_log (snd (close_mountpoint m c)) = caster_log c"
  by (auto simp: close_mountpoint_def split: option.split)

lemma caster_log_unregister [simp]: "caster_log (unregister m c) = caster_log c"
  by (auto simp: unregister_def Let_def split: option.split)

lemma process_log: "ops_ok (caster_log c) \<Longrightarrow> ops_ok (caster_log (snd (process_quality cfg m f c)))"
  by (simp add: process_quality_def observe_log split: prod.split) (metis observe_log snd_conv)

lemma enqueue_log: "ops_ok (caster_log c) \<Longrightarrow> ops_ok (caster_log (snd (enqueue_quality cfg m f c)))"
  by (auto simp: enqueue_quality_def process_log split: option.split)

lemma publish_log: "ops_ok (caster_log c) \<Longrightarrow> ops_ok (caster_log (snd (publish cfg now m f c)))"
  by (auto simp: publish_state published_state_def publish_metrics_def split: option.split intro!: enqueue_log)

lemma turn_log: "ops_ok (caster_log c) \<Longrightarrow> quality_turn cfg c = Some c' \<Longrightarrow> ops_ok (caster_log c')"
  by (auto simp: quality_turn_def split: option.splits list.splits intro!: process_log)

lemma subscribe_log: "ops_ok (caster_log c) \<Longrightarrow> ops_ok (caster_log (snd (metered_subscribe m t c)))"
  by (simp add: metered_subscribe_def Let_def log_caster_def log_metric_def split: prod.split)

lemma caster_step_log: "ops_ok (caster_log c) \<Longrightarrow> caster_step cfg c c' \<Longrightarrow> ops_ok (caster_log c')"
  by (erule caster_step_cases) (auto simp: reap_count_def intro: publish_log turn_log subscribe_log)

section \<open>The egress\<close>

definition udp_log_ok :: "udp_server \<Rightarrow> bool" where
  "udp_log_ok u \<longleftrightarrow> ops_ok (us_log u) \<and> ops_ok (caster_log (us_caster u))"

lemma udp_log_pieces [simp]:
  "udp_log_ok (log_udp ops u) \<longleftrightarrow> udp_log_ok u \<and> ops_ok ops"
  "udp_log_ok (upd_session k g u) \<longleftrightarrow> udp_log_ok u" "udp_log_ok (upd_task j h u) \<longleftrightarrow> udp_log_ok u"
  "udp_log_ok (send_datagram a d u) \<longleftrightarrow> udp_log_ok u" "udp_log_ok (send_error a code msg u) \<longleftrightarrow> udp_log_ok u"
  "udp_log_ok (spawn j' u) \<longleftrightarrow> udp_log_ok u" "udp_log_ok (start_egress k u) \<longleftrightarrow> udp_log_ok u"
  "udp_log_ok (cancel_task t u) \<longleftrightarrow> udp_log_ok u" "udp_log_ok (finish_task j u) \<longleftrightarrow> udp_log_ok u"
  "udp_log_ok (u\<lparr>us_jobs := js\<rparr>) \<longleftrightarrow> udp_log_ok u" "udp_log_ok (u\<lparr>us_sessions := ss\<rparr>) \<longleftrightarrow> udp_log_ok u"
  "udp_log_ok (u\<lparr>us_cache := cache\<rparr>) \<longleftrightarrow> udp_log_ok u"
  "udp_log_ok (u\<lparr>us_objects := os, us_next_object := n, us_sessions := ss\<rparr>) \<longleftrightarrow> udp_log_ok u"
  "udp_log_ok (u\<lparr>us_objects := os, us_next_object := n\<rparr>) \<longleftrightarrow> udp_log_ok u"
  "udp_log_ok (u\<lparr>us_jobs := js, us_open := b\<rparr>) \<longleftrightarrow> udp_log_ok u"
  "udp_log_ok (u\<lparr>us_caster := c\<rparr>) \<longleftrightarrow> ops_ok (us_log u) \<and> ops_ok (caster_log c)"
  "udp_log_ok (upd_caster f u) \<longleftrightarrow> ops_ok (us_log u) \<and> ops_ok (caster_log (f (us_caster u)))"
  by (auto simp: udp_log_ok_def log_udp_def upd_session_def upd_task_def send_datagram_def send_error_def spawn_def
      start_egress_def cancel_task_def finish_task_def upd_caster_def split: option.split)

lemma udp_log_caster: "udp_log_ok u \<Longrightarrow> ops_ok (us_log u) \<and> ops_ok (caster_log (us_caster u))"
  by (simp add: udp_log_ok_def)

lemma udp_log_teardown: "udp_log_ok u \<Longrightarrow> udp_log_ok (teardown current k u)"
  by (auto simp: teardown_def Let_def dest: udp_log_caster) (simp_all add: udp_log_ok_def log_udp_def)

lemma udp_log_fold_teardown: "udp_log_ok u \<Longrightarrow> udp_log_ok (fold (teardown current) ks u)"
  by (induction ks arbitrary: u) (auto simp: udp_log_teardown)

lemma udp_log_evict: "udp_log_ok u \<Longrightarrow> udp_log_ok (evict k code msg u)"
  by (simp add: evict_def udp_log_teardown)

lemma udp_log_repoint: "udp_log_ok u \<Longrightarrow> udp_log_ok (repoint k m u)"
  by (simp add: repoint_def Let_def)

lemma udp_log_hello: "udp_log_ok u \<Longrightarrow> udp_log_ok (on_hello E now wall sid token requested position a u)"
  by (auto simp: on_hello_def Let_def split: option.split resolution.split)

lemma udp_log_keepalive: "udp_log_ok u \<Longrightarrow> udp_log_ok (snd (on_keepalive k position u))"
  by (auto simp: on_keepalive_def Let_def udp_log_repoint dest: udp_log_caster split: option.split prod.split sum.split)

lemma udp_log_switch: "udp_log_ok u \<Longrightarrow> udp_log_ok (on_switch k requested position u)"
  by (auto simp: on_switch_def Let_def udp_log_repoint split: resolution.split)

lemma udp_log_handle: "udp_log_ok u \<Longrightarrow> udp_log_ok (snd (handle_datagram E now data a u))"
  by (auto simp: handle_datagram_def Let_def udp_log_keepalive split: option.split dg_body.split)

lemma udp_log_job: "udp_log_ok u \<Longrightarrow> udp_log_ok (run_job E now wall sid j u)"
  by (cases j) (simp_all add: udp_log_hello udp_log_switch udp_log_teardown udp_log_evict)

lemma udp_log_sign: "udp_log_ok u \<Longrightarrow> udp_log_ok (snd (sign_frame E ts m f u))"
  by (auto simp: sign_frame_def Let_def)

lemma udp_log_send_frame: "udp_log_ok u \<Longrightarrow> udp_log_ok (send_frame E ts k f u)"
  using udp_log_sign [of u E ts "ss_mountpoint (us_objects u k)" f]
  by (auto simp: send_frame_def Let_def split: prod.split)

lemma udp_log_leave: "udp_log_ok u \<Longrightarrow> udp_log_ok (upd_caster (leave_subscription t i) u)"
  by (simp add: udp_log_caster)

lemma udp_log_transport: "udp_log_ok u \<Longrightarrow> udp_log_ok (upd_caster (upd_transport t f) u)"
  by (simp add: udp_log_caster)

lemma udp_log_cancelled:
  "udp_log_ok u \<Longrightarrow> udp_log_ok (upd_caster (\<lambda>c. leave_subscription t i (upd_transport t' f c)) u)"
  by (simp add: udp_log_caster)

lemma udp_log_egress:
  assumes u: "udp_log_ok u"
  shows "udp_log_ok (egress_turn E ts j u)"
proof (cases "et_state (us_tasks u j)")
  case TaskNew
  then show ?thesis
    by (simp add: egress_turn_def Let_def split_beta u udp_log_teardown udp_log_caster subscribe_log split: sum.split)
next
  case (TaskStreaming m t i)
  then show ?thesis
    by (simp add: egress_turn_def Let_def split_beta u udp_log_leave udp_log_transport udp_log_cancelled udp_log_send_frame
        del: udp_log_pieces(17) split: get_outcome.split)
next
  case TaskDone
  then show ?thesis by (simp add: egress_turn_def Let_def u)
qed

lemma udp_log_reap: "udp_log_ok u \<Longrightarrow> udp_log_ok (udp_reap now u)"
  by (simp add: udp_reap_def Let_def udp_log_fold_teardown)

lemma udp_log_stop: "udp_log_ok u \<Longrightarrow> udp_log_ok (udp_stop u)"
  by (simp add: udp_stop_def udp_log_fold_teardown)

lemma udp_step_log: "udp_log_ok u \<Longrightarrow> udp_step E cfg u v \<Longrightarrow> udp_log_ok v"
  by (erule udp_step_cases)
     (auto simp: udp_log_handle udp_log_job udp_log_egress udp_log_reap udp_log_stop
       dest: udp_log_caster intro: caster_step_log)

section \<open>The application\<close>

text \<open>The egress and its caster, the outcome of password checks, and rovers sending GGA lines\<close>

inductive app_step :: "udp_env \<Rightarrow> quality_config \<Rightarrow> (string \<Rightarrow> nmea_outcome) \<Rightarrow> udp_server \<Rightarrow> udp_server \<Rightarrow> bool"
  for E cfg nmea where
  egress: "udp_step E cfg u v \<Longrightarrow> app_step E cfg nmea u v"
| auth: "app_step E cfg nmea u (upd_caster (auth_result role ok) u)"
| gga: "app_step E cfg nmea u (upd_caster (gga_line nmea m user line) u)"

inductive_cases app_step_cases: "app_step E cfg nmea u v"

lemma gga_line_log: "ops_ok (caster_log c) \<Longrightarrow> ops_ok (caster_log (gga_line nmea m user line c))"
  by (simp add: gga_line_def split: option.split)

lemma app_step_log: "udp_log_ok u \<Longrightarrow> app_step E cfg nmea u v \<Longrightarrow> udp_log_ok v"
  by (erule app_step_cases) (auto simp: udp_step_log auth_result_def gga_line_log dest: udp_log_caster)

lemma new_log_ok: "udp_log_ok (new_udp_server (new_caster e n))"
  by (simp add: udp_log_ok_def new_udp_server_def new_caster_def empty_quality_def)

interpretation app_sys: invariant_system "\<lambda>u. \<exists>e n. u = new_udp_server (new_caster e n)" "app_step E cfg nmea" udp_log_ok
  for E cfg nmea
  by unfold_locales (auto intro: app_step_log simp: new_log_ok)



end
