(* ===== verification/Collector.thy ===== *)
theory Collector
  imports Caster
begin

text \<open>
  \<open>NTRIPCasterCollector.collect\<close> of \<open>metrics.py\<close>: the gauges computed from the caster at every
  scrape. A family is its label names and its samples; a label text made with \<open>str\<close> from a float
  keeps the float. The only transports a caster creates are queue transports.
\<close>

section \<open>Gauge families\<close>

datatype label = Text string | FloatText pyfloat

record gauge_family =
  gf_name :: string
  gf_labels :: "string list"
  gf_samples :: "(label list \<times> real) list"

definition gauge_value :: "string \<Rightarrow> real \<Rightarrow> gauge_family" where
  "gauge_value name x = \<lparr>gf_name = name, gf_labels = [], gf_samples = [([], x)]\<rparr>"

definition gauge_family :: "string \<Rightarrow> string list \<Rightarrow> gauge_family" where
  "gauge_family name labels = \<lparr>gf_name = name, gf_labels = labels, gf_samples = []\<rparr>"

definition add_sample :: "label list \<Rightarrow> real \<Rightarrow> gauge_family \<Rightarrow> gauge_family" where
  "add_sample ls x g = g\<lparr>gf_samples := gf_samples g @ [(ls, x)]\<rparr>"

section \<open>Collecting\<close>

fun round6 :: "pyfloat \<Rightarrow> pyfloat" where
  "round6 (Fin x) = Fin (py_round x 6)"
| "round6 x = x"

definition registered_gauge :: "caster \<Rightarrow> gauge_family" where
  "registered_gauge c = gauge_value ''ntrip_mountpoints_registered'' (real (length (cs_mountpoints c)))"

definition online_gauge :: "caster \<Rightarrow> gauge_family" where
  "online_gauge c = gauge_value ''ntrip_mountpoints_online'' (real (length (cs_transports c)))"

definition transport_gauges :: "caster \<Rightarrow> gauge_family \<times> gauge_family" where
  "transport_gauges c =
     fold (\<lambda>(name, t) (rovers, depth).
             (add_sample [Text name] (real (subscriber_count (cs_store c t))) rovers,
              add_sample [Text name] (real (queue_depth (cs_store c t))) depth))
       (cs_transports c)
       (gauge_family ''ntrip_rovers_connected'' [''mountpoint''], gauge_family ''ntrip_queue_depth'' [''mountpoint''])"

definition last_seen_gauge :: "real \<Rightarrow> caster \<Rightarrow> gauge_family" where
  "last_seen_gauge now c =
     fold (\<lambda>(name, mp). add_sample [Text name] (now - mp_last_seen mp)) (cs_mountpoints c)
       (gauge_family ''ntrip_mountpoint_last_seen_seconds'' [''mountpoint''])"

definition info_gauge :: "caster \<Rightarrow> gauge_family" where
  "info_gauge c =
     fold (\<lambda>(name, mp) g.
             case (mp_latitude mp, mp_longitude mp) of
               (Some latitude, Some longitude) \<Rightarrow>
                 add_sample [Text name, FloatText latitude, FloatText longitude, Text (opt_default [] (mp_identifier mp)),
                   Text (opt_default [] (mp_country mp)), FloatText (mp_mask mp)] 1 g
             | _ \<Rightarrow> g)
       (cs_mountpoints c)
       (gauge_family ''ntrip_mountpoint_info''
          [''mountpoint'', ''latitude'', ''longitude'', ''identifier'', ''country'', ''mask''])"

definition rover_gauge :: "caster \<Rightarrow> gauge_family" where
  "rover_gauge c =
     fold (\<lambda>(mountpoint, positions).
             fold (\<lambda>(rover_id, lat, lon).
                     add_sample [Text mountpoint, Text rover_id, FloatText (round6 lat), FloatText (round6 lon)] 1)
               positions)
       (cs_positions c)
       (gauge_family ''ntrip_rover_position'' [''mountpoint'', ''rover_id'', ''latitude'', ''longitude''])"

definition collect :: "real \<Rightarrow> caster \<Rightarrow> gauge_family list" where
  "collect now c =
     (let (rovers, depth) = transport_gauges c in
      [registered_gauge c, online_gauge c, rovers, depth, last_seen_gauge now c, info_gauge c, rover_gauge c])"

section \<open>The samples of a family\<close>

lemma gauge_family_simps [simp]:
  "gf_labels (gauge_family n ls) = ls" "gf_samples (gauge_family n ls) = []" "gf_name (gauge_family n ls) = n"
  "gf_labels (gauge_value n x) = []" "gf_samples (gauge_value n x) = [([], x)]" "gf_name (gauge_value n x) = n"
  "gf_labels (add_sample k x g) = gf_labels g" "gf_samples (add_sample k x g) = gf_samples g @ [(k, x)]"
  "gf_name (add_sample k x g) = gf_name g"
  by (simp_all add: gauge_family_def gauge_value_def add_sample_def)

text \<open>A loop whose body adds samples to a family, and a loop over a pair of families\<close>

lemma fold_samples:
  assumes "\<And>x g. gf_samples (f x g) = gf_samples g @ h x"
  shows "gf_samples (fold f xs g) = gf_samples g @ concat (map h xs)"
  by (induction xs arbitrary: g) (simp_all add: assms)

lemma fold_keeps:
  assumes "\<And>x g. p (f x g) = p g"
  shows "p (fold f xs g) = p g"
  by (induction xs arbitrary: g) (simp_all add: assms)

lemma fold_pair: "fold (\<lambda>(n, t) (a, b). (f n t a, g n t b)) d (a, b) = (fold (\<lambda>(n, t). f n t) d a, fold (\<lambda>(n, t). g n t) d b)"
  by (induction d arbitrary: a b) auto

definition info_samples :: "string \<times> mountpoint \<Rightarrow> (label list \<times> real) list" where
  "info_samples = (\<lambda>(name, mp).
     case (mp_latitude mp, mp_longitude mp) of
       (Some latitude, Some longitude) \<Rightarrow>
         [([Text name, FloatText latitude, FloatText longitude, Text (opt_default [] (mp_identifier mp)),
            Text (opt_default [] (mp_country mp)), FloatText (mp_mask mp)], 1)]
     | _ \<Rightarrow> [])"

definition rover_samples :: "string \<times> (string, pyfloat \<times> pyfloat) dict \<Rightarrow> (label list \<times> real) list" where
  "rover_samples = (\<lambda>(m, positions).
     map (\<lambda>(rover_id, lat, lon). ([Text m, Text rover_id, FloatText (round6 lat), FloatText (round6 lon)], 1)) positions)"

lemma concat_singles: "concat (map (\<lambda>x. [f x]) xs) = map f xs"
  by (induction xs) auto

lemma gauge_samples:
  "gf_samples (fst (transport_gauges c)) =
     map (\<lambda>(m, t). ([Text m], real (subscriber_count (cs_store c t)))) (cs_transports c)"
  "gf_samples (snd (transport_gauges c)) =
     map (\<lambda>(m, t). ([Text m], real (queue_depth (cs_store c t)))) (cs_transports c)"
  "gf_samples (last_seen_gauge now c) = map (\<lambda>(m, mp). ([Text m], now - mp_last_seen mp)) (cs_mountpoints c)"
  by (simp_all add: transport_gauges_def fold_pair last_seen_gauge_def case_prod_beta fold_samples [where h = "\<lambda>x. [_ x]"]
      concat_singles)

lemma gauge_samples_many:
  "gf_samples (info_gauge c) = concat (map info_samples (cs_mountpoints c))"
  "gf_samples (rover_gauge c) = concat (map rover_samples (cs_positions c))"
proof -
  show "gf_samples (info_gauge c) = concat (map info_samples (cs_mountpoints c))"
    unfolding info_gauge_def
    by (subst fold_samples [where h = info_samples]) (auto simp: info_samples_def split: option.split)
  have "gf_samples (fold (\<lambda>(u, x, y). add_sample [Text m, Text u, FloatText (round6 x), FloatText (round6 y)] 1) ps g)
      = gf_samples g @ rover_samples (m, ps)" for m ps g
    by (induction ps arbitrary: g) (auto simp: rover_samples_def)
  then show "gf_samples (rover_gauge c) = concat (map rover_samples (cs_positions c))"
    unfolding rover_gauge_def by (subst fold_samples [where h = rover_samples]) auto
qed

lemma gauge_labels:
  "gf_labels (fst (transport_gauges c)) = [''mountpoint'']" "gf_labels (snd (transport_gauges c)) = [''mountpoint'']"
  "gf_labels (last_seen_gauge now c) = [''mountpoint'']"
  "gf_labels (info_gauge c) = [''mountpoint'', ''latitude'', ''longitude'', ''identifier'', ''country'', ''mask'']"
  "gf_labels (rover_gauge c) = [''mountpoint'', ''rover_id'', ''latitude'', ''longitude'']"
  by (simp_all add: transport_gauges_def fold_pair last_seen_gauge_def info_gauge_def rover_gauge_def case_prod_beta
      fold_keeps [where p = gf_labels] split: option.split)

lemma gauge_names:
  "gf_name (fst (transport_gauges c)) = ''ntrip_rovers_connected''" "gf_name (snd (transport_gauges c)) = ''ntrip_queue_depth''"
  "gf_name (last_seen_gauge now c) = ''ntrip_mountpoint_last_seen_seconds''"
  "gf_name (info_gauge c) = ''ntrip_mountpoint_info''" "gf_name (rover_gauge c) = ''ntrip_rover_position''"
  by (simp_all add: transport_gauges_def fold_pair last_seen_gauge_def info_gauge_def rover_gauge_def case_prod_beta
      fold_keeps [where p = gf_name] split: option.split)

section \<open>Well-formed scrapes\<close>

definition series_ok :: "gauge_family \<Rightarrow> bool" where
  "series_ok g \<longleftrightarrow> dict_ok (gf_samples g) \<and> list_all (\<lambda>(ls, _). length ls = length (gf_labels g)) (gf_samples g)"

text \<open>Samples keyed by something that tells the entries of a dict apart are distinct.\<close>

lemma distinct_concat_keyed:
  assumes "dict_ok d"
    and "\<And>e. e \<in> set d \<Longrightarrow> dict_ok (h e)"
    and "\<And>e s. e \<in> set d \<Longrightarrow> s \<in> set (h e) \<Longrightarrow> k (fst s) = fst e"
  shows "dict_ok (concat (map h d))"
  using assms
proof (induction d)
  case (Cons e d)
  have "fst s \<noteq> fst s'" if "s \<in> set (h e)" "e' \<in> set d" "s' \<in> set (h e')" for s e' s'
  proof
    assume "fst s = fst s'"
    then have "fst e = fst e'" using Cons.prems(3) [of e s] Cons.prems(3) [of e' s'] that by simp
    with Cons.prems(1) that(2) show False by auto
  qed
  then have "fst ` set (h e) \<inter> fst ` (\<Union>e' \<in> set d. set (h e')) = {}" by blast
  moreover have "dict_ok (concat (map h d))"
    by (rule Cons.IH) (use Cons.prems in auto)
  ultimately show ?case using Cons.prems(2) [of e] by simp
qed simp

lemma distinct_singles:
  "dict_ok d \<Longrightarrow> dict_ok (map (\<lambda>(m, v). ([Text m], f v)) d)"
  by (simp add: comp_def case_prod_beta distinct_map inj_on_def)

lemma rover_samples_distinct: "dict_ok positions \<Longrightarrow> dict_ok (rover_samples (m, positions))"
  by (simp add: rover_samples_def comp_def case_prod_beta distinct_map inj_on_def)

lemma info_samples_distinct: "dict_ok (info_samples e)"
  by (simp add: info_samples_def case_prod_beta split: option.split)

definition mountpoint_label :: "label list \<Rightarrow> string" where
  "mountpoint_label ls = (case ls of Text m # _ \<Rightarrow> m | _ \<Rightarrow> [])"

lemma samples_label:
  "s \<in> set (info_samples e) \<Longrightarrow> mountpoint_label (fst s) = fst e \<and> length (fst s) = 6"
  "s \<in> set (rover_samples e') \<Longrightarrow> mountpoint_label (fst s) = fst e' \<and> length (fst s) = 4"
  by (auto simp: info_samples_def rover_samples_def mountpoint_label_def split: option.splits prod.splits)

lemma transport_series_ok:
  assumes "caster_ok c"
  shows "series_ok (fst (transport_gauges c))" "series_ok (snd (transport_gauges c))" "series_ok (last_seen_gauge now c)"
proof -
  have d: "dict_ok (cs_transports c)" "dict_ok (cs_mountpoints c)"
    using assms by (simp_all add: caster_ok_def transports_ok_def registry_ok_def)
  show "series_ok (fst (transport_gauges c))" "series_ok (snd (transport_gauges c))" "series_ok (last_seen_gauge now c)"
    unfolding series_ok_def gauge_samples gauge_labels
    by (intro conjI distinct_singles d; simp add: list_all_iff case_prod_beta)+
qed

lemma info_series_ok:
  assumes "caster_ok c"
  shows "series_ok (info_gauge c)"
proof -
  have d: "dict_ok (cs_mountpoints c)" using assms by (simp add: caster_ok_def registry_ok_def)
  have "dict_ok (concat (map info_samples (cs_mountpoints c)))"
    by (rule distinct_concat_keyed [OF d info_samples_distinct, where k = mountpoint_label]) (simp add: samples_label(1))
  then show ?thesis
    unfolding series_ok_def gauge_samples_many gauge_labels using samples_label(1)
    by (fastforce simp: list_all_iff case_prod_beta)
qed

lemma rover_series_ok:
  assumes "caster_ok c"
  shows "series_ok (rover_gauge c)"
proof -
  have d: "dict_ok (cs_positions c)" and e: "\<And>m ps. (m, ps) \<in> set (cs_positions c) \<Longrightarrow> dict_ok ps"
    using assms by (auto simp: caster_ok_def positions_ok_def)
  have "dict_ok (concat (map rover_samples (cs_positions c)))"
    by (rule distinct_concat_keyed [OF d, where k = mountpoint_label]) (auto simp: samples_label(2) rover_samples_distinct [OF e])
  then show ?thesis
    unfolding series_ok_def gauge_samples_many gauge_labels using samples_label(2)
    by (fastforce simp: list_all_iff case_prod_beta)
qed

text \<open>
  Every scrape of a reachable caster is a valid exposition. The seven families have distinct
  names; inside each, every sample has exactly the declared labels and no two samples have the same
  label values.
\<close>
theorem scrape_is_well_formed:
  assumes "reach (\<lambda>c. \<exists>e n. c = new_caster e n) (caster_step cfg) c"
  shows "distinct (map gf_name (collect now c)) \<and> list_all series_ok (collect now c)"
proof -
  have ok: "caster_ok c" using cs_sys.reach_inv [OF assms] .
  have "series_ok (registered_gauge c)" "series_ok (online_gauge c)"
    by (simp_all add: series_ok_def registered_gauge_def online_gauge_def)
  with ok show ?thesis
    by (simp add: collect_def case_prod_beta transport_series_ok info_series_ok rover_series_ok gauge_names)
       (simp add: registered_gauge_def online_gauge_def)
qed

text \<open>
  C38: the gauges report the caster. In every reachable state the rover and backlog gauges have a
  sample for exactly the open mountpoints, the backlog is at most \<open>QUEUE_MAXSIZE\<close> frames for each
  connected rover, and no more mountpoints are reported online than registered.
\<close>
theorem scrape_reports_the_caster:
  assumes "reach (\<lambda>c. \<exists>e n. c = new_caster e n) (caster_step cfg) c"
  shows "(\<exists>x. map_of (gf_samples (fst (transport_gauges c))) [Text m] = Some x) = available m c \<and>
     (case (map_of (gf_samples (fst (transport_gauges c))) [Text m], map_of (gf_samples (snd (transport_gauges c))) [Text m]) of
        (Some rovers, Some depth) \<Rightarrow> depth \<le> real QUEUE_MAXSIZE * rovers
      | (None, None) \<Rightarrow> True
      | _ \<Rightarrow> False) \<and>
     length (cs_transports c) \<le> length (cs_mountpoints c)"
proof -
  have ok: "caster_ok c" using cs_sys.reach_inv [OF assms] .
  have look: "map_of (map (\<lambda>(m, t). ([Text m], f t)) d) [Text m] = map_option f (map_of d m)" for f :: "nat \<Rightarrow> real" and d
    by (induction d) auto
  have reg: "\<exists>mp. map_of (cs_mountpoints c) m = Some mp" if "map_of (cs_transports c) m = Some t" for t
    using ok that by (cases "map_of (cs_mountpoints c) m") (simp_all add: caster_ok_def registry_ok_def)
  have dt: "dict_ok (cs_transports c)" using ok by (simp add: caster_ok_def transports_ok_def)
  have "set (map fst (cs_transports c)) \<subseteq> set (map fst (cs_mountpoints c))"
    using ok by (fastforce simp: caster_ok_def registry_ok_def map_of_eq_None_iff)
  then have "card (set (map fst (cs_transports c))) \<le> length (map fst (cs_mountpoints c))"
    by (meson List.finite_set card_length card_mono order_trans)
  then have len: "length (cs_transports c) \<le> length (cs_mountpoints c)"
    using distinct_card [OF dt] by simp
  have "queue_depth (cs_store c t) \<le> QUEUE_MAXSIZE * subscriber_count (cs_store c t)" for t
    using ok by (simp add: queue_depth_bound caster_ok_def transports_ok_def)
  then have "real (queue_depth (cs_store c t)) \<le> real QUEUE_MAXSIZE * real (subscriber_count (cs_store c t))" for t
    by (metis of_nat_le_iff of_nat_mult)
  then show ?thesis
    using len reg by (auto simp: gauge_samples look available_def split: option.split)
qed

text \<open>
  A pass of the reaper removes from the scrape exactly the mountpoints whose age exceeded the
  expiry: the ages exported afterwards are the ages exported before that are at most the expiry.
\<close>
theorem reaper_bounds_the_reported_age:
  assumes "caster_ok c" "cs_expiry c = Some expiry"
  shows "gf_samples (last_seen_gauge now (reap now c)) =
     filter (\<lambda>(_, age). age \<le> expiry) (gf_samples (last_seen_gauge now c))"
proof -
  have "filter (\<lambda>(m, mp). now - expiry \<le> mp_last_seen mp) d = filter (\<lambda>x. now - mp_last_seen (snd x) \<le> expiry) d"
    for d :: "(string, mountpoint) dict"
    by (rule filter_cong) auto
  then show ?thesis
    by (simp add: gauge_samples reap_mountpoints [OF assms] filter_map comp_def case_prod_beta)
qed

section \<open>Witnesses\<close>

lemma new_reachable: "reach (\<lambda>c. \<exists>e n. c = new_caster e n) (caster_step cfg) (new_caster e n)"
  by (auto intro: reach_start)

lemma demo_registered:
  "reach (\<lambda>c. \<exists>e n. c = new_caster e n) (caster_step demo_config) (snd (register 0 ''B'' no_metadata (new_caster None 4)))"
  by (rule reach_step [OF new_reachable]) (rule caster_step.register)

theorem scrape_is_well_formed_witness:
  "list_all series_ok (collect 1 (snd (register 0 ''B'' no_metadata (new_caster None 4))))"
  using scrape_is_well_formed [OF demo_registered] by blast

theorem scrape_reports_the_caster_witness:
  "\<exists>x. map_of (gf_samples (fst (transport_gauges (snd (register 0 ''B'' no_metadata (new_caster None 4)))))) [Text ''B''] = Some x"
proof -
  have "mountpoint_re ''B''" by code_simp
  then have "available ''B'' (snd (register 0 ''B'' no_metadata (new_caster None 4)))"
    by (simp add: register_def new_caster_def new_mountpoint_def post_init_def open_transport_def available_def
        no_metadata_def present_and_not_def given_and_not_def)
  with scrape_reports_the_caster [OF demo_registered, of "''B''"] show ?thesis by blast
qed

theorem reaper_bounds_the_reported_age_witness:
  "gf_samples (last_seen_gauge 16 (reap 16 demo_caster)) = [] \<and>
   gf_samples (last_seen_gauge 15 (reap 15 demo_caster)) = [([Text ''BASE-1''], 10)]"
  using reaper_bounds_the_reported_age [OF demo_caster_ok demo_caster_facts(5)]
  by (simp add: gauge_samples demo_caster_facts)

end
