(* ===== verification/Bearer.thy ===== *)
theory Bearer
  imports OpaAuth
begin

text \<open>
  Bearer tokens: \<open>jwt.py\<close> (the key sets of the configured issuers, the service account's own token),
  \<open>oidc/base.py\<close> and the \<open>protected\<close> decorator of \<open>http/middleware.py\<close>. PyJWT, the HTTP client, Sanic's
  parsing of the \<open>Authorization\<close> header and \<open>cachetools.TTLCache\<close> are parameters; configuration,
  key sets and claims are JSON.
\<close>

section \<open>Errors and libraries\<close>

text \<open>
  The exception classes the decorator tells apart. \<open>UncaughtError\<close> is a library exception it does not
  name: PyJWT's \<open>InvalidKeyError\<close>, a timeout, a refused connection.
\<close>

datatype auth_error =
    InvalidTokenError
  | DecodeError
  | PyJWKError
  | ClientResponseError
  | UnauthorizedError
  | ForbiddenError
  | NotImplementedError
  | UncaughtError
  | PyError py_error

type_synonym claim_set = "(string, json) dict"

record 'k jose =
  jo_rsa :: "(string, json) dict \<Rightarrow> auth_error + 'k"
  jo_okp :: "(string, json) dict \<Rightarrow> auth_error + 'k"
  jo_header :: "string \<Rightarrow> auth_error + (string, json) dict"
  jo_decode :: "real \<Rightarrow> string \<Rightarrow> 'k \<Rightarrow> string list \<Rightarrow> json \<Rightarrow> json \<Rightarrow> auth_error + claim_set"
  jo_decode_unverified :: "real \<Rightarrow> string \<Rightarrow> auth_error + claim_set"

text \<open>\<open>cache.get(key)\<close> and \<open>cache[key] = value\<close>, at a time of the cache's clock\<close>

record ('v, 'c) ttl_store =
  ts_get :: "real \<Rightarrow> 'c \<Rightarrow> json \<Rightarrow> 'v option"
  ts_set :: "real \<Rightarrow> 'c \<Rightarrow> json \<Rightarrow> 'v \<Rightarrow> 'c"

text \<open>\<open>value[key]\<close>, a hashable value, iteration over a value, \<open>key in value\<close>\<close>

fun json_item :: "json \<Rightarrow> string \<Rightarrow> auth_error + json" where
  "json_item (JObj d) k = (case map_of d k of None \<Rightarrow> Inl (PyError (KeyError k)) | Some v \<Rightarrow> Inr v)"
| "json_item _ k = Inl (PyError TypeError)"

fun hashable :: "json \<Rightarrow> bool" where
  "hashable (JList _) = False"
| "hashable (JObj _) = False"
| "hashable _ = True"

fun json_iter :: "json \<Rightarrow> auth_error + json list" where
  "json_iter (JList xs) = Inr xs"
| "json_iter (JStr s) = Inr (map (\<lambda>c. JStr [c]) s)"
| "json_iter (JObj d) = Inr (map (JStr \<circ> fst) d)"
| "json_iter _ = Inl (PyError TypeError)"

fun json_in :: "string \<Rightarrow> json \<Rightarrow> auth_error + bool" where
  "json_in k (JObj d) = Inr (dict_has d k)"
| "json_in k (JList xs) = Inr (JStr k \<in> set xs)"
| "json_in k (JStr s) = Inr (is_infix k s)"
| "json_in k _ = Inl (PyError TypeError)"

section \<open>The key sets of the issuers\<close>

record jwk_provider =
  pv_client_id :: json
  pv_iss :: json
  pv_aud :: json
  pv_token :: json

record 'c jwks_manager =
  jm_providers :: "json list"
  jm_metadata :: "(json, jwk_provider) dict"
  jm_cache :: 'c

definition new_jwks_manager :: "json list \<Rightarrow> 'c \<Rightarrow> 'c jwks_manager" where
  "new_jwks_manager providers cache = \<lparr>jm_providers = providers, jm_metadata = [], jm_cache = cache\<rparr>"

definition public_key_from_jwk :: "'k jose \<Rightarrow> (string, json) dict \<Rightarrow> auth_error + 'k" where
  "public_key_from_jwk lib jwk =
     (let kty = map_of jwk ''kty'' in
      if kty = Some (JStr ''RSA'') then jo_rsa lib jwk
      else if kty = Some (JStr ''OKP'') then jo_okp lib jwk
      else Inl InvalidTokenError)"

text \<open>\<open>net url\<close> is the GET with \<open>raise_for_status\<close> and the parsed body.\<close>

type_synonym net = "json \<Rightarrow> auth_error + json"

definition fetch_issuer_jwks :: "net \<Rightarrow> json \<Rightarrow> auth_error + json" where
  "fetch_issuer_jwks net provider = andThen (json_item provider ''jwks'') net"

text \<open>\<open>asyncio.gather\<close>: nothing is stored when a fetch fails. Of several failures, the first of the list is taken.\<close>

fun fetch_all :: "net \<Rightarrow> json list \<Rightarrow> auth_error + json list" where
  "fetch_all net [] = Inr []"
| "fetch_all net (p # ps) =
     andThen (fetch_issuer_jwks net p) (\<lambda>j. andThen (fetch_all net ps) (\<lambda>js. Inr (j # js)))"

definition make_provider :: "json \<Rightarrow> auth_error + jwk_provider" where
  "make_provider provider =
     andThen (json_item provider ''aud'') (\<lambda>aud.
     andThen (json_item provider ''client_id'') (\<lambda>client_id.
     andThen (json_item provider ''iss'') (\<lambda>iss.
     andThen (json_item provider ''token'') (\<lambda>token.
     Inr \<lparr>pv_client_id = client_id, pv_iss = iss, pv_aud = aud, pv_token = token\<rparr>))))"

text \<open>\<open>provider_jwks.get("keys", [])\<close>\<close>

fun jwks_keys :: "json \<Rightarrow> auth_error + json list" where
  "jwks_keys (JObj d) = (case map_of d ''keys'' of None \<Rightarrow> Inr [] | Some v \<Rightarrow> json_iter v)"
| "jwks_keys _ = Inl (PyError AttributeError)"

definition store_jwk ::
  "'k jose \<Rightarrow> ('k, 'c) ttl_store \<Rightarrow> real \<Rightarrow> jwk_provider \<Rightarrow> json \<Rightarrow> 'c jwks_manager \<Rightarrow> (auth_error + unit) \<times> 'c jwks_manager" where
  "store_jwk lib st now p key m =
     (case key of
        JObj d \<Rightarrow>
          (let kid = opt_default JNull (map_of d ''kid'') in
           if \<not> json_true kid then (Inr (), m)
           else (case public_key_from_jwk lib d of
                   Inl e \<Rightarrow> (Inl e, m)
                 | Inr k \<Rightarrow>
                     if \<not> hashable kid then (Inl (PyError TypeError), m)
                     else (Inr (), m\<lparr>jm_cache := ts_set st now (jm_cache m) kid k,
                                     jm_metadata := AList.update kid p (jm_metadata m)\<rparr>)))
      | _ \<Rightarrow> (Inl (PyError AttributeError), m))"

fun store_jwks ::
  "'k jose \<Rightarrow> ('k, 'c) ttl_store \<Rightarrow> real \<Rightarrow> jwk_provider \<Rightarrow> json list \<Rightarrow> 'c jwks_manager \<Rightarrow> (auth_error + unit) \<times> 'c jwks_manager" where
  "store_jwks lib st now p [] m = (Inr (), m)"
| "store_jwks lib st now p (key # keys) m =
     (case store_jwk lib st now p key m of
        (Inl e, m) \<Rightarrow> (Inl e, m)
      | (Inr _, m) \<Rightarrow> store_jwks lib st now p keys m)"

definition store_provider ::
  "'k jose \<Rightarrow> ('k, 'c) ttl_store \<Rightarrow> real \<Rightarrow> json \<Rightarrow> json \<Rightarrow> 'c jwks_manager \<Rightarrow> (auth_error + unit) \<times> 'c jwks_manager" where
  "store_provider lib st now provider jwks m =
     (case make_provider provider of
        Inl e \<Rightarrow> (Inl e, m)
      | Inr p \<Rightarrow>
          if \<not> hashable (pv_aud p) then (Inl (PyError TypeError), m)
          else (let m = m\<lparr>jm_metadata := AList.update (pv_aud p) p (jm_metadata m)\<rparr> in
                case jwks_keys jwks of
                  Inl e \<Rightarrow> (Inl e, m)
                | Inr keys \<Rightarrow> store_jwks lib st now p keys m))"

fun store_providers ::
  "'k jose \<Rightarrow> ('k, 'c) ttl_store \<Rightarrow> real \<Rightarrow> (json \<times> json) list \<Rightarrow> 'c jwks_manager \<Rightarrow> (auth_error + unit) \<times> 'c jwks_manager" where
  "store_providers lib st now [] m = (Inr (), m)"
| "store_providers lib st now ((provider, jwks) # rest) m =
     (case store_provider lib st now provider jwks m of
        (Inl e, m) \<Rightarrow> (Inl e, m)
      | (Inr _, m) \<Rightarrow> store_providers lib st now rest m)"

definition populate ::
  "'k jose \<Rightarrow> ('k, 'c) ttl_store \<Rightarrow> net \<Rightarrow> real \<Rightarrow> 'c jwks_manager \<Rightarrow> (auth_error + unit) \<times> 'c jwks_manager" where
  "populate lib st net now m =
     (case fetch_all net (jm_providers m) of
        Inl e \<Rightarrow> (Inl e, m)
      | Inr documents \<Rightarrow> store_providers lib st now (zip (jm_providers m) documents) m)"

definition provider_by_aud :: "'c jwks_manager \<Rightarrow> json \<Rightarrow> jwk_provider option" where
  "provider_by_aud m aud = map_of (jm_metadata m) aud"

text \<open>
  \<open>self._jwks_metadata[key], self._jwks_cache[key]\<close>; the text of a \<open>KeyError\<close> that is not about a
  text is left out.
\<close>

definition key_error :: "json \<Rightarrow> auth_error" where
  "key_error k = PyError (KeyError (case k of JStr s \<Rightarrow> s | _ \<Rightarrow> []))"

definition entry_of :: "('k, 'c) ttl_store \<Rightarrow> real \<Rightarrow> json \<Rightarrow> 'c jwks_manager \<Rightarrow> auth_error + (jwk_provider \<times> 'k) option" where
  "entry_of st now key m =
     (case (map_of (jm_metadata m) key, ts_get st now (jm_cache m) key) of
        (Some p, Some k) \<Rightarrow> Inr (Some (p, k))
      | _ \<Rightarrow> Inl (key_error key))"

text \<open>\<open>now'\<close> is the time after the fetches. A falsy key returns None.\<close>

definition public_key ::
  "'k jose \<Rightarrow> ('k, 'c) ttl_store \<Rightarrow> net \<Rightarrow> real \<Rightarrow> real \<Rightarrow> json \<Rightarrow> 'c jwks_manager
    \<Rightarrow> (auth_error + (jwk_provider \<times> 'k) option) \<times> 'c jwks_manager" where
  "public_key lib st net now now' key m =
     (if \<not> json_true key then (Inr None, m)
      else if ts_get st now (jm_cache m) key \<noteq> None then (entry_of st now key m, m)
      else (case populate lib st net now' m of
              (Inl e, m) \<Rightarrow> (Inl e, m)
            | (Inr _, m) \<Rightarrow>
                if ts_get st now' (jm_cache m) key = None then (Inl InvalidTokenError, m)
                else (entry_of st now' key m, m)))"

definition validate ::
  "'k jose \<Rightarrow> ('k, 'c) ttl_store \<Rightarrow> net \<Rightarrow> real \<Rightarrow> real \<Rightarrow> real \<Rightarrow> string \<Rightarrow> 'c jwks_manager
    \<Rightarrow> (auth_error + claim_set) \<times> 'c jwks_manager" where
  "validate lib st net now now' wall token m =
     (case jo_header lib token of
        Inl e \<Rightarrow> (Inl e, m)
      | Inr header \<Rightarrow>
          (let kid = opt_default JNull (map_of header ''kid'') in
           if \<not> json_true kid then (Inl InvalidTokenError, m)
           else (case public_key lib st net now now' kid m of
                   (Inl e, m) \<Rightarrow> (Inl e, m)
                 | (Inr None, m) \<Rightarrow> (Inl (PyError TypeError), m)
                 | (Inr (Some (p, k)), m) \<Rightarrow>
                     (jo_decode lib wall token k [''RS256'', ''EdDSA''] (pv_aud p) (pv_iss p), m))))"

text \<open>\<open>except jwt.InvalidTokenError\<close>, of which \<open>DecodeError\<close> is a subclass, re-raises as \<open>InvalidTokenError\<close>.\<close>

definition unverified_claims :: "'k jose \<Rightarrow> real \<Rightarrow> string \<Rightarrow> auth_error + claim_set" where
  "unverified_claims lib wall token =
     (case jo_decode_unverified lib wall token of
        Inl e \<Rightarrow> Inl (if e = DecodeError then InvalidTokenError else e)
      | Inr claims \<Rightarrow> Inr claims)"

section \<open>The token of the service account\<close>

record 'c sa_manager =
  sa_aud :: json
  sa_token_endpoint :: json
  sa_client_id :: json
  sa_username :: json
  sa_password :: json
  sa_cache :: 'c

definition new_sa_manager :: "json \<Rightarrow> 'c \<Rightarrow> auth_error + 'c sa_manager" where
  "new_sa_manager configuration cache =
     andThen (json_item configuration ''aud'') (\<lambda>aud.
     andThen (json_item configuration ''token_endpoint'') (\<lambda>endpoint.
     andThen (json_item configuration ''client_id'') (\<lambda>client_id.
     andThen (andThen (json_item configuration ''credentials'') (\<lambda>c. json_item c ''username'')) (\<lambda>username.
     andThen (andThen (json_item configuration ''credentials'') (\<lambda>c. json_item c ''password'')) (\<lambda>password.
     Inr \<lparr>sa_aud = aud, sa_token_endpoint = endpoint, sa_client_id = client_id, sa_username = username,
          sa_password = password, sa_cache = cache\<rparr>)))))"

definition TOKEN_CACHE_KEY :: json where
  "TOKEN_CACHE_KEY = JStr ''access_token''"

definition token_form :: "'c sa_manager \<Rightarrow> (string \<times> json) list" where
  "token_form s =
     [(''grant_type'', JStr ''client_credentials''), (''client_id'', sa_client_id s), (''username'', sa_username s),
      (''password'', sa_password s), (''scope'', JStr ''email'')]"

text \<open>Numbers of a JSON body; a boolean is an int in Python.\<close>

fun json_number :: "json \<Rightarrow> int option" where
  "json_number (JInt i) = Some i"
| "json_number (JBool b) = Some (if b then 1 else 0)"
| "json_number _ = None"

type_synonym post = "json \<Rightarrow> (string \<times> json) list \<Rightarrow> auth_error + json"

definition fetch_token ::
  "(json \<times> real, 'c) ttl_store \<Rightarrow> post \<Rightarrow> real \<Rightarrow> real \<Rightarrow> 'c sa_manager \<Rightarrow> (auth_error + json) \<times> 'c sa_manager" where
  "fetch_token st post tick wall s =
     (case post (sa_token_endpoint s) (token_form s) of
        Inl e \<Rightarrow> (Inl e, s)
      | Inr (JObj payload) \<Rightarrow>
          (let access_token = opt_default JNull (map_of payload ''access_token'');
               expires_in = opt_default (JInt 3600) (map_of payload ''expires_in'') in
           case json_number expires_in of
             None \<Rightarrow> (Inl (PyError TypeError), s)
           | Some n \<Rightarrow>
               (Inr access_token,
                s\<lparr>sa_cache := ts_set st tick (sa_cache s) TOKEN_CACHE_KEY (access_token, wall + of_int n - 60)\<rparr>))
      | Inr _ \<Rightarrow> (Inl (PyError AttributeError), s))"

text \<open>\<open>tick'\<close> and \<open>wall'\<close> are read after the request.\<close>

definition access_token ::
  "(json \<times> real, 'c) ttl_store \<Rightarrow> post \<Rightarrow> real \<Rightarrow> real \<Rightarrow> real \<Rightarrow> real \<Rightarrow> 'c sa_manager
    \<Rightarrow> (auth_error + json) \<times> 'c sa_manager" where
  "access_token st post tick wall tick' wall' s =
     (case ts_get st tick (sa_cache s) TOKEN_CACHE_KEY of
        Some (token, expiry) \<Rightarrow>
          if wall < expiry then (Inr token, s) else fetch_token st post tick' wall' s
      | None \<Rightarrow> fetch_token st post tick' wall' s)"

section \<open>Registration at the application\<close>

text \<open>
  The attributes of \<open>app.ctx\<close> concerned; \<open>cx_token_manager\<close> says whether one called \<open>token_manager\<close>
  exists, which is the name \<open>register\<close> asks for.
\<close>

record ('c, 'd) auth_ctx =
  cx_jwks_manager :: "'c jwks_manager option"
  cx_sa_token_manager :: "'d sa_manager option"
  cx_token_manager :: bool

definition register_sa :: "json \<Rightarrow> 'd \<Rightarrow> ('c, 'd) auth_ctx \<Rightarrow> (auth_error + unit) \<times> ('c, 'd) auth_ctx" where
  "register_sa configuration cache x =
     (if cx_token_manager x then (Inr (), x)
      else (case new_sa_manager configuration cache of
              Inl e \<Rightarrow> (Inl e, x)
            | Inr s \<Rightarrow> (Inr (), x\<lparr>cx_sa_token_manager := Some s\<rparr>)))"

definition register_jwks ::
  "'k jose \<Rightarrow> ('k, 'c) ttl_store \<Rightarrow> net \<Rightarrow> real \<Rightarrow> json list \<Rightarrow> 'c \<Rightarrow> ('c, 'd) auth_ctx \<Rightarrow> (auth_error + unit) \<times> ('c, 'd) auth_ctx" where
  "register_jwks lib st net now providers cache x =
     (case cx_jwks_manager x of
        Some _ \<Rightarrow> (Inr (), x)
      | None \<Rightarrow>
          (case populate lib st net now (new_jwks_manager providers cache) of
             (r, m) \<Rightarrow> (r, x\<lparr>cx_jwks_manager := Some m\<rparr>)))"

fun with_jwks :: "json list \<Rightarrow> auth_error + json list" where
  "with_jwks [] = Inr []"
| "with_jwks (p # ps) =
     andThen (json_in ''jwks'' p) (\<lambda>b. andThen (with_jwks ps) (\<lambda>qs. Inr (if b then p # qs else qs)))"

text \<open>
  \<open>oidc.register\<close> on the parsed file. Both coroutines run to their end whatever the other does; the
  one of the key sets suspends first, so the other's failure is the one reported.
\<close>

definition oidc_register ::
  "'k jose \<Rightarrow> ('k, 'c) ttl_store \<Rightarrow> net \<Rightarrow> real \<Rightarrow> json \<Rightarrow> 'c \<Rightarrow> 'd \<Rightarrow> ('c, 'd) auth_ctx
    \<Rightarrow> (auth_error + unit) \<times> ('c, 'd) auth_ctx" where
  "oidc_register lib st net now configuration cache cache' x =
     (case andThen (json_item configuration ''providers'') (\<lambda>ps.
             andThen (json_item configuration ''service_account'') (\<lambda>sa. Inr (ps, sa))) of
        Inl e \<Rightarrow> (Inl e, x)
      | Inr (providers, issuer) \<Rightarrow>
          (case andThen (json_iter providers) with_jwks of
             Inl e \<Rightarrow> (Inl e, snd (register_sa issuer cache' x))
           | Inr ps \<Rightarrow>
               (case register_sa issuer cache' x of
                  (r', x) \<Rightarrow>
                    (case register_jwks lib st net now ps cache x of
                       (r, x) \<Rightarrow> (case r' of Inl e \<Rightarrow> Inl e | Inr _ \<Rightarrow> r, x)))))"

section \<open>The decorators\<close>

text \<open>
  The values of the \<open>Authorization\<close> headers in order and the access token cookie. Sanic reads the
  first header; \<open>credentials\<close> gives the token it finds in it.
\<close>

record bearer_request =
  br_authorization :: "string list"
  br_cookie :: "string option"

definition enrich_token :: "bearer_request \<Rightarrow> bearer_request" where
  "enrich_token rq =
     (case br_cookie rq of
        Some token \<Rightarrow>
          if token \<noteq> [] then rq\<lparr>br_authorization := br_authorization rq @ [''Bearer '' @ token]\<rparr> else rq
      | None \<Rightarrow> rq)"

definition request_credentials :: "(string option \<Rightarrow> string option) \<Rightarrow> bearer_request \<Rightarrow> string option" where
  "request_credentials credentials rq =
     credentials (case br_authorization rq of [] \<Rightarrow> None | h # _ \<Rightarrow> Some h)"

record bearer_ctx =
  bc_claims :: claim_set
  bc_service_account :: bool
  bc_subject :: json

datatype guarded = Rejected nat | Admitted bearer_ctx

text \<open>The \<open>except\<close> clauses, and Sanic's status for what leaves the decorator\<close>

fun rejection :: "auth_error \<Rightarrow> nat" where
  "rejection DecodeError = 401"
| "rejection InvalidTokenError = 401"
| "rejection PyJWKError = 401"
| "rejection ClientResponseError = 401"
| "rejection UnauthorizedError = 401"
| "rejection ForbiddenError = 403"
| "rejection _ = 500"

definition check_claims :: "bool \<Rightarrow> json \<Rightarrow> claim_set \<Rightarrow> auth_error + bearer_ctx" where
  "check_claims allow_service_account service_aud claims =
     (let is_service_account = (opt_default JNull (map_of claims ''aud'') = service_aud);
          subject = opt_default JNull (map_of claims ''email'') in
      if \<not> allow_service_account \<and> is_service_account then Inl ForbiddenError
      else if \<not> json_true subject then Inl InvalidTokenError
      else Inr \<lparr>bc_claims = claims, bc_service_account = is_service_account, bc_subject = subject\<rparr>)"

definition dots :: "string \<Rightarrow> nat" where
  "dots s = length (filter (\<lambda>c. c = CHR ''.'') s)"

definition protected ::
  "'k jose \<Rightarrow> ('k, 'c) ttl_store \<Rightarrow> net \<Rightarrow> (string option \<Rightarrow> string option) \<Rightarrow> bool \<Rightarrow> json
    \<Rightarrow> real \<Rightarrow> real \<Rightarrow> real \<Rightarrow> bearer_request \<Rightarrow> 'c jwks_manager \<Rightarrow> guarded \<times> 'c jwks_manager" where
  "protected lib st net credentials allow_service_account service_aud now now' wall rq m =
     (case request_credentials credentials (enrich_token rq) of
        None \<Rightarrow> (Rejected (rejection UnauthorizedError), m)
      | Some token \<Rightarrow>
          (if dots token \<noteq> 2 then (Rejected (rejection NotImplementedError), m)
           else (case validate lib st net now now' wall token m of
                   (Inl e, m) \<Rightarrow> (Rejected (rejection e), m)
                 | (Inr claims, m) \<Rightarrow>
                     (case check_claims allow_service_account service_aud claims of
                        Inl e \<Rightarrow> (Rejected (rejection e), m)
                      | Inr ctx \<Rightarrow> (Admitted ctx, m)))))"

text \<open>\<open>ensure_json\<close>: None lets the handler run.\<close>

definition ensure_json :: "json \<Rightarrow> nat option" where
  "ensure_json body = (if \<not> json_true body then Some 400 else None)"

section \<open>Keys and their issuers\<close>

text \<open>
  The documented behaviour of the cache: what it returns for a key is the last value stored for it.
  It may drop any entry at any time.
\<close>

definition remembers_only_stored :: "('v, 'c) ttl_store \<Rightarrow> bool" where
  "remembers_only_stored st \<longleftrightarrow>
     (\<forall>t t' c k v k' x. ts_get st t' (ts_set st t c k v) k' = Some x \<longrightarrow>
        (if k' = k then x = v else (\<exists>t''. ts_get st t'' c k' = Some x)))"

text \<open>
  \<open>issued p kid k\<close> says that issuer \<open>p\<close> owns the key \<open>k\<close> under the name \<open>kid\<close>. The answers of the
  network are honest when each issuer's document lists its own keys only; the names are separate
  when no issuer names a key like the audience of another.
\<close>

type_synonym 'k issued = "jwk_provider \<Rightarrow> json \<Rightarrow> 'k \<Rightarrow> bool"

definition issuers :: "json list \<Rightarrow> jwk_provider set" where
  "issuers providers = {p. \<exists>c \<in> set providers. make_provider c = Inr p}"

definition own_keys :: "'k jose \<Rightarrow> 'k issued \<Rightarrow> jwk_provider \<Rightarrow> json \<Rightarrow> bool" where
  "own_keys lib issued p key \<longleftrightarrow>
     (\<forall>d k. key = JObj d \<longrightarrow> public_key_from_jwk lib d = Inr k \<longrightarrow> issued p (opt_default JNull (map_of d ''kid'')) k)"

definition honest :: "'k jose \<Rightarrow> 'k issued \<Rightarrow> json list \<Rightarrow> net \<Rightarrow> bool" where
  "honest lib issued providers net \<longleftrightarrow>
     (\<forall>c \<in> set providers. \<forall>p document keys.
        make_provider c = Inr p \<longrightarrow> fetch_issuer_jwks net c = Inr document \<longrightarrow> jwks_keys document = Inr keys \<longrightarrow>
        list_all (own_keys lib issued p) keys)"

definition separate :: "'k issued \<Rightarrow> json list \<Rightarrow> bool" where
  "separate issued providers \<longleftrightarrow>
     (\<forall>p \<in> issuers providers. \<forall>p' \<in> issuers providers. \<forall>k. issued p (pv_aud p') k \<longrightarrow> p = p')"

definition keys_ok :: "('k, 'c) ttl_store \<Rightarrow> 'k issued \<Rightarrow> json list \<Rightarrow> 'c jwks_manager \<Rightarrow> bool" where
  "keys_ok st issued providers m \<longleftrightarrow>
     jm_providers m = providers \<and>
     (\<forall>kid p. map_of (jm_metadata m) kid = Some p \<longrightarrow> p \<in> issuers providers) \<and>
     (\<forall>t kid k. ts_get st t (jm_cache m) kid = Some k \<longrightarrow> (\<exists>p. map_of (jm_metadata m) kid = Some p \<and> issued p kid k))"

lemma keys_ok_store:
  assumes "remembers_only_stored st" "keys_ok st issued ps m" "p \<in> issuers ps" "issued p kid k"
  shows "keys_ok st issued ps (m\<lparr>jm_cache := ts_set st now (jm_cache m) kid k, jm_metadata := AList.update kid p (jm_metadata m)\<rparr>)"
proof -
  have "\<exists>q. ((map_of (jm_metadata m))(kid \<mapsto> p)) kid' = Some q \<and> issued q kid' x"
    if "ts_get st t (ts_set st now (jm_cache m) kid k) kid' = Some x" for t kid' x
  proof (cases "kid' = kid")
    case True
    with that assms(1,4) show ?thesis unfolding remembers_only_stored_def by (metis fun_upd_same)
  next
    case False
    with that assms(1) obtain t'' where "ts_get st t'' (jm_cache m) kid' = Some x"
      unfolding remembers_only_stored_def by metis
    with assms(2) False show ?thesis by (auto simp: keys_ok_def)
  qed
  with assms(2,3) show ?thesis by (auto simp: keys_ok_def dict_simps)
qed

lemma store_jwk_ok:
  assumes "remembers_only_stored st" "keys_ok st issued ps m" "p \<in> issuers ps" "own_keys lib issued p key"
  shows "keys_ok st issued ps (snd (store_jwk lib st now p key m))"
proof (cases key)
  case (JObj d)
  have "keys_ok st issued ps (m\<lparr>jm_cache := ts_set st now (jm_cache m) (opt_default JNull (map_of d ''kid'')) k,
      jm_metadata := AList.update (opt_default JNull (map_of d ''kid'')) p (jm_metadata m)\<rparr>)"
    if "public_key_from_jwk lib d = Inr k" for k
    by (rule keys_ok_store [OF assms(1-3)]) (use assms(4) JObj that in \<open>simp add: own_keys_def\<close>)
  with JObj assms(2) show ?thesis by (simp add: store_jwk_def Let_def split: sum.split)
qed (use assms(2) in \<open>simp_all add: store_jwk_def\<close>)

lemma store_jwks_ok:
  assumes "remembers_only_stored st" "p \<in> issuers ps"
  shows "keys_ok st issued ps m \<Longrightarrow> list_all (own_keys lib issued p) keys \<Longrightarrow>
    keys_ok st issued ps (snd (store_jwks lib st now p keys m))"
proof (induction keys arbitrary: m)
  case (Cons key keys)
  obtain r m' where s: "store_jwk lib st now p key m = (r, m')" by force
  with store_jwk_ok [OF assms(1) Cons.prems(1) assms(2), of lib key now] Cons.prems(2) have "keys_ok st issued ps m'"
    by simp
  with Cons.IH [of m'] Cons.prems(2) s show ?case by (cases r) simp_all
qed simp

lemma store_provider_ok:
  assumes "remembers_only_stored st" "separate issued ps" "keys_ok st issued ps m" "c \<in> set ps"
    and "\<And>p keys. make_provider c = Inr p \<Longrightarrow> jwks_keys document = Inr keys \<Longrightarrow> list_all (own_keys lib issued p) keys"
  shows "keys_ok st issued ps (snd (store_provider lib st now c document m))"
proof (cases "make_provider c")
  case (Inr p)
  then have p: "p \<in> issuers ps" using assms(4) by (auto simp: issuers_def)
  let ?m = "m\<lparr>jm_metadata := AList.update (pv_aud p) p (jm_metadata m)\<rparr>"
  have "\<exists>q. ((map_of (jm_metadata m))(pv_aud p \<mapsto> p)) kid = Some q \<and> issued q kid k"
    if found: "ts_get st t (jm_cache m) kid = Some k" for t kid k
  proof -
    obtain q where q: "map_of (jm_metadata m) kid = Some q" "issued q kid k" "q \<in> issuers ps"
      using assms(3) found unfolding keys_ok_def by blast
    then have "q = p" if "kid = pv_aud p" using assms(2) p that unfolding separate_def by blast
    with q show ?thesis by (cases "kid = pv_aud p") auto
  qed
  then have "keys_ok st issued ps ?m"
    using assms(3) p by (auto simp: keys_ok_def dict_simps)
  with Inr assms(5) assms(1,3) p show ?thesis
    by (auto simp: store_provider_def Let_def store_jwks_ok split: sum.split)
qed (use assms(3) in \<open>simp add: store_provider_def\<close>)

lemma store_providers_ok:
  assumes "remembers_only_stored st" "separate issued ps" "honest lib issued ps net"
  shows "keys_ok st issued ps m \<Longrightarrow> \<forall>(c, document) \<in> set zs. c \<in> set ps \<and> fetch_issuer_jwks net c = Inr document \<Longrightarrow>
    keys_ok st issued ps (snd (store_providers lib st now zs m))"
proof (induction zs arbitrary: m)
  case (Cons z zs)
  obtain c document where z: "z = (c, document)" by force
  obtain r m' where s: "store_provider lib st now c document m = (r, m')" by force
  have "keys_ok st issued ps (snd (store_provider lib st now c document m))"
    by (rule store_provider_ok [OF assms(1,2) Cons.prems(1)]) (use Cons.prems(2) assms(3) z in \<open>auto simp: honest_def\<close>)
  with s have "keys_ok st issued ps m'" by simp
  with Cons.IH [of m'] Cons.prems(2) z s show ?case by (cases r) auto
qed simp

lemma fetch_all_each:
  "fetch_all net ps = Inr documents \<Longrightarrow> (c, document) \<in> set (zip ps documents) \<Longrightarrow>
    c \<in> set ps \<and> fetch_issuer_jwks net c = Inr document"
  by (induction ps arbitrary: documents) (auto simp: andThen_Inr_iff)

lemma populate_ok:
  assumes "remembers_only_stored st" "separate issued ps" "honest lib issued ps net" "keys_ok st issued ps m"
  shows "keys_ok st issued ps (snd (populate lib st net now m))"
proof -
  have m: "jm_providers m = ps" using assms(4) by (simp add: keys_ok_def)
  have "keys_ok st issued ps (snd (store_providers lib st now (zip ps documents) m))"
    if "fetch_all net ps = Inr documents" for documents
    by (rule store_providers_ok [OF assms]) (use fetch_all_each [OF that] in blast)
  with assms(4) m show ?thesis by (simp add: populate_def split: sum.split)
qed

lemma public_key_ok:
  assumes "remembers_only_stored st" "separate issued ps" "honest lib issued ps net" "keys_ok st issued ps m"
  shows "keys_ok st issued ps (snd (public_key lib st net now now' key m))"
  using assms(4) populate_ok [OF assms, of now'] by (auto simp: public_key_def split: sum.split prod.split)

lemma validate_ok:
  assumes "remembers_only_stored st" "separate issued ps" "honest lib issued ps net" "keys_ok st issued ps m"
  shows "keys_ok st issued ps (snd (validate lib st net now now' wall token m))"
proof (cases "jo_header lib token")
  case (Inr header)
  then show ?thesis
    using assms(4) public_key_ok [OF assms, of now now' "opt_default JNull (map_of header ''kid'')"]
    by (auto simp: validate_def Let_def split: sum.split prod.split option.split)
qed (use assms(4) in \<open>simp add: validate_def\<close>)

text \<open>What a manager goes through: populating at any time with any honest answers, asking for keys, validating.\<close>

inductive jwks_step :: "'k jose \<Rightarrow> ('k, 'c) ttl_store \<Rightarrow> 'k issued \<Rightarrow> json list \<Rightarrow> 'c jwks_manager \<Rightarrow> 'c jwks_manager \<Rightarrow> bool"
  for lib st issued providers where
  populate: "honest lib issued providers net \<Longrightarrow> jwks_step lib st issued providers m (snd (populate lib st net now m))"
| public_key: "honest lib issued providers net \<Longrightarrow>
    jwks_step lib st issued providers m (snd (public_key lib st net now now' key m))"
| validate: "honest lib issued providers net \<Longrightarrow>
    jwks_step lib st issued providers m (snd (validate lib st net now now' wall token m))"

inductive_cases jwks_step_cases: "jwks_step lib st issued providers m m'"

definition fresh_manager :: "('k, 'c) ttl_store \<Rightarrow> json list \<Rightarrow> 'c jwks_manager \<Rightarrow> bool" where
  "fresh_manager st providers m \<longleftrightarrow>
     (\<exists>cache. m = new_jwks_manager providers cache \<and> (\<forall>t kid. ts_get st t cache kid = None))"

lemma fresh_keys_ok: "fresh_manager st providers m \<Longrightarrow> keys_ok st issued providers m"
  by (auto simp: fresh_manager_def keys_ok_def new_jwks_manager_def)

lemma jwks_step_ok:
  assumes "remembers_only_stored st" "separate issued ps" "keys_ok st issued ps m" "jwks_step lib st issued ps m m'"
  shows "keys_ok st issued ps m'"
  using assms(4) by (rule jwks_step_cases) (auto intro: populate_ok public_key_ok validate_ok assms(1-3))

lemma managed_keys_ok:
  assumes "remembers_only_stored st" "separate issued ps" "reach (fresh_manager st ps) (jwks_step lib st issued ps) m"
  shows "keys_ok st issued ps m"
  using assms(3) by (induction rule: reach.induct) (auto intro: fresh_keys_ok jwks_step_ok assms(1,2))

lemma entry_of_ok:
  assumes "keys_ok st issued ps m" "entry_of st now kid m = Inr (Some (p, k))"
  shows "p \<in> issuers ps \<and> issued p kid k"
  using assms unfolding keys_ok_def entry_of_def by (auto split: option.splits) (metis option.inject)

lemma public_key_issued:
  assumes "remembers_only_stored st" "separate issued ps" "honest lib issued ps net" "keys_ok st issued ps m"
    and "fst (public_key lib st net now now' kid m) = Inr (Some (p, k))"
  shows "p \<in> issuers ps \<and> issued p kid k"
proof (cases "ts_get st now (jm_cache m) kid")
  case None
  obtain r m' where pop: "populate lib st net now' m = (r, m')" by force
  with populate_ok [OF assms(1-4), of now'] have "keys_ok st issued ps m'" by simp
  moreover have "entry_of st now' kid m' = Inr (Some (p, k))"
    using None pop assms(5) by (auto simp: public_key_def split: if_splits sum.splits)
  ultimately show ?thesis by (rule entry_of_ok)
next
  case Some
  then have "entry_of st now kid m = Inr (Some (p, k))" using assms(5) by (auto simp: public_key_def split: if_splits)
  with assms(4) show ?thesis by (rule entry_of_ok)
qed

lemma validate_accepts:
  assumes "remembers_only_stored st" "separate issued ps" "honest lib issued ps net" "keys_ok st issued ps m"
    and "validate lib st net now now' wall token m = (Inr claims, m')"
  shows "\<exists>p kid k. p \<in> issuers ps \<and> issued p kid k \<and> (\<exists>h. jo_header lib token = Inr h \<and> map_of h ''kid'' = Some kid) \<and>
    jo_decode lib wall token k [''RS256'', ''EdDSA''] (pv_aud p) (pv_iss p) = Inr claims"
proof (cases "jo_header lib token")
  case (Inr header)
  let ?kid = "opt_default JNull (map_of header ''kid'')"
  have t: "json_true ?kid" using assms(5) Inr by (auto simp: validate_def Let_def split: if_splits)
  then have h: "map_of header ''kid'' = Some ?kid" by (cases "map_of header ''kid''") simp_all
  obtain r m1 where k: "public_key lib st net now now' ?kid m = (r, m1)" by force
  with assms(5) Inr t obtain p key where r: "r = Inr (Some (p, key))"
    and d: "jo_decode lib wall token key [''RS256'', ''EdDSA''] (pv_aud p) (pv_iss p) = Inr claims"
    by (auto simp: validate_def Let_def split: sum.splits option.splits)
  with k public_key_issued [OF assms(1-4), of now now' ?kid p key] have "p \<in> issuers ps \<and> issued p ?kid key" by simp
  with h d Inr show ?thesis by auto
qed (use assms(5) in \<open>simp add: validate_def\<close>)

lemma check_claims_Inr:
  "check_claims allow service_aud claims = Inr x \<longleftrightarrow>
     (allow \<or> opt_default JNull (map_of claims ''aud'') \<noteq> service_aud) \<and> json_true (opt_default JNull (map_of claims ''email'')) \<and>
     x = \<lparr>bc_claims = claims, bc_service_account = (opt_default JNull (map_of claims ''aud'') = service_aud),
          bc_subject = opt_default JNull (map_of claims ''email'')\<rparr>"
  by (auto simp: check_claims_def Let_def)

lemma protected_admits:
  assumes "fst (protected lib st net credentials allow service_aud now now' wall rq m) = Admitted x"
  obtains token m' where "request_credentials credentials (enrich_token rq) = Some token"
    "validate lib st net now now' wall token m = (Inr (bc_claims x), m')"
    "check_claims allow service_aud (bc_claims x) = Inr x"
  using assms by (auto simp: protected_def check_claims_Inr split: option.splits if_splits sum.splits prod.splits)


text \<open>
  Audiences and key names share one table. When an issuer names a key like the audience of a later
  issuer, that key is looked up together with the later issuer, so a token the first one signs is
  checked against the audience and name of the second.
\<close>
theorem key_named_like_an_audience_crosses_issuers:
  assumes "make_provider c = Inr p" "make_provider c' = Inr p'" "hashable (pv_aud p)" "hashable (pv_aud p')"
    and "fetch_issuer_jwks net c = Inr (JObj [(''keys'', JList [JObj d])])" "fetch_issuer_jwks net c' = Inr (JObj [])"
    and "map_of d ''kid'' = Some (pv_aud p')" "json_true (pv_aud p')" "public_key_from_jwk lib d = Inr k"
    and "ts_get st now cache (pv_aud p') = None" "ts_get st now' (ts_set st now' cache (pv_aud p') k) (pv_aud p') = Some k"
  shows "fst (public_key lib st net now now' (pv_aud p') (new_jwks_manager [c, c'] cache)) = Inr (Some (p', k))"
  using assms
  by (simp add: public_key_def populate_def new_jwks_manager_def store_provider_def store_jwk_def entry_of_def Let_def dict_simps)

text \<open>
  Any bearer token that is not of the form \<open>a.b.c\<close> makes the route fail with status 500, not 401,
  before any key is looked up: introspection of opaque tokens is not implemented.
\<close>
theorem opaque_token_is_a_server_error:
  assumes "request_credentials credentials (enrich_token rq) = Some token" "dots token \<noteq> 2"
  shows "protected lib st net credentials allow service_aud now now' wall rq m = (Rejected 500, m)"
  using assms by (simp add: protected_def)

text \<open>
  A token whose audience claim is a list is not recognised as the service account's, although the
  list may contain its audience.
\<close>
theorem list_audience_passes_as_a_user:
  assumes "map_of claims ''aud'' = Some (JList xs)" "JStr s \<in> set xs" "map_of claims ''email'' = Some e" "json_true e"
  shows "check_claims False (JStr s) claims = Inr \<lparr>bc_claims = claims, bc_service_account = False, bc_subject = e\<rparr>"
  using assms by (simp add: check_claims_def)

text \<open>The cookie does not override a header the client sent.\<close>

lemma header_before_cookie:
  "br_authorization rq = h # hs \<Longrightarrow> request_credentials credentials (enrich_token rq) = credentials (Some h)"
  by (auto simp: request_credentials_def enrich_token_def split: option.split)

text \<open>\<open>register\<close> looks for an attribute no code sets, so every call replaces the manager and its cached token.\<close>

lemma second_registration_replaces:
  "register_sa configuration cache x = (Inr (), x') \<Longrightarrow> \<not> cx_token_manager x \<Longrightarrow>
    \<exists>s. cx_sa_token_manager x' = Some s \<and> sa_cache s = cache"
  by (auto simp: register_sa_def new_sa_manager_def andThen_Inr_iff split: sum.splits)

section \<open>Lifetime of the service token\<close>

text \<open>\<open>granted token until\<close>: the endpoint granted the token until that time.\<close>

definition grants :: "(json \<Rightarrow> real \<Rightarrow> bool) \<Rightarrow> post \<Rightarrow> real \<Rightarrow> bool" where
  "grants granted post wall \<longleftrightarrow>
     (\<forall>endpoint form payload n. post endpoint form = Inr (JObj payload) \<longrightarrow>
        json_number (opt_default (JInt 3600) (map_of payload ''expires_in'')) = Some n \<longrightarrow>
        granted (opt_default JNull (map_of payload ''access_token'')) (wall + of_int n))"

definition sa_ok :: "(json \<times> real, 'c) ttl_store \<Rightarrow> (json \<Rightarrow> real \<Rightarrow> bool) \<Rightarrow> 'c sa_manager \<Rightarrow> bool" where
  "sa_ok st granted s \<longleftrightarrow>
     (\<forall>t token e. ts_get st t (sa_cache s) TOKEN_CACHE_KEY = Some (token, e) \<longrightarrow> granted token (e + 60))"

inductive sa_step :: "(json \<times> real, 'c) ttl_store \<Rightarrow> (json \<Rightarrow> real \<Rightarrow> bool) \<Rightarrow> 'c sa_manager \<Rightarrow> 'c sa_manager \<Rightarrow> bool"
  for st granted where
  token: "grants granted post wall' \<Longrightarrow> sa_step st granted s (snd (access_token st post tick wall tick' wall' s))"

inductive_cases sa_step_cases: "sa_step st granted s s'"

definition fresh_sa :: "(json \<times> real, 'c) ttl_store \<Rightarrow> 'c sa_manager \<Rightarrow> bool" where
  "fresh_sa st s \<longleftrightarrow>
     (\<exists>configuration cache. new_sa_manager configuration cache = Inr s \<and> (\<forall>t k. ts_get st t cache k = None))"

lemma fetch_token_ok:
  assumes "remembers_only_stored st" "grants granted post wall" "sa_ok st granted s"
  shows "sa_ok st granted (snd (fetch_token st post tick wall s))"
proof -
  have "snd (fetch_token st post tick wall s) = s \<and> (\<exists>e. fst (fetch_token st post tick wall s) = Inl e) \<or>
    (\<exists>tok n. fetch_token st post tick wall s =
       (Inr tok, s\<lparr>sa_cache := ts_set st tick (sa_cache s) TOKEN_CACHE_KEY (tok, wall + of_int n - 60)\<rparr>) \<and>
       granted tok (wall + of_int n))"
    using assms(2) unfolding fetch_token_def grants_def Let_def
    by (auto split: sum.split json.split option.split)
  then consider (failed) e where "snd (fetch_token st post tick wall s) = s" "fst (fetch_token st post tick wall s) = Inl e"
    | (fetched) tok n where "fetch_token st post tick wall s =
       (Inr tok, s\<lparr>sa_cache := ts_set st tick (sa_cache s) TOKEN_CACHE_KEY (tok, wall + of_int n - 60)\<rparr>)"
       "granted tok (wall + of_int n)"
    by blast
  then show "sa_ok st granted (snd (fetch_token st post tick wall s))"
  proof cases
    case (fetched tok n)
    have "granted tok' (e + 60)"
      if "ts_get st t (ts_set st tick (sa_cache s) TOKEN_CACHE_KEY (tok, wall + of_int n - 60)) TOKEN_CACHE_KEY = Some (tok', e)"
      for t tok' e
    proof -
      from that assms(1) have "(tok', e) = (tok, wall + of_int n - 60)" unfolding remembers_only_stored_def by presburger
      with fetched(2) show ?thesis by simp
    qed
    with fetched(1) show ?thesis by (simp add: sa_ok_def)
  qed (use assms(3) in simp)
qed

lemma access_token_ok:
  assumes "remembers_only_stored st" "grants granted post wall'" "sa_ok st granted s"
  shows "sa_ok st granted (snd (access_token st post tick wall tick' wall' s))"
  using assms(3) fetch_token_ok [OF assms, of tick'] by (simp add: access_token_def split: option.split prod.split)

lemma fresh_sa_ok: "fresh_sa st s \<Longrightarrow> sa_ok st granted s"
  by (auto simp: fresh_sa_def sa_ok_def new_sa_manager_def andThen_Inr_iff)

lemma managed_sa_ok:
  assumes "remembers_only_stored st" "reach (fresh_sa st) (sa_step st granted) s"
  shows "sa_ok st granted s"
  using assms(2)
proof (induction rule: reach.induct)
  case (reach_step s t)
  from reach_step.hyps(2) show ?case
    by (rule sa_step_cases) (use access_token_ok [OF assms(1) _ reach_step.IH] in simp)
qed (rule fresh_sa_ok)

text \<open>
  C40: a service token is never used in the last minute of its life. Whatever sequence of requests
  went before, a token handed out either has more than 60 seconds left of the time the endpoint
  granted it for, or was granted by the request this call made.
\<close>
theorem service_token_not_used_in_its_last_minute:
  assumes "remembers_only_stored st" "reach (fresh_sa st) (sa_step st granted) s"
    and "fst (access_token st post tick wall tick' wall' s) = Inr token"
  shows "(\<exists>until. granted token until \<and> wall < until - 60) \<or> fst (fetch_token st post tick' wall' s) = Inr token"
proof (cases "ts_get st tick (sa_cache s) TOKEN_CACHE_KEY")
  case (Some entry)
  obtain tok e where e: "entry = (tok, e)" by force
  with Some managed_sa_ok [OF assms(1,2)] have "granted tok (e + 60)" unfolding sa_ok_def by blast
  with Some e assms(3) show ?thesis by (auto simp: access_token_def split: if_splits)
qed (use assms(3) in \<open>simp add: access_token_def\<close>)

section \<open>Witnesses\<close>

text \<open>A cache with the documented behaviour, and one issuer with one key.\<close>

definition list_store :: "real \<Rightarrow> ('v, (json, real \<times> 'v) dict) ttl_store" where
  "list_store ttl = \<lparr>ts_get = (\<lambda>t c k. case map_of c k of Some (s, v) \<Rightarrow> if t < s + ttl then Some v else None | None \<Rightarrow> None),
     ts_set = (\<lambda>t c k v. AList.update k (t, v) c)\<rparr>"

lemma list_store_remembers: "remembers_only_stored (list_store ttl)"
  unfolding remembers_only_stored_def
proof (intro allI impI)
  fix t t' c k v k' x
  assume h: "ts_get (list_store ttl) t' (ts_set (list_store ttl) t c k v) k' = Some x"
  show "if k' = k then x = v else \<exists>t''. ts_get (list_store ttl) t'' c k' = Some x"
  proof (cases "k' = k")
    case True
    with h show ?thesis by (simp add: list_store_def dict_simps split: if_splits)
  next
    case False
    with h have "ts_get (list_store ttl) t' c k' = Some x" by (simp add: list_store_def dict_simps)
    with False show ?thesis by auto
  qed
qed

lemma list_store_empty: "ts_get (list_store ttl) t [] k = None"
  by (simp add: list_store_def)

definition demo_issuer :: "string \<Rightarrow> json" where
  "demo_issuer aud = JObj [(''aud'', JStr aud), (''client_id'', JStr ''c''), (''iss'', JStr (''https://'' @ aud)),
     (''token'', JStr ''t''), (''jwks'', JStr aud)]"

definition demo_provider :: "string \<Rightarrow> jwk_provider" where
  "demo_provider aud = \<lparr>pv_client_id = JStr ''c'', pv_iss = JStr (''https://'' @ aud), pv_aud = JStr aud, pv_token = JStr ''t''\<rparr>"

lemma demo_issuer_provider: "make_provider (demo_issuer aud) = Inr (demo_provider aud)"
  by (simp add: make_provider_def demo_issuer_def demo_provider_def)

definition demo_jwk :: "string \<Rightarrow> (string, json) dict" where
  "demo_jwk kid = [(''kid'', JStr kid), (''kty'', JStr ''OKP'')]"

definition demo_net :: "string \<Rightarrow> net" where
  "demo_net kid url = Inr (JObj (if url = JStr ''app'' then [(''keys'', JList [JObj (demo_jwk kid)])] else []))"

text \<open>A library whose key is the name, and which accepts a token for any issuer\<close>

definition demo_jose :: "string jose" where
  "demo_jose = \<lparr>jo_rsa = (\<lambda>_. Inl UncaughtError), jo_okp = (\<lambda>d. Inr (''key '' @ (case map_of d ''kid'' of Some (JStr s) \<Rightarrow> s | _ \<Rightarrow> []))),
     jo_header = (\<lambda>_. Inr [(''kid'', JStr ''k1'')]),
     jo_decode = (\<lambda>_ _ k _ _ _. if k = ''key k1'' then Inr [(''email'', JStr ''a@b'')] else Inl DecodeError),
     jo_decode_unverified = (\<lambda>_ _. Inl DecodeError)\<rparr>"

definition demo_issued :: "string issued" where
  "demo_issued p kid k \<longleftrightarrow> p = demo_provider ''app'' \<and> kid = JStr ''k1'' \<and> k = ''key k1''"

lemma demo_key: "public_key_from_jwk demo_jose (demo_jwk kid) = Inr (''key '' @ kid)"
  by (simp add: public_key_from_jwk_def demo_jose_def demo_jwk_def)

lemma demo_fetch: "fetch_issuer_jwks (demo_net kid) (demo_issuer aud) =
    Inr (JObj (if aud = ''app'' then [(''keys'', JList [JObj (demo_jwk kid)])] else []))"
  by (simp add: fetch_issuer_jwks_def demo_net_def demo_issuer_def)

lemma demo_honest: "honest demo_jose demo_issued [demo_issuer ''app''] (demo_net ''k1'')"
  by (simp add: honest_def demo_issuer_provider demo_fetch own_keys_def demo_key demo_issued_def)
     (simp add: demo_jwk_def)

lemma demo_separate: "separate demo_issued [demo_issuer ''app'']"
  by (simp add: separate_def issuers_def demo_issuer_provider)

lemma demo_fresh: "reach (fresh_manager (list_store 3600) ps) step (new_jwks_manager ps [])"
  by (rule reach_start) (auto simp: fresh_manager_def list_store_empty)

definition demo_bearer :: bearer_request where
  "demo_bearer = \<lparr>br_authorization = [], br_cookie = Some ''a.b.c''\<rparr>"

definition demo_credentials :: "string option \<Rightarrow> string option" where
  "demo_credentials h = map_option (drop 7) h"

lemma demo_token: "request_credentials demo_credentials (enrich_token demo_bearer) = Some ''a.b.c''"
  by (simp add: request_credentials_def demo_credentials_def enrich_token_def demo_bearer_def)

definition demo_admitted :: bearer_ctx where
  "demo_admitted = \<lparr>bc_claims = [(''email'', JStr ''a@b'')], bc_service_account = False, bc_subject = JStr ''a@b''\<rparr>"

lemma demo_protected:
  "fst (protected demo_jose (list_store 3600) (demo_net ''k1'') demo_credentials False (JStr ''sa'') 0 1 0 demo_bearer
     (new_jwks_manager [demo_issuer ''app''] [])) = Admitted demo_admitted"
proof -
  let ?m = "new_jwks_manager [demo_issuer ''app''] [] :: (json, real \<times> string) dict jwks_manager"
  have p: "fst (public_key demo_jose (list_store 3600) (demo_net ''k1'') 0 1 (JStr ''k1'') ?m) =
      Inr (Some (demo_provider ''app'', ''key k1''))"
    by (simp add: public_key_def list_store_empty new_jwks_manager_def populate_def demo_fetch store_provider_def demo_issuer_provider
        store_jwk_def Let_def demo_key entry_of_def)
       (simp add: demo_jwk_def demo_provider_def list_store_def)
  obtain r m' where pk: "public_key demo_jose (list_store 3600) (demo_net ''k1'') 0 1 (JStr ''k1'') ?m = (r, m')" by force
  with p have v: "validate demo_jose (list_store 3600) (demo_net ''k1'') 0 1 0 ''a.b.c'' ?m = (Inr [(''email'', JStr ''a@b'')], m')"
    by (simp add: validate_def demo_jose_def)
  have c: "check_claims False (JStr ''sa'') [(''email'', JStr ''a@b'')] = Inr demo_admitted"
    by (simp add: check_claims_def demo_admitted_def Let_def)
  show ?thesis by (simp add: protected_def demo_token dots_def v c)
qed


theorem key_named_like_an_audience_crosses_issuers_witness:
  "fst (public_key demo_jose (list_store 3600) (demo_net ''other'') 0 1 (JStr ''other'')
     (new_jwks_manager [demo_issuer ''app'', demo_issuer ''other''] [])) = Inr (Some (demo_provider ''other'', ''key other''))"
proof -
  have "fst (public_key demo_jose (list_store 3600) (demo_net ''other'') 0 1 (pv_aud (demo_provider ''other''))
      (new_jwks_manager [demo_issuer ''app'', demo_issuer ''other''] [])) = Inr (Some (demo_provider ''other'', ''key other''))"
    by (rule key_named_like_an_audience_crosses_issuers [OF demo_issuer_provider demo_issuer_provider, where d = "demo_jwk ''other''"])
       (simp_all add: demo_provider_def demo_fetch demo_key list_store_def, simp_all add: demo_jwk_def)
  then show ?thesis by (simp add: demo_provider_def)
qed

theorem opaque_token_is_a_server_error_witness:
  "fst (protected demo_jose (list_store 3600) (demo_net ''k1'') (\<lambda>_. Some ''opaque'') True (JStr ''sa'') 0 1 0 demo_bearer
     (new_jwks_manager [] [])) = Rejected 500"
  using opaque_token_is_a_server_error [of "\<lambda>_. Some ''opaque''" demo_bearer "''opaque''" demo_jose "list_store 3600"]
  by (simp add: request_credentials_def dots_def)

theorem list_audience_passes_as_a_user_witness:
  "bc_service_account (projr (check_claims False (JStr ''sa'') [(''aud'', JList [JStr ''sa'']), (''email'', JStr ''a@b'')])) = False"
  using list_audience_passes_as_a_user [of "[(''aud'', JList [JStr ''sa'']), (''email'', JStr ''a@b'')]" "[JStr ''sa'']" "''sa''" "JStr ''a@b''"]
  by simp

definition demo_sa :: "(json, real \<times> json \<times> real) dict sa_manager" where
  "demo_sa = \<lparr>sa_aud = JStr ''sa'', sa_token_endpoint = JStr ''u'', sa_client_id = JStr ''c'', sa_username = JStr ''n'',
     sa_password = JStr ''p'', sa_cache = []\<rparr>"

lemma demo_sa_fresh: "reach (fresh_sa (list_store 3600)) step demo_sa"
  by (rule reach_start, unfold fresh_sa_def, rule exI [of _ "JObj [(''aud'', JStr ''sa''), (''token_endpoint'', JStr ''u''), (''client_id'', JStr ''c''),
        (''credentials'', JObj [(''username'', JStr ''n''), (''password'', JStr ''p'')])]"], rule exI [of _ "[]"])
     (simp add: new_sa_manager_def demo_sa_def list_store_empty)

definition demo_post :: post where
  "demo_post endpoint form = Inr (JObj [(''access_token'', JStr ''tok''), (''expires_in'', JInt 300)])"

text \<open>Granted at time 0 for 300 seconds, the token is still handed out at 239.\<close>

theorem service_token_not_used_in_its_last_minute_witness:
  "\<exists>s. fst (access_token (list_store 3600) demo_post 239 239 240 240 s) = Inr (JStr ''tok'') \<and>
     ((\<exists>until. (JStr ''tok'' = JStr ''tok'' \<and> until = (300::real)) \<and> 239 < until - 60) \<or>
      fst (fetch_token (list_store 3600) demo_post 240 240 s) = Inr (JStr ''tok''))"
proof -
  let ?g = "\<lambda>tok until. tok = JStr ''tok'' \<and> until = (300::real)"
  let ?s = "snd (access_token (list_store 3600) demo_post 0 0 0 0 demo_sa)"
  have "grants ?g demo_post 0" by (simp add: grants_def demo_post_def)
  then have r: "reach (fresh_sa (list_store 3600)) (sa_step (list_store 3600) ?g) ?s"
    by (intro reach_step [OF demo_sa_fresh]) (rule sa_step.token)
  have f: "fst (access_token (list_store 3600) demo_post 239 239 240 240 ?s) = Inr (JStr ''tok'')"
    by (simp add: access_token_def demo_sa_def fetch_token_def demo_post_def list_store_def Let_def TOKEN_CACHE_KEY_def)
  from service_token_not_used_in_its_last_minute [OF list_store_remembers r f] f show ?thesis by blast
qed

end
