(* ===== verification/Broker.thy ===== *)
theory Broker
  imports Caster
begin

text \<open>
  What the caster promises as a whole: an abstract broker of numbered sessions, in which a mountpoint
  has at most one open session and each rover a backlog of at most \<open>QUEUE_MAXSIZE\<close> frames, and the
  proof that every run of the caster's operations, in any order, is a run of that broker. Facts about
  what rovers receive are then proved on the broker.
\<close>

section \<open>Events and answers\<close>

text \<open>
  Rovers are named by their transport and subscriber numbers, the handle that \<open>Join\<close> gives.
  \<open>Get\<close> is one read that does not wait, \<open>Cancel\<close> the cancellation of a waiting one, \<open>ShutdownTask\<close> a
  subscriber's own shutdown coroutine once it is scheduled, \<open>Quality\<close> a turn of the worker.
\<close>

datatype event =
    Register real string metadata
  | Close string
  | Unregister string
  | Publish real string frame
  | Join string
  | Leave nat nat
  | Get nat nat
  | Cancel nat nat
  | ShutdownTask nat nat
  | Quality
  | SetPosition string string pyfloat pyfloat
  | ClearPosition string string
  | CountReaped "string list"

datatype answer = Done | Failed | Count nat | Handle nat nat | Got "frame get_outcome"

fun run_event :: "quality_config \<Rightarrow> event \<Rightarrow> caster \<Rightarrow> answer \<times> caster" where
  "run_event cfg (Register now m md) c = (case register now m md c of (Inl _, c) \<Rightarrow> (Failed, c) | (Inr _, c) \<Rightarrow> (Done, c))"
| "run_event cfg (Close m) c = (case close_mountpoint m c of (Inl _, c) \<Rightarrow> (Failed, c) | (Inr _, c) \<Rightarrow> (Done, c))"
| "run_event cfg (Unregister m) c = (Done, unregister m c)"
| "run_event cfg (Publish now m f) c = (case publish cfg now m f c of (Inl _, c) \<Rightarrow> (Failed, c) | (Inr n, c) \<Rightarrow> (Count n, c))"
| "run_event cfg (Join m) c =
     (case Caster.subscribe m c of
        Inl _ \<Rightarrow> (Failed, c)
      | Inr t \<Rightarrow> (case metered_subscribe m t c of (i, c) \<Rightarrow> (Handle t i, c)))"
| "run_event cfg (Leave t i) c = (Done, leave_subscription t i c)"
| "run_event cfg (Get t i) c = (case tq_get i (cs_store c t) of (r, tr) \<Rightarrow> (Got r, upd_transport t (\<lambda>_. tr) c))"
| "run_event cfg (Cancel t i) c = (Done, upd_transport t (upd_sub i sub_get_cancelled) c)"
| "run_event cfg (ShutdownTask t i) c =
     (Done, if i \<in> set (tq_closing (cs_store c t)) then shutdown_task t i c else c)"
| "run_event cfg Quality c = (Done, case quality_turn cfg c of None \<Rightarrow> c | Some c' \<Rightarrow> c')"
| "run_event cfg (SetPosition m u x y) c = (Done, set_rover_position m u x y c)"
| "run_event cfg (ClearPosition m u) c = (Done, clear_rover_position m u c)"
| "run_event cfg (CountReaped ns) c = (Done, reap_count ns c)"

section \<open>The abstract broker\<close>

record broker =
  bk_open :: "string \<rightharpoonup> nat"
  bk_rovers :: "nat \<times> nat \<rightharpoonup> frame list"
  bk_next :: nat

definition empty_broker :: broker where
  "empty_broker = \<lparr>bk_open = Map.empty, bk_rovers = Map.empty, bk_next = 0\<rparr>"

definition deliver :: "nat \<Rightarrow> frame \<Rightarrow> broker \<Rightarrow> broker" where
  "deliver t f B = B\<lparr>bk_rovers :=
     (\<lambda>(t', i). if t' = t then map_option (\<lambda>q. keep_last QUEUE_MAXSIZE (q @ [f])) (bk_rovers B (t', i)) else bk_rovers B (t', i))\<rparr>"

definition drop_rover :: "nat \<Rightarrow> nat \<Rightarrow> broker \<Rightarrow> broker" where
  "drop_rover t i B = B\<lparr>bk_rovers := (bk_rovers B)((t, i) := None)\<rparr>"

definition rovers_of :: "nat \<Rightarrow> broker \<Rightarrow> nat set" where
  "rovers_of t B = {i. bk_rovers B (t, i) \<noteq> None}"

fun internal :: "event \<Rightarrow> bool" where
  "internal Quality = True"
| "internal (SetPosition _ _ _ _) = True"
| "internal (ClearPosition _ _) = True"
| "internal (CountReaped _) = True"
| "internal _ = False"

inductive broker_step :: "event \<Rightarrow> answer \<Rightarrow> broker \<Rightarrow> broker \<Rightarrow> bool" where
  opened: "bk_open B m = None \<Longrightarrow>
    broker_step (Register now m md) Done B (B\<lparr>bk_open := (bk_open B)(m \<mapsto> bk_next B), bk_next := Suc (bk_next B)\<rparr>)"
| kept: "bk_open B m \<noteq> None \<Longrightarrow> broker_step (Register now m md) Done B B"
| refused: "bk_open B m = None \<Longrightarrow> broker_step (Register now m md) Failed B B"
| closed: "bk_open B m \<noteq> None \<Longrightarrow> broker_step (Close m) Done B (B\<lparr>bk_open := (bk_open B)(m := None)\<rparr>)"
| not_open: "bk_open B m = None \<Longrightarrow> broker_step (Close m) out B B"
| unregistered: "broker_step (Unregister m) Done B (B\<lparr>bk_open := (bk_open B)(m := None)\<rparr>)"
| published: "bk_open B m = Some t \<Longrightarrow> broker_step (Publish now m f) (Count (card (rovers_of t B))) B (deliver t f B)"
| no_session: "bk_open B m = None \<Longrightarrow> broker_step (Publish now m f) (Count 0) B B"
| joined: "bk_open B m = Some t \<Longrightarrow> i \<notin> rovers_of t B \<Longrightarrow>
    broker_step (Join m) (Handle t i) B (B\<lparr>bk_rovers := (bk_rovers B)((t, i) \<mapsto> [])\<rparr>)"
| join_refused: "bk_open B m = None \<Longrightarrow> broker_step (Join m) Failed B B"
| left: "broker_step (Leave t i) Done B (drop_rover t i B)"
| got: "bk_rovers B (t, i) = Some (f # q) \<Longrightarrow>
    broker_step (Get t i) (Got (Delivered f)) B (B\<lparr>bk_rovers := (bk_rovers B)((t, i) \<mapsto> q)\<rparr>)"
| nothing_yet: "bk_rovers B (t, i) = Some [] \<Longrightarrow> broker_step (Get t i) (Got Blocked) B B"
| gone: "bk_rovers B (t, i) = None \<Longrightarrow> r = Ended \<or> r = Blocked \<Longrightarrow> broker_step (Get t i) (Got r) B B"
| cancelled: "broker_step (Cancel t i) Done B (drop_rover t i B)"
| shut_down: "broker_step (ShutdownTask t i) Done B (drop_rover t i B)"
| not_scheduled: "broker_step (ShutdownTask t i) Done B B"
| inner: "internal e \<Longrightarrow> broker_step e Done B B"

inductive_cases broker_step_cases: "broker_step e out B B'"

section \<open>The backlog of a transport\<close>

definition backlog :: "frame queue_transport \<Rightarrow> nat \<Rightarrow> frame list option" where
  "backlog tr i = (case tq_subs tr i of
     None \<Rightarrow> None | Some s \<Rightarrow> if sq_cancelled s then None else Some (frames_of (sq_queue s)))"

definition all_listed :: "frame queue_transport \<Rightarrow> bool" where
  "all_listed tr \<longleftrightarrow> (\<forall>i. live_sub tr i \<longrightarrow> i \<in> set (tq_queues tr))"

lemma backlog_live: "backlog tr i \<noteq> None \<longleftrightarrow> live_sub tr i"
  by (auto simp: backlog_def live_sub_def split: option.split)

lemma backlog_active: "all_listed tr \<Longrightarrow> {i. backlog tr i \<noteq> None} = tq_active tr"
  unfolding backlog_live by (auto simp: all_listed_def tq_active_def)

lemma frames_only: "Sentinel \<notin> set q \<Longrightarrow> map Frame (frames_of q) = q"
  by (induction q rule: frames_of.induct) auto

lemma frames_of_map [simp]: "frames_of (map Frame fs) = fs"
  by (induction fs) auto

lemma keep_last_map: "keep_last n (map g xs) = map g (keep_last n xs)"
  by (simp add: keep_last_def drop_map)

lemma frames_of_window:
  assumes "Sentinel \<notin> set q"
  shows "frames_of (keep_last n (q @ [Frame f])) = keep_last n (frames_of q @ [f])"
proof -
  have "q @ [Frame f] = map Frame (frames_of q @ [f])" using frames_only [OF assms] by simp
  then have "keep_last n (q @ [Frame f]) = map Frame (keep_last n (frames_of q @ [f]))"
    by (simp only: keep_last_map)
  then show ?thesis by simp
qed

lemma backlog_publish:
  assumes "tq_ok tr" "all_listed tr"
  shows "backlog (snd (tq_publish f tr)) = (\<lambda>i. map_option (\<lambda>q. keep_last QUEUE_MAXSIZE (q @ [f])) (backlog tr i))"
proof
  fix i
  show "backlog (snd (tq_publish f tr)) i = map_option (\<lambda>q. keep_last QUEUE_MAXSIZE (q @ [f])) (backlog tr i)"
  proof (cases "tq_subs tr i")
    case (Some s)
    have ok: "sub_ok s" using assms(1) Some by (rule tq_ok_sub)
    show ?thesis
    proof (cases "sq_cancelled s")
      case True
      with Some show ?thesis by (simp add: backlog_def tq_publish_result assms(1))
    next
      case False
      then have "i \<in> set (tq_queues tr)" using assms(2) Some by (auto simp: all_listed_def live_sub_def)
      moreover have "Sentinel \<notin> set (sq_queue s)" using ok False by (simp add: sub_ok_def)
      ultimately show ?thesis
        using Some False ok by (simp add: backlog_def tq_publish_result assms(1) sub_publish_live frames_of_window)
    qed
  qed (simp add: backlog_def tq_publish_result assms(1))
qed

lemma backlog_subscribe:
  assumes "tq_ok tr"
  shows "backlog (snd (tq_subscribe tr)) = (backlog tr)(fst (tq_subscribe tr) \<mapsto> [])" "backlog tr (fst (tq_subscribe tr)) = None"
  using assms by (auto simp: backlog_def tq_subscribe_def new_subscriber_def tq_ok_def fun_eq_iff)

lemma backlog_shut:
  assumes "tq_ok tr"
  shows "backlog (upd_sub i sub_shutdown tr) = (backlog tr)(i := None)"
    "backlog (upd_sub i sub_get_cancelled tr) = (backlog tr)(i := None)"
  using tq_ok_sub [OF assms]
  by (auto simp: backlog_def upd_sub_def sub_get_cancelled_def fun_eq_iff split: option.split)

lemma backlog_queues [simp]:
  "backlog (tr\<lparr>tq_queues := q\<rparr>) = backlog tr" "backlog (tr\<lparr>tq_closing := c\<rparr>) = backlog tr"
  "backlog (tr\<lparr>tq_queues := q, tq_closing := c\<rparr>) = backlog tr"
  by (simp_all add: backlog_def fun_eq_iff)

lemma backlog_unsubscribe: "tq_ok tr \<Longrightarrow> backlog (tq_unsubscribe i tr) = (backlog tr)(i := None)"
  unfolding tq_unsubscribe_def by (subst backlog_shut) (auto simp: tq_ok_def dest: notin_set_remove1)

lemma backlog_shutdown_task: "tq_ok tr \<Longrightarrow> backlog (tq_shutdown_task i tr) = (backlog tr)(i := None)"
  unfolding tq_shutdown_task_def by (subst backlog_shut) (simp_all add: tq_ok_queues)

lemma backlog_shutdown_begin [simp]: "backlog (tq_shutdown_begin tr) = backlog tr"
  by (simp add: tq_shutdown_begin_def)

lemma backlog_get:
  assumes "tq_ok tr"
  shows "case backlog tr i of
      Some (f # q) \<Rightarrow> fst (tq_get i tr) = Delivered f \<and> backlog (snd (tq_get i tr)) = (backlog tr)(i \<mapsto> q)
    | Some [] \<Rightarrow> fst (tq_get i tr) = Blocked \<and> backlog (snd (tq_get i tr)) = backlog tr
    | None \<Rightarrow> (fst (tq_get i tr) = Ended \<or> fst (tq_get i tr) = Blocked) \<and> backlog (snd (tq_get i tr)) = backlog tr"
proof (cases "tq_subs tr i")
  case (Some s)
  have ok: "sub_ok s" using assms Some by (rule tq_ok_sub)
  show ?thesis
  proof (cases "sq_cancelled s")
    case True
    with Some show ?thesis by (auto simp: backlog_def tq_get_def sub_get_def fun_eq_iff)
  next
    case False
    with ok have "Sentinel \<notin> set (sq_queue s)" by (simp add: sub_ok_def)
    with Some False show ?thesis
      by (cases "sq_queue s" rule: frames_of.cases)
         (auto simp: backlog_def tq_get_def sub_get_def sub_get_resume_def get_nowait_def fun_eq_iff)
  qed
qed (simp add: backlog_def tq_get_def)

section \<open>The simulation\<close>

definition broker_of :: "caster \<Rightarrow> broker" where
  "broker_of c = \<lparr>bk_open = map_of (cs_transports c), bk_rovers = (\<lambda>(t, i). backlog (cs_store c t) i), bk_next = cs_next c\<rparr>"

text \<open>
  The invariant of a started caster under these events: an open transport lists each of its live
  subscribers, and no subscriber exists of a transport not yet made.
\<close>

definition serving :: "caster \<Rightarrow> bool" where
  "serving c \<longleftrightarrow> caster_ok c \<and> cs_queue c \<noteq> None \<and>
     (\<forall>m t. map_of (cs_transports c) m = Some t \<longrightarrow> all_listed (cs_store c t)) \<and>
     (\<forall>t i. cs_next c \<le> t \<longrightarrow> tq_subs (cs_store c t) i = None)"

text \<open>An event that touches neither transports nor their table is invisible to the broker.\<close>

lemma same_traffic:
  assumes "serving c" "caster_ok c'" "cs_queue c' \<noteq> None" "cs_transports c' = cs_transports c" "cs_store c' = cs_store c"
    "cs_next c' = cs_next c"
  shows "serving c' \<and> broker_of c' = broker_of c"
  using assms by (simp add: serving_def broker_of_def)

lemma serving_upd:
  assumes "serving c" "\<And>tr. tq_ok tr \<Longrightarrow> tq_ok (g tr)" "all_listed (cs_store c t) \<Longrightarrow> all_listed (g (cs_store c t))"
    "cs_next c \<le> t \<Longrightarrow> (\<forall>i. tq_subs (cs_store c t) i = None) \<Longrightarrow> (\<forall>i. tq_subs (g (cs_store c t)) i = None)"
  shows "serving (upd_transport t g c)"
proof -
  have "caster_ok (upd_transport t g c)" using assms(1,2) by (simp add: serving_def caster_ok_upd_transport)
  with assms show ?thesis by (simp add: serving_def) (simp add: upd_transport_def)
qed

lemma next_frame [simp]:
  "cs_next (upd_transport t g c) = cs_next c" "cs_next (forget m c) = cs_next c"
  by (simp_all add: upd_transport_def forget_def)

lemma broker_of_upd:
  "broker_of (upd_transport t g c) =
     (broker_of c)\<lparr>bk_rovers := (\<lambda>(t', i). if t' = t then backlog (g (cs_store c t)) i else backlog (cs_store c t') i)\<rparr>"
  by (auto simp: broker_of_def fun_eq_iff)

lemma broker_of_upd_one:
  assumes "backlog (g (cs_store c t)) = (backlog (cs_store c t))(i := x)"
  shows "broker_of (upd_transport t g c) = (broker_of c)\<lparr>bk_rovers := (bk_rovers (broker_of c))((t, i) := x)\<rparr>"
proof -
  have "(\<lambda>(t', j). if t' = t then backlog (g (cs_store c t)) j else backlog (cs_store c t') j) =
      (bk_rovers (broker_of c))((t, i) := x)"
    by (auto simp: fun_eq_iff broker_of_def assms)
  then show ?thesis by (simp add: broker_of_upd)
qed

lemma broker_of_upd_same:
  "backlog (g (cs_store c t)) = backlog (cs_store c t) \<Longrightarrow> broker_of (upd_transport t g c) = broker_of c"
  by (auto simp: broker_of_upd broker_of_def fun_eq_iff)

lemma broker_of_simps [simp]:
  "bk_open (broker_of c) = map_of (cs_transports c)" "bk_rovers (broker_of c) (t, i) = backlog (cs_store c t) i"
  "bk_next (broker_of c) = cs_next c"
  by (simp_all add: broker_of_def)

lemma serving_tq_ok: "serving c \<Longrightarrow> tq_ok (cs_store c t)"
  by (simp add: serving_def caster_ok_store_ok)

text \<open>Opening a session\<close>

lemma open_simulated:
  assumes "serving c" "map_of (cs_mountpoints c) m \<noteq> None"
  shows "serving (open_transport m c) \<and> broker_of (open_transport m c) =
    (broker_of c)\<lparr>bk_open := (bk_open (broker_of c))(m \<mapsto> cs_next c), bk_next := Suc (cs_next c)\<rparr>"
proof -
  have fresh: "backlog (cs_store c (cs_next c)) i = None" for i
    using assms(1) by (simp add: serving_def backlog_def)
  have "caster_ok (open_transport m c)" using assms by (intro caster_ok_open) (simp_all add: serving_def)
  moreover have "all_listed new_transport" by (simp add: all_listed_def live_sub_def new_transport_def)
  moreover have "backlog new_transport i = None" for i by (simp add: backlog_def new_transport_def)
  ultimately show ?thesis
    using assms(1) fresh
    by (auto simp: serving_def open_transport_def broker_of_def dict_simps fun_eq_iff split: if_splits)
qed

lemma set_mountpoint_quiet:
  "serving c \<Longrightarrow> serving (c\<lparr>cs_mountpoints := AList.update m mp (cs_mountpoints c)\<rparr>) \<and>
    broker_of (c\<lparr>cs_mountpoints := AList.update m mp (cs_mountpoints c)\<rparr>) = broker_of c"
  by (rule same_traffic) (simp_all add: serving_def caster_ok_set_mountpoint)

lemma register_simulated:
  assumes "serving c" "run_event cfg (Register now m md) c = (out, c')"
  shows "serving c' \<and> broker_step (Register now m md) out (broker_of c) (broker_of c')"
proof (cases "map_of (cs_transports c) m")
  case None
  let ?c = "\<lambda>mp. c\<lparr>cs_mountpoints := AList.update m mp (cs_mountpoints c)\<rparr>"
  have o: "serving (open_transport m (?c mp)) \<and> broker_step (Register now m md) Done (broker_of c) (broker_of (open_transport m (?c mp)))" for mp
    using open_simulated [of "?c mp" m] set_mountpoint_quiet [OF assms(1), of m mp] broker_step.opened [of "broker_of c" m] None
    by (simp add: dict_simps)
  with assms None show ?thesis
    by (auto simp: register_def Let_def intro: broker_step.refused split: option.splits sum.splits)
next
  case (Some t)
  then obtain mp where "map_of (cs_mountpoints c) m = Some mp"
    using assms(1) caster_ok_registered unfolding serving_def by blast
  with Some assms set_mountpoint_quiet [OF assms(1)] show ?thesis
    by (auto simp: register_def Let_def simp del: map_of_eq_Some_iff intro!: broker_step.kept)
qed

text \<open>Ending a session: the transport leaves the table, its subscribers live on until they are shut down.\<close>

lemma drop_simulated:
  assumes "serving c"
  shows "serving (forget m (c\<lparr>cs_transports := AList.delete m (cs_transports c)\<rparr>)) \<and>
    broker_of (forget m (c\<lparr>cs_transports := AList.delete m (cs_transports c)\<rparr>)) =
      (broker_of c)\<lparr>bk_open := (bk_open (broker_of c))(m := None)\<rparr>"
proof -
  let ?c = "forget m (c\<lparr>cs_transports := AList.delete m (cs_transports c)\<rparr>)"
  have "caster_ok ?c" using assms by (intro caster_ok_forget caster_ok_drop_transport) (simp add: serving_def)
  with assms show ?thesis
    by (auto simp: serving_def broker_of_def dict_simps fun_eq_iff split: if_splits)
qed

lemma detach_quiet:
  assumes "serving c" "\<And>m. map_of (cs_transports c) m \<noteq> Some t"
  shows "serving (upd_transport t tq_shutdown_begin c) \<and> broker_of (upd_transport t tq_shutdown_begin c) = broker_of c"
proof -
  have "caster_ok (upd_transport t tq_shutdown_begin c)"
    using assms(1) by (simp add: serving_def caster_ok_upd_transport tq_ok_shutdown_begin)
  moreover have "tq_subs (tq_shutdown_begin (cs_store c t)) = tq_subs (cs_store c t)" by (simp add: tq_shutdown_begin_def)
  ultimately show ?thesis
    using assms by (auto simp: serving_def broker_of_upd_same simp del: map_of_eq_Some_iff)
qed

lemma dropped_not_open:
  "serving c \<Longrightarrow> map_of (cs_transports c) m = Some t \<Longrightarrow>
    map_of (cs_transports (forget m (c\<lparr>cs_transports := AList.delete m (cs_transports c)\<rparr>))) m' \<noteq> Some t"
  using caster_ok_distinct_transports [of c m t m'] by (auto simp: serving_def dict_simps simp del: map_of_eq_Some_iff)

lemma close_simulated:
  assumes "serving c" "run_event cfg (Close m) c = (out, c')"
  shows "serving c' \<and> broker_step (Close m) out (broker_of c) (broker_of c')"
proof (cases "map_of (cs_transports c) m")
  case None
  with assms show ?thesis by (auto simp: close_mountpoint_def intro!: broker_step.not_open split: if_splits)
next
  case (Some t)
  then obtain mp where mp: "map_of (cs_mountpoints c) m = Some mp"
    using assms(1) caster_ok_registered unfolding serving_def by blast
  note detached = detach_quiet [OF conjunct1 [OF drop_simulated [OF assms(1), of m]], of t]
  from detached dropped_not_open [OF assms(1) Some] drop_simulated [OF assms(1), of m] assms(2) broker_step.closed [of "broker_of c" m] Some
  show ?thesis by (simp add: close_open [OF mp Some])
qed

lemma unregister_simulated:
  assumes "serving c" "run_event cfg (Unregister m) c = (out, c')"
  shows "serving c' \<and> broker_step (Unregister m) out (broker_of c) (broker_of c')"
proof (cases "map_of (cs_mountpoints c) m")
  case None
  then have "map_of (cs_transports c) m = None" using assms(1) by (simp add: serving_def caster_ok_def registry_ok_def)
  then have "(broker_of c)\<lparr>bk_open := (bk_open (broker_of c))(m := None)\<rparr> = broker_of c"
    by (auto simp: broker_of_def fun_eq_iff)
  with broker_step.unregistered [of m "broker_of c"] None assms show ?thesis by (simp add: unregister_def)
next
  case (Some mp)
  let ?d = "forget m (c\<lparr>cs_transports := AList.delete m (cs_transports c)\<rparr>)"
  let ?e = "?d\<lparr>cs_mountpoints := AList.delete m (cs_mountpoints ?d)\<rparr>"
  have d: "serving ?d" "broker_of ?d = (broker_of c)\<lparr>bk_open := (bk_open (broker_of c))(m := None)\<rparr>"
    using drop_simulated [OF assms(1), of m] by simp_all
  have "caster_ok ?e" using d(1) by (intro caster_ok_drop_mountpoint) (simp_all add: serving_def dict_simps)
  then have e: "serving ?e \<and> broker_of ?e = broker_of ?d"
    by (rule same_traffic [OF d(1)]) (use d(1) in \<open>simp_all add: serving_def\<close>)
  have c': "c' = (case map_of (cs_transports c) m of None \<Rightarrow> ?e | Some t \<Rightarrow> upd_transport t tq_shutdown_begin ?e)"
    using assms(2) Some by (simp add: unregister_def Let_def)
  have "serving c' \<and> broker_of c' = broker_of ?e"
  proof (cases "map_of (cs_transports c) m")
    case None
    with c' e show ?thesis by simp
  next
    case (Some t)
    have "map_of (cs_transports ?e) m' \<noteq> Some t" for m' using dropped_not_open [OF assms(1) Some] by simp
    with detach_quiet [of ?e t] e c' Some show ?thesis by simp
  qed
  with d e broker_step.unregistered [of m "broker_of c"] assms(2) show ?thesis by simp
qed

text \<open>Traffic\<close>

lemma publish_simulated:
  assumes "serving c" "run_event cfg (Publish now m f) c = (out, c')"
  shows "serving c' \<and> broker_step (Publish now m f) out (broker_of c) (broker_of c')"
proof (cases "map_of (cs_transports c) m")
  case None
  with assms broker_step.no_session [of "broker_of c" m] show ?thesis by (simp add: publish_cases)
next
  case (Some t)
  then obtain mp where mp: "map_of (cs_mountpoints c) m = Some mp"
    using assms(1) caster_ok_registered unfolding serving_def by blast
  let ?tr = "cs_store c t"
  have listed: "all_listed ?tr" and q: "cs_queue c \<noteq> None" using assms(1) Some by (auto simp: serving_def)
  have ok: "tq_ok ?tr" using assms(1) by (rule serving_tq_ok)
  let ?u = "upd_transport t (\<lambda>tr. snd (tq_publish f tr)) c"
  have u: "serving ?u"
  proof (rule serving_upd [OF assms(1) tq_ok_publish])
    show "all_listed (snd (tq_publish f ?tr))" if "all_listed ?tr"
      using that ok by (simp add: all_listed_def live_sub_publish)
    show "\<forall>i. tq_subs (snd (tq_publish f ?tr)) i = None" if "\<forall>i. tq_subs ?tr i = None"
      using that ok by (simp add: tq_publish_result)
  qed
  have b: "broker_of ?u = deliver t f (broker_of c)"
    by (auto simp: broker_of_upd deliver_def broker_of_def backlog_publish [OF ok listed] fun_eq_iff)
  have pub: "out = Count (card (tq_active ?tr))" "c' = snd (enqueue_quality cfg m (snd f) (published_state now m f t mp c))"
    using assms(2) by (simp_all add: publish_open [OF Some mp q] publish_acks_active ok)
  have next': "cs_next c' = cs_next c"
    by (simp add: pub(2) enqueue_quality_def process_quality_def published_state_def log_caster_def case_prod_beta split: option.split)
  have "caster_ok c'" using assms(1) pub(2) by (simp add: serving_def caster_ok_enqueue caster_ok_published)
  moreover have "cs_queue c' \<noteq> None"
    using q by (auto simp: pub(2) enqueue_quality_def log_caster_def split: option.split)
  moreover have "cs_transports c' = cs_transports ?u" "cs_store c' = cs_store ?u"
    by (simp_all add: pub(2) enqueue_frame)
  ultimately have c': "serving c' \<and> broker_of c' = broker_of ?u"
    by (rule same_traffic [OF u]) (simp add: next')
  have "rovers_of t (broker_of c) = tq_active ?tr"
    using backlog_active [OF listed] by (simp add: rovers_of_def)
  with broker_step.published [of "broker_of c" m t now f] Some pub(1) c' b show ?thesis by simp
qed

lemma join_simulated:
  assumes "serving c" "run_event cfg (Join m) c = (out, c')"
  shows "serving c' \<and> broker_step (Join m) out (broker_of c) (broker_of c')"
proof (cases "map_of (cs_transports c) m")
  case None
  with assms broker_step.join_refused [of "broker_of c" m] show ?thesis by (simp add: Caster.subscribe_def)
next
  case (Some t)
  let ?tr = "cs_store c t"
  let ?u = "upd_transport t (\<lambda>tr. snd (tq_subscribe tr)) c"
  have ok: "tq_ok ?tr" using assms(1) by (rule serving_tq_ok)
  have lt: "t < cs_next c" using assms(1) Some by (auto simp: serving_def caster_ok_def transports_ok_def simp del: map_of_eq_Some_iff)
  have u: "serving ?u"
  proof (rule serving_upd [OF assms(1) tq_ok_subscribe])
    show "all_listed (snd (tq_subscribe ?tr))" if "all_listed ?tr"
      using that by (auto simp: all_listed_def tq_subscribe_def live_sub_def)
    show "\<forall>i. tq_subs (snd (tq_subscribe ?tr)) i = None" if "cs_next c \<le> t" using that lt by simp
  qed
  have r: "out = Handle t (fst (tq_subscribe ?tr))" "c' = log_caster [MInc ''rover_sessions_total'' [m] 1] ?u"
    using assms(2) Some
    by (auto simp: Caster.subscribe_def metered_subscribe_def Let_def case_prod_beta log_caster_def upd_transport_def)
  have b: "broker_of ?u = (broker_of c)\<lparr>bk_rovers := (bk_rovers (broker_of c))((t, fst (tq_subscribe ?tr)) \<mapsto> [])\<rparr>"
    by (rule broker_of_upd_one) (rule backlog_subscribe(1) [OF ok])
  have "serving c' \<and> broker_of c' = broker_of ?u"
    by (rule same_traffic [OF u]) (use u in \<open>simp_all add: r(2) serving_def\<close>, simp_all add: log_caster_def)
  moreover have "fst (tq_subscribe ?tr) \<notin> rovers_of t (broker_of c)"
    by (simp add: rovers_of_def backlog_subscribe(2) [OF ok])
  ultimately show ?thesis
    using broker_step.joined [of "broker_of c" m t "fst (tq_subscribe ?tr)"] Some r(1) b by simp
qed

lemma drop_rover_simulated:
  assumes "serving c" "\<And>tr. tq_ok tr \<Longrightarrow> tq_ok (g tr)" "backlog (g (cs_store c t)) = (backlog (cs_store c t))(i := None)"
    "\<And>j. j \<noteq> i \<Longrightarrow> j \<in> set (tq_queues (cs_store c t)) \<Longrightarrow> j \<in> set (tq_queues (g (cs_store c t)))"
    "\<And>j. tq_subs (cs_store c t) j = None \<Longrightarrow> tq_subs (g (cs_store c t)) j = None"
  shows "serving (upd_transport t g c) \<and> broker_of (upd_transport t g c) = drop_rover t i (broker_of c)"
proof -
  have live: "live_sub (g (cs_store c t)) j \<longleftrightarrow> j \<noteq> i \<and> live_sub (cs_store c t) j" for j
    unfolding backlog_live [symmetric] assms(3) by simp
  have "serving (upd_transport t g c)"
    by (rule serving_upd [OF assms(1,2)]) (auto simp: all_listed_def live assms(4,5))
  with broker_of_upd_one [of g c t i None, OF assms(3)] show ?thesis by (simp add: drop_rover_def)
qed

lemma leave_simulated:
  assumes "serving c"
  shows "serving (leave_subscription t i c) \<and> broker_of (leave_subscription t i c) = drop_rover t i (broker_of c)"
  unfolding leave_subscription_def
  by (rule drop_rover_simulated [OF assms tq_ok_unsubscribe])
     (simp_all add: backlog_unsubscribe serving_tq_ok assms, auto simp: tq_unsubscribe_def upd_sub_def)

lemma cancel_simulated:
  assumes "serving c"
  shows "serving (upd_transport t (upd_sub i sub_get_cancelled) c) \<and>
    broker_of (upd_transport t (upd_sub i sub_get_cancelled) c) = drop_rover t i (broker_of c)"
  by (rule drop_rover_simulated [OF assms tq_ok_upd_sub [OF _ sub_ok_get_cancelled]])
     (simp_all add: backlog_shut serving_tq_ok assms, auto simp: upd_sub_def)

lemma shutdown_task_simulated:
  assumes "serving c"
  shows "serving (shutdown_task t i c) \<and> broker_of (shutdown_task t i c) = drop_rover t i (broker_of c)"
  unfolding shutdown_task_def
  by (rule drop_rover_simulated [OF assms tq_ok_shutdown_task])
     (simp_all add: backlog_shutdown_task serving_tq_ok assms, auto simp: tq_shutdown_task_def upd_sub_def)

lemma get_simulated:
  assumes "serving c" "run_event cfg (Get t i) c = (out, c')"
  shows "serving c' \<and> broker_step (Get t i) out (broker_of c) (broker_of c')"
proof -
  let ?tr = "cs_store c t"
  let ?g = "\<lambda>tr. snd (tq_get i tr)"
  have ok: "tq_ok ?tr" using assms(1) by (rule serving_tq_ok)
  have out: "out = Got (fst (tq_get i ?tr))" and c': "c' = upd_transport t ?g c"
    using assms(2) by (simp_all add: case_prod_beta upd_transport_def)
  note bl = backlog_get [OF ok, of i]
  have live: "live_sub (?g ?tr) j \<longleftrightarrow> live_sub ?tr j" for j
    using bl unfolding backlog_live [symmetric] by (auto split: option.splits list.splits)
  have queues: "tq_queues (?g ?tr) = tq_queues ?tr" "(tq_subs (?g ?tr) j = None) = (tq_subs ?tr j = None)" for j
    by (auto simp: tq_get_def case_prod_beta split: option.split)
  have s: "serving (upd_transport t ?g c)"
    by (rule serving_upd [OF assms(1) tq_ok_get]) (simp_all add: all_listed_def live queues)
  have "broker_step (Get t i) out (broker_of c) (broker_of c')"
  proof (cases "backlog ?tr i")
    case None
    with bl have "fst (tq_get i ?tr) = Ended \<or> fst (tq_get i ?tr) = Blocked" "backlog (?g ?tr) = backlog ?tr" by auto
    with None broker_step.gone [of "broker_of c" t i] show ?thesis unfolding c' out by (simp add: broker_of_upd_same)
  next
    case (Some q)
    show ?thesis
    proof (cases q)
      case Nil
      with Some bl have "fst (tq_get i ?tr) = Blocked" "backlog (?g ?tr) = backlog ?tr" by auto
      with Some Nil broker_step.nothing_yet [of "broker_of c" t i] show ?thesis
        unfolding c' out by (simp add: broker_of_upd_same)
    next
      case (Cons f q')
      with Some bl have "fst (tq_get i ?tr) = Delivered f" and g: "backlog (?g ?tr) = (backlog ?tr)(i \<mapsto> q')" by auto
      with Some Cons broker_step.got [of "broker_of c" t i f q'] show ?thesis
        unfolding c' out broker_of_upd_one [of ?g c t i "Some q'", OF g] by simp
    qed
  qed
  with s c' show ?thesis by simp
qed

lemma internal_simulated:
  assumes "serving c" "internal e" "run_event cfg e c = (out, c')"
  shows "serving c' \<and> out = Done \<and> broker_of c' = broker_of c"
proof -
  have ok: "caster_ok c" and q: "cs_queue c \<noteq> None" using assms(1) by (simp_all add: serving_def)
  show ?thesis
  proof (cases e)
    case Quality
    show ?thesis
    proof (cases "quality_turn cfg c")
      case (Some d)
      with assms(3) Quality have d: "c' = d" "out = Done" by simp_all
      obtain m f rest where r: "cs_queue c = Some ((m, f) # rest)"
        using Some by (auto simp: quality_turn_def split: option.splits list.splits)
      with Some have "d = snd (process_quality cfg m f (c\<lparr>cs_queue := Some rest\<rparr>))" by (simp add: quality_turn_def)
      then have "cs_queue d \<noteq> None" "cs_transports d = cs_transports c" "cs_store d = cs_store c" "cs_next d = cs_next c"
        by (simp_all add: process_quality_def case_prod_beta)
      with same_traffic [OF assms(1) caster_ok_turn [OF ok Some]] d show ?thesis by simp
    qed (use assms(1,3) Quality in simp)
  next
    case (SetPosition m u x y)
    have "serving (set_rover_position m u x y c) \<and> broker_of (set_rover_position m u x y c) = broker_of c"
      by (rule same_traffic [OF assms(1) caster_ok_set_position [OF ok]]) (use q in \<open>simp_all add: set_rover_position_def\<close>)
    with SetPosition assms(3) show ?thesis by simp
  next
    case (ClearPosition m u)
    have "serving (clear_rover_position m u c) \<and> broker_of (clear_rover_position m u c) = broker_of c"
      by (rule same_traffic [OF assms(1) caster_ok_clear_position [OF ok]])
         (use q in \<open>auto simp: clear_rover_position_def Let_def split: option.split\<close>)
    with ClearPosition assms(3) show ?thesis by simp
  next
    case (CountReaped ns)
    have "serving (reap_count ns c) \<and> broker_of (reap_count ns c) = broker_of c"
      by (rule same_traffic [OF assms(1)]) (use q ok in \<open>auto simp: reap_count_def log_caster_def caster_oks\<close>)
    with CountReaped assms(3) show ?thesis by simp
  qed (use assms(2) in simp_all)
qed

lemma event_simulated:
  assumes "serving c" "run_event cfg e c = (out, c')"
  shows "serving c' \<and> broker_step e out (broker_of c) (broker_of c')"
proof (cases e)
  case (Register now m md)
  show ?thesis using assms(2) unfolding Register by (rule register_simulated [OF assms(1)])
next
  case (Close m)
  show ?thesis using assms(2) unfolding Close by (rule close_simulated [OF assms(1)])
next
  case (Unregister m)
  show ?thesis using assms(2) unfolding Unregister by (rule unregister_simulated [OF assms(1)])
next
  case (Publish now m f)
  show ?thesis using assms(2) unfolding Publish by (rule publish_simulated [OF assms(1)])
next
  case (Join m)
  show ?thesis using assms(2) unfolding Join by (rule join_simulated [OF assms(1)])
next
  case (Get t i)
  show ?thesis using assms(2) unfolding Get by (rule get_simulated [OF assms(1)])
next
  case (Leave t i)
  with assms(2) leave_simulated [OF assms(1), of t i] broker_step.left [of t i "broker_of c"] show ?thesis by auto
next
  case (Cancel t i)
  with assms(2) cancel_simulated [OF assms(1), of t i] broker_step.cancelled [of t i "broker_of c"] show ?thesis by auto
next
  case (ShutdownTask t i)
  with assms shutdown_task_simulated [OF assms(1), of t i] broker_step.shut_down [of t i "broker_of c"]
    broker_step.not_scheduled [of t i "broker_of c"]
  show ?thesis by (auto split: if_splits)
next
  case Quality
  then have "internal e" by simp
  with internal_simulated [OF assms(1) _ assms(2)] broker_step.inner [of e "broker_of c"] show ?thesis by simp
next
  case (SetPosition m u x y)
  then have "internal e" by simp
  with internal_simulated [OF assms(1) _ assms(2)] broker_step.inner [of e "broker_of c"] show ?thesis by simp
next
  case (ClearPosition m u)
  then have "internal e" by simp
  with internal_simulated [OF assms(1) _ assms(2)] broker_step.inner [of e "broker_of c"] show ?thesis by simp
next
  case (CountReaped ns)
  then have "internal e" by simp
  with internal_simulated [OF assms(1) _ assms(2)] broker_step.inner [of e "broker_of c"] show ?thesis by simp
qed

interpretation broker_sim: simulation "run_event cfg" broker_step broker_of serving for cfg
  by unfold_locales (rule event_simulated)

lemma serving_started: "serving (start (new_caster e n))"
  using caster_ok_start_stop(1) [OF caster_ok_new]
  by (simp add: serving_def) (simp add: start_def new_caster_def new_transport_def)

lemma broker_of_started: "broker_of (start (new_caster e n)) = empty_broker"
  by (auto simp: broker_of_def empty_broker_def start_def new_caster_def backlog_def new_transport_def fun_eq_iff)

section \<open>What a rover receives\<close>

definition received_at :: "nat \<Rightarrow> nat \<Rightarrow> event \<Rightarrow> answer \<Rightarrow> frame list" where
  "received_at t i e out =
     (case (e, out) of (Get t' i', Got (Delivered f)) \<Rightarrow> if t' = t \<and> i' = i then [f] else [] | _ \<Rightarrow> [])"

definition received :: "nat \<Rightarrow> nat \<Rightarrow> event list \<Rightarrow> answer list \<Rightarrow> frame list" where
  "received t i es outs = concat (map2 (received_at t i) es outs)"

definition published_at :: "string \<Rightarrow> event \<Rightarrow> frame list" where
  "published_at m e = (case e of Publish _ m' f \<Rightarrow> if m' = m then [f] else [] | _ \<Rightarrow> [])"

definition published_to :: "string \<Rightarrow> event list \<Rightarrow> frame list" where
  "published_to m es = concat (map (published_at m) es)"

definition session_of :: "nat \<Rightarrow> string \<Rightarrow> broker \<Rightarrow> bool" where
  "session_of t m B \<longleftrightarrow> t < bk_next B \<and> (\<forall>m'. bk_open B m' = Some t \<longrightarrow> m' = m)"

abbreviation waiting :: "broker \<Rightarrow> nat \<Rightarrow> nat \<Rightarrow> frame list" where
  "waiting B t i \<equiv> opt_default [] (bk_rovers B (t, i))"

lemma session_of_step: "broker_step e out B B' \<Longrightarrow> session_of t m B \<Longrightarrow> session_of t m B'"
  by (erule broker_step.cases) (simp_all add: session_of_def deliver_def drop_rover_def)

lemma received_at_simps [simp]:
  "received_at t i (Get t i) (Got (Delivered f)) = [f]"
  "(t', i') \<noteq> (t, i) \<Longrightarrow> received_at t i (Get t' i') r = []"
  "received_at t i (Get t' i') (Got Blocked) = []" "received_at t i (Get t' i') (Got Ended) = []"
  "received_at t i (Publish now m f) r = []"
  by (auto simp: received_at_def split: answer.split get_outcome.split)

lemma published_at_simps [simp]:
  "published_at m (Publish now m' f) = (if m' = m then [f] else [])" "published_at m (Get t i) = []"
  by (simp_all add: published_at_def)

text \<open>The other events hand over and add nothing; at most they drop the backlog.\<close>

fun traffic :: "event \<Rightarrow> bool" where
  "traffic (Publish _ _ _) = True"
| "traffic (Get _ _) = True"
| "traffic _ = False"

lemma quiet_at: "\<not> traffic e \<Longrightarrow> received_at t i e out = []" "\<not> traffic e \<Longrightarrow> published_at m e = []"
  by (cases e; simp add: received_at_def published_at_def)+

lemma quiet_waiting:
  "broker_step e out B B' \<Longrightarrow> \<not> traffic e \<Longrightarrow> waiting B' t i = waiting B t i \<or> waiting B' t i = []"
  by (erule broker_step.cases) (simp_all add: drop_rover_def)

lemma deliver_waiting:
  "waiting (deliver t' f B) t i =
     (if t' = t \<and> bk_rovers B (t, i) \<noteq> None then keep_last QUEUE_MAXSIZE (waiting B t i @ [f]) else waiting B t i)"
  by (auto simp: deliver_def)

lemma subseq_keep_last: "subseq (keep_last n xs) xs"
  by (metis keep_last_suffix list_emb_append2 subseq_order.order_refl)

lemma broker_step_order:
  assumes "broker_step e out B B'" "session_of t m B"
  shows "subseq (received_at t i e out @ waiting B' t i) (waiting B t i @ published_at m e)"
proof (cases "traffic e")
  case False
  with quiet_waiting [OF assms(1) False, of t i] show ?thesis by (auto simp: quiet_at)
next
  case True
  from assms(1) show ?thesis
  proof cases
    case (published m' t' now f)
    then have r: "received_at t i e out = []" by (simp add: received_at_def)
    show ?thesis
    proof (cases "t' = t \<and> bk_rovers B (t, i) \<noteq> None")
      case True
      then have "m' = m" using published assms(2) by (simp add: session_of_def)
      with published True show ?thesis by (simp add: r deliver_waiting subseq_keep_last)
    next
      case False
      then have "waiting B' t i = waiting B t i" unfolding published deliver_waiting by (rule if_not_P)
      then show ?thesis by (simp add: r prefix_imp_subseq)
    qed
  next
    case (no_session m' now f)
    then show ?thesis by (simp add: received_at_def prefix_imp_subseq)
  next
    case (got t' i' f q)
    then show ?thesis by (cases "(t', i') = (t, i)") auto
  next
    case (nothing_yet t' i')
    then show ?thesis by simp
  next
    case (gone t' i' r)
    then show ?thesis by auto
  qed (use True in \<open>auto elim: internal.elims\<close>)
qed

lemma broker_run_order:
  "spec_run broker_step es outs B B' \<Longrightarrow> session_of t m B \<Longrightarrow>
    subseq (received t i es outs @ waiting B' t i) (waiting B t i @ published_to m es)"
proof (induction rule: spec_run.induct)
  case (spec_Cons e out B B1 es outs B2)
  have "subseq (received t i es outs @ waiting B2 t i) (waiting B1 t i @ published_to m es)"
    using spec_Cons.IH session_of_step [OF spec_Cons.hyps(1) spec_Cons.prems] .
  then have "subseq (received_at t i e out @ received t i es outs @ waiting B2 t i)
      (received_at t i e out @ waiting B1 t i @ published_to m es)"
    by (rule list_emb_append_mono [OF subseq_order.order_refl])
  also have "subseq \<dots> ((waiting B t i @ published_at m e) @ published_to m es)"
    using list_emb_append_mono [OF broker_step_order [OF spec_Cons.hyps(1) spec_Cons.prems] subseq_order.order_refl, of i "published_to m es"]
    by simp
  finally show ?case by (simp add: received_def published_to_def)
qed (simp add: received_def published_to_def)

text \<open>While its session lasts and it is never more than the bound behind, a rover loses nothing.\<close>

definition keeps_session :: "string \<Rightarrow> nat \<Rightarrow> nat \<Rightarrow> event \<Rightarrow> bool" where
  "keeps_session m t i e \<longleftrightarrow> e \<notin> {Close m, Unregister m, Leave t i, Cancel t i, ShutdownTask t i}"

lemma broker_step_keeps:
  assumes "broker_step e out B B'" "session_of t m B" "bk_open B m = Some t" "bk_rovers B (t, i) = Some q" "keeps_session m t i e"
    and "length q + length (published_at m e) \<le> QUEUE_MAXSIZE + length (received_at t i e out)"
  shows "bk_open B' m = Some t \<and> (\<exists>q'. bk_rovers B' (t, i) = Some q' \<and> received_at t i e out @ q' = q @ published_at m e)"
  using assms(1)
proof cases
  case (published m' t' now f)
  show ?thesis
  proof (cases "m' = m")
    case True
    with published assms(3,4,6) show ?thesis by (simp add: deliver_def keep_last_short)
  next
    case False
    then have "t' \<noteq> t" using published assms(2) by (auto simp: session_of_def)
    with False published assms(3,4) show ?thesis by (simp add: deliver_def)
  qed
next
  case (got t' i' f q')
  with assms(3,4) show ?thesis by (cases "(t', i') = (t, i)") auto
next
  case inner
  then have "\<not> traffic e" by (cases e) simp_all
  with inner assms(3,4) show ?thesis by (simp add: quiet_at)
next
  case (no_session m' now f)
  with assms(3,4) show ?thesis by auto
qed (use assms(3-5) in \<open>auto simp: keeps_session_def drop_rover_def rovers_of_def received_at_def published_at_def\<close>)

lemma broker_run_keeps:
  "spec_run broker_step es outs B B' \<Longrightarrow> session_of t m B \<Longrightarrow> bk_open B m = Some t \<Longrightarrow> bk_rovers B (t, i) = Some q \<Longrightarrow>
    list_all (keeps_session m t i) es \<Longrightarrow>
    (\<And>k. length q + length (published_to m (take k es)) \<le> QUEUE_MAXSIZE + length (received t i (take k es) (take k outs))) \<Longrightarrow>
    \<exists>q'. bk_rovers B' (t, i) = Some q' \<and> received t i es outs @ q' = q @ published_to m es"
proof (induction arbitrary: q rule: spec_run.induct)
  case (spec_Cons e out B B1 es outs B2)
  have first: "length q + length (published_at m e) \<le> QUEUE_MAXSIZE + length (received_at t i e out)"
    using spec_Cons.prems(5) [of 1] by (simp add: published_to_def received_def)
  have keep: "keeps_session m t i e" "list_all (keeps_session m t i) es" using spec_Cons.prems(4) by simp_all
  obtain q1 where o: "bk_open B1 m = Some t" and q1: "bk_rovers B1 (t, i) = Some q1"
    and a: "received_at t i e out @ q1 = q @ published_at m e"
    using broker_step_keeps [OF spec_Cons.hyps(1) spec_Cons.prems(1-3) keep(1) first] by blast
  have "length q1 + length (published_to m (take k es)) \<le> QUEUE_MAXSIZE + length (received t i (take k es) (take k outs))" for k
    using spec_Cons.prems(5) [of "Suc k"] arg_cong [OF a, of length] by (simp add: published_to_def received_def)
  then obtain q2 where "bk_rovers B2 (t, i) = Some q2" "received t i es outs @ q2 = q1 @ published_to m es"
    using spec_Cons.IH [OF session_of_step [OF spec_Cons.hyps(1) spec_Cons.prems(1)] o q1 keep(2)] by blast
  moreover have "received t i (e # es) (out # outs) = received_at t i e out @ received t i es outs"
    "published_to m (e # es) = published_at m e @ published_to m es"
    by (simp_all add: received_def published_to_def)
  ultimately show ?case using a by (metis append.assoc)
qed (simp add: received_def published_to_def)

section \<open>Properties\<close>

text \<open>
  C4: the caster implements the broker. Whatever events a started caster goes through, in whatever
  order, its answers are answers the abstract broker gives: a mountpoint has at most one open session
  and a new opening is a new session, a publish reaches exactly the rovers of the mountpoint's own
  session and answers their number, each backlog is the newest \<open>QUEUE_MAXSIZE\<close> frames not yet read,
  reading takes the oldest, and one that has left, been cancelled or shut down never reads again.
\<close>
theorem caster_implements_broker:
  "case run_all (run_event cfg) es (start (new_caster e n)) of
     (outs, c) \<Rightarrow> spec_run broker_step es outs empty_broker (broker_of c)"
  using broker_sim.run_simulated [OF serving_started]
  by (auto simp: broker_of_started split: prod.split)

lemma join_opens:
  assumes "serving c" "run_event cfg (Join m) c = (Handle t i, c1)"
  shows "serving c1 \<and> broker_step (Join m) (Handle t i) (broker_of c) (broker_of c1) \<and>
    session_of t m (broker_of c1) \<and> bk_open (broker_of c1) m = Some t \<and> bk_rovers (broker_of c1) (t, i) = Some []"
proof -
  have s: "serving c1" "broker_step (Join m) (Handle t i) (broker_of c) (broker_of c1)"
    using join_simulated [OF assms] by simp_all
  from this(2) have o: "map_of (cs_transports c) m = Some t" "map_of (cs_transports c1) = map_of (cs_transports c)"
    "bk_rovers (broker_of c1) (t, i) = Some []" "cs_next c1 = cs_next c"
    by (cases; simp add: broker_of_def)+
  moreover have "session_of t m (broker_of c1)"
    using assms(1) o(1,2,4) caster_ok_distinct_transports [of c m t]
    by (auto simp: session_of_def serving_def caster_ok_def transports_ok_def)
  ultimately show ?thesis using s by simp
qed

lemma join_session:
  assumes "run_all (run_event cfg) es (start (new_caster e n)) = (outs, c)" "run_event cfg (Join m) c = (Handle t i, c1)"
  shows "serving c1 \<and> session_of t m (broker_of c1) \<and> bk_open (broker_of c1) m = Some t \<and> bk_rovers (broker_of c1) (t, i) = Some []"
proof -
  have "serving c" using broker_sim.run_simulated [OF serving_started assms(1)] by blast
  from join_opens [OF this assms(2)] show ?thesis by blast
qed

text \<open>
  C14: a rover receives its own mountpoint's frames only. After any history, from the moment a rover
  joins a mountpoint, whatever happens afterwards to this or any other mountpoint, the frames it
  reads are a subsequence of those published to that mountpoint after it joined: nothing older,
  nothing of another mountpoint, nothing twice and nothing out of order.
\<close>
theorem rover_receives_only_its_mountpoint:
  assumes "run_all (run_event cfg) es (start (new_caster e n)) = (outs, c)"
    and "run_event cfg (Join m) c = (Handle t i, c1)" "run_all (run_event cfg) es' c1 = (outs', c2)"
  shows "subseq (received t i es' outs') (published_to m es')"
proof -
  have j: "serving c1" "session_of t m (broker_of c1)" "bk_rovers (broker_of c1) (t, i) = Some []"
    using join_session [OF assms(1,2)] by blast+
  have "spec_run broker_step es' outs' (broker_of c1) (broker_of c2)"
    using broker_sim.run_simulated [OF j(1) assms(3)] by blast
  from broker_run_order [OF this j(2), of i] j(3)
  have "subseq (received t i es' outs' @ waiting (broker_of c2) t i) (published_to m es')" by simp
  then show ?thesis by (meson list_emb_append2 prefix_imp_subseq prefixI subseq_order.order_trans)
qed


section \<open>Witnesses\<close>

text \<open>One station registers, a rover joins, a frame is published and read.\<close>

definition demo_history :: "event list" where
  "demo_history = [Register 0 ''B'' no_metadata]"

definition demo_future :: "event list" where
  "demo_future = [Publish 1 ''B'' (0, [1, 2]), Get 0 0]"

lemma demo_join:
  "\<exists>outs c c1. run_all (run_event demo_config) demo_history (start (new_caster None 4)) = (outs, c) \<and>
     run_event demo_config (Join ''B'') c = (Handle 0 0, c1)"
proof -
  have "mountpoint_re ''B''" by code_simp
  then show ?thesis
    by (simp add: demo_history_def register_def start_def new_caster_def new_mountpoint_def post_init_def open_transport_def
        no_metadata_def present_and_not_def given_and_not_def Caster.subscribe_def metered_subscribe_def log_caster_def
        tq_subscribe_def new_transport_def Let_def)
qed

theorem rover_receives_only_its_mountpoint_witness:
  "\<exists>c1. subseq (received 0 0 demo_future (fst (run_all (run_event demo_config) demo_future c1))) [(0, [1, 2])]"
proof -
  obtain outs c c1 where "run_all (run_event demo_config) demo_history (start (new_caster None 4)) = (outs, c)"
    "run_event demo_config (Join ''B'') c = (Handle 0 0, c1)"
    using demo_join by blast
  from rover_receives_only_its_mountpoint [OF this prod.collapse [symmetric]]
  have "subseq (received 0 0 demo_future (fst (run_all (run_event demo_config) demo_future c1))) (published_to ''B'' demo_future)" .
  then show ?thesis by (auto simp: demo_future_def published_to_def published_at_def)
qed


end
