(* ===== verification/Here4.thy ===== *)
theory Here4
  imports Sourcetable
begin

text \<open>
  The base-station client \<open>tools/here4-base-caster.py\<close>: its commands to the receiver, the description
  it sends to the caster, and its state machine, whose three loops (connect, read, process) are
  split where they await. Serial ports, pyubx2 and the HTTP client are the environment of the steps;
  rendering the terminal display is not modelled. Numbers are exact reals.
\<close>

section \<open>Commands and description\<close>

text \<open>The keyword arguments handed to \<open>UBXMessage\<close>\<close>

type_synonym ubx_args = "(string \<times> int) list"

definition cfg_msg :: "int \<Rightarrow> int \<Rightarrow> int \<Rightarrow> ubx_args" where
  "cfg_msg msg_class msg_id rate =
     [(''msgClass'', msg_class), (''msgID'', msg_id), (''rateI2C'', 0), (''rateUART1'', rate),
      (''rateUART2'', 0), (''rateUSB'', rate), (''rateSPI'', 0)]"

definition cfg_tmode3_svin :: "int \<Rightarrow> int \<Rightarrow> ubx_args" where
  "cfg_tmode3_svin min_dur acc_limit =
     [(''version'', 0), (''rcvrMode'', 1), (''svinMinDur'', min_dur), (''svinAccLimit'', acc_limit)]"

definition cfg_tmode3_fixed :: "real \<Rightarrow> real \<Rightarrow> real \<Rightarrow> real \<Rightarrow> ubx_args" where
  "cfg_tmode3_fixed lat lon alt acc_mm =
     (let lat_i = py_trunc (lat * 10 ^ 7);
          lat_hp = round_half_even ((lat * 10 ^ 7 - real_of_int lat_i) * 100);
          lon_i = py_trunc (lon * 10 ^ 7);
          lon_hp = round_half_even ((lon * 10 ^ 7 - real_of_int lon_i) * 100);
          alt_cm = py_trunc (alt * 100);
          alt_hp = round_half_even ((alt * 100 - real_of_int alt_cm) * 10)
      in [(''version'', 0), (''rcvrMode'', 2), (''lla'', 1),
          (''ecefXOrLat'', lat_i), (''ecefYOrLon'', lon_i), (''ecefZOrAlt'', alt_cm),
          (''ecefXOrLatHP'', lat_hp), (''ecefYOrLonHP'', lon_hp), (''ecefZOrAltHP'', alt_hp),
          (''fixedPosAcc'', py_trunc (acc_mm * 10))])"

definition RTCM_FORMAT_DETAIL :: string where
  "RTCM_FORMAT_DETAIL = ''1005(1),1077(1),1087(1),1097(1),1127(1),1230(1)''"

definition RTCM_NAV_SYSTEM :: string where
  "RTCM_NAV_SYSTEM = ''GPS+GLO+GAL+BDS''"

definition RTCM_OUTPUT_IDS :: "int list" where
  "RTCM_OUTPUT_IDS = [0x05, 0x4D, 0x57, 0x61, 0x7F, 0xE6]"

definition build_ntrip_fields :: "string \<Rightarrow> string \<Rightarrow> pyfloat \<Rightarrow> pyfloat \<Rightarrow> string \<Rightarrow> string \<Rightarrow> string list" where
  "build_ntrip_fields mountpoint label lat lon country network =
     [mountpoint, label, ''RTCM 3.3'', RTCM_FORMAT_DETAIL, ''2'', RTCM_NAV_SYSTEM, network, country,
      format_2f lat, format_2f lon, ''0'', ''0'', ''Here4Base/1.0'', [], ''B'', ''N'', ''0'']"

definition build_ntrip_str :: "string \<Rightarrow> string \<Rightarrow> pyfloat \<Rightarrow> pyfloat \<Rightarrow> string \<Rightarrow> string \<Rightarrow> string" where
  "build_ntrip_str mountpoint label lat lon country network =
     py_join '';'' (build_ntrip_fields mountpoint label lat lon country network)"

record serial_port =
  sp_device :: string
  sp_vid :: "int option"
  sp_description :: "string option"
  sp_manufacturer :: "string option"

definition UBLOX_VID :: int where
  "UBLOX_VID = 0x1546"

definition find_ublox_ports :: "serial_port list \<Rightarrow> string list" where
  "find_ublox_ports comports =
     map sp_device (filter (\<lambda>p.
       sp_vid p = Some UBLOX_VID \<or>
       is_infix ''u-blox'' (py_lower (opt_default [] (sp_description p))) \<or>
       is_infix ''u-blox'' (py_lower (opt_default [] (sp_manufacturer p))) \<or>
       take (length ''/dev/ttyACM'') (sp_device p) = ''/dev/ttyACM'') comports)"

section \<open>Display helpers\<close>

text \<open>The indices into the eight block characters; a difference of zero is replaced by 1.\<close>

definition sparkline :: "nat \<Rightarrow> real list \<Rightarrow> int list" where
  "sparkline columns values =
     (if length values < 2 then []
      else
        (let max_len = max 10 (columns - 6);
             data = keep_last max_len values;
             lo = Min (set data); hi = Max (set data);
             span = (if hi - lo = 0 then 1 else hi - lo)
         in map (\<lambda>v. round_half_even ((v - lo) / span * 7)) data))"

definition cno_filled :: "int \<Rightarrow> int" where
  "cno_filled cno = round_half_even (of_int (max 0 (min cno 50)) / 50 * 10)"

section \<open>State\<close>

datatype here4_state = SEARCHING | CONNECTING | MONITORING | SURVEY_IN | FIXED

record nav_pvt =
  pv_fix_type :: int
  pv_fix_ok :: bool
  pv_lat :: pyfloat
  pv_lon :: pyfloat
  pv_h_msl :: real
  pv_g_speed :: real
  pv_h_acc :: real
  pv_v_acc :: real
  pv_pdop :: real
  pv_num_sv :: int
  pv_valid :: bool
  pv_date :: "nat \<times> nat \<times> nat"
  pv_time :: "nat \<times> nat \<times> nat"

record nav_svin =
  sv_active :: bool
  sv_valid :: bool
  sv_obs :: int
  sv_mean_acc :: int
  sv_dur :: int

record satellite =
  st_gnss_id :: int
  st_sv_id :: int
  st_cno :: int
  st_elev :: int
  st_azim :: int
  st_used :: bool

datatype ubx_message =
    NavPvt nav_pvt
  | NavSvin nav_svin
  | NavSat "satellite list"
  | RtcmMessage
  | OtherMessage

text \<open>Where the connect and the process loop are suspended; serial objects are numbers.\<close>

datatype connect_pc = CIdle | COpening | CConfiguring nat
datatype process_pc = PIdle | PKickoff nat

record gnss =
  gn_state :: here4_state
  gn_port :: string
  gn_fix_type :: int
  gn_fix_ok :: bool
  gn_lat :: pyfloat
  gn_lon :: pyfloat
  gn_alt :: real
  gn_speed :: real
  gn_h_acc :: real
  gn_v_acc :: real
  gn_pdop :: real
  gn_num_sv :: int
  gn_utc_time :: string
  gn_h_acc_history :: "real list"
  gn_satellites :: "satellite list"
  gn_svin_active :: bool
  gn_svin_valid :: bool
  gn_svin_dur :: int
  gn_svin_obs :: int
  gn_svin_acc :: real
  gn_rtcm_msgs :: nat
  gn_rtcm_bytes :: nat
  gn_serial :: "nat option"
  gn_readers :: "nat set"
  gn_next_serial :: nat
  gn_queue :: "(bytes \<times> ubx_message) list"
  gn_caster_queue :: "bytes list"
  gn_connect :: connect_pc
  gn_process :: process_pc

definition new_gnss :: gnss where
  "new_gnss = \<lparr>gn_state = SEARCHING, gn_port = ''N/A'', gn_fix_type = 0, gn_fix_ok = False, gn_lat = Fin 0, gn_lon = Fin 0,
     gn_alt = 0, gn_speed = 0, gn_h_acc = 0, gn_v_acc = 0, gn_pdop = 0, gn_num_sv = 0, gn_utc_time = ''N/A'',
     gn_h_acc_history = [], gn_satellites = [], gn_svin_active = False, gn_svin_valid = False, gn_svin_dur = 0,
     gn_svin_obs = 0, gn_svin_acc = 0, gn_rtcm_msgs = 0, gn_rtcm_bytes = 0, gn_serial = None, gn_readers = {},
     gn_next_serial = 0, gn_queue = [], gn_caster_queue = [], gn_connect = CIdle, gn_process = PIdle\<rparr>"

section \<open>The connect loop\<close>

definition connect_begin :: "serial_port list \<Rightarrow> gnss \<Rightarrow> gnss" where
  "connect_begin comports g =
     (if gn_connect g = CIdle \<and> gn_state g = SEARCHING
      then (case find_ublox_ports comports of
              [] \<Rightarrow> g
            | port_name # _ \<Rightarrow> g\<lparr>gn_state := CONNECTING, gn_port := port_name, gn_connect := COpening\<rparr>)
      else g)"

text \<open>The port has been opened, or opening it raised.\<close>

definition connect_opened :: "bool \<Rightarrow> gnss \<Rightarrow> gnss" where
  "connect_opened ok g =
     (if gn_connect g \<noteq> COpening then g
      else if ok
      then g\<lparr>gn_serial := Some (gn_next_serial g), gn_connect := CConfiguring (gn_next_serial g),
             gn_next_serial := Suc (gn_next_serial g)\<rparr>
      else g\<lparr>gn_state := SEARCHING, gn_connect := CIdle\<rparr>)"

text \<open>The three messages are enabled; the reader starts.\<close>

definition connect_configured :: "gnss \<Rightarrow> gnss" where
  "connect_configured g =
     (case gn_connect g of
        CConfiguring s \<Rightarrow> g\<lparr>gn_state := MONITORING, gn_readers := insert s (gn_readers g), gn_connect := CIdle\<rparr>
      | _ \<Rightarrow> g)"

section \<open>The read loop\<close>

definition QUEUE_SIZE :: nat where "QUEUE_SIZE = 512"
definition CASTER_QUEUE_SIZE :: nat where "CASTER_QUEUE_SIZE = 256"

text \<open>\<open>put_nowait\<close> with the exception ignored\<close>

definition put_or_drop :: "nat \<Rightarrow> 'a \<Rightarrow> 'a list \<Rightarrow> 'a list" where
  "put_or_drop n x q = (if length q < n then q @ [x] else q)"

definition read_message :: "nat \<Rightarrow> bytes \<times> ubx_message \<Rightarrow> gnss \<Rightarrow> gnss" where
  "read_message s msg g =
     (if s \<in> gn_readers g then g\<lparr>gn_queue := put_or_drop QUEUE_SIZE msg (gn_queue g)\<rparr> else g)"

definition read_error :: "nat \<Rightarrow> gnss \<Rightarrow> gnss" where
  "read_error s g =
     (if s \<in> gn_readers g
      then (let g = g\<lparr>gn_readers := gn_readers g - {s}\<rparr> in
            if gn_serial g = Some s then g\<lparr>gn_serial := None, gn_state := SEARCHING, gn_satellites := []\<rparr> else g)
      else g)"

section \<open>The process loop\<close>

definition H_ACC_HISTORY :: nat where "H_ACC_HISTORY = 120"

text \<open>\<open>f"{n:0kd}"\<close>\<close>

definition zero_pad :: "nat \<Rightarrow> nat \<Rightarrow> string" where
  "zero_pad k n = (let s = str_of_nat n in replicate (k - length s) (CHR ''0'') @ s)"

definition utc_text :: "nat \<times> nat \<times> nat \<Rightarrow> nat \<times> nat \<times> nat \<Rightarrow> string" where
  "utc_text date time =
     (case (date, time) of ((year, month, day), (hour, minute, second)) \<Rightarrow>
        zero_pad 4 year @ ''-'' @ zero_pad 2 month @ ''-'' @ zero_pad 2 day @ '' '' @
        zero_pad 2 hour @ '':'' @ zero_pad 2 minute @ '':'' @ zero_pad 2 second @ '' UTC'')"

text \<open>\<open>pv_valid\<close> is \<open>validDate and validTime\<close>.\<close>

definition process_pvt :: "nav_pvt \<Rightarrow> gnss \<Rightarrow> gnss" where
  "process_pvt p g =
     (let g = g\<lparr>gn_fix_type := pv_fix_type p, gn_fix_ok := pv_fix_ok p, gn_lat := pv_lat p, gn_lon := pv_lon p,
                gn_alt := pv_h_msl p / 1000, gn_speed := pv_g_speed p / 1000, gn_h_acc := pv_h_acc p / 1000,
                gn_v_acc := pv_v_acc p / 1000, gn_pdop := pv_pdop p, gn_num_sv := pv_num_sv p,
                gn_h_acc_history := keep_last H_ACC_HISTORY (gn_h_acc_history g @ [pv_h_acc p / 1000]),
                gn_utc_time := (if pv_valid p then utc_text (pv_date p) (pv_time p) else gn_utc_time g)\<rparr> in
      case gn_serial g of
        None \<Rightarrow> g
      | Some s \<Rightarrow>
          if gn_state g = MONITORING \<and> gn_fix_type g \<ge> 3 \<and> gn_fix_ok g then g\<lparr>gn_process := PKickoff s\<rparr> else g)"

definition process_svin :: "nav_svin \<Rightarrow> gnss \<Rightarrow> gnss" where
  "process_svin p g =
     (let g = g\<lparr>gn_svin_active := sv_active p, gn_svin_valid := sv_valid p, gn_svin_obs := sv_obs p,
                gn_svin_acc := of_int (sv_mean_acc p) / 10000, gn_svin_dur := sv_dur p\<rparr> in
      if gn_state g = SURVEY_IN \<and> gn_svin_valid g \<and> \<not> gn_svin_active g then g\<lparr>gn_state := FIXED\<rparr> else g)"

definition process_rtcm :: "bool \<Rightarrow> bytes \<Rightarrow> gnss \<Rightarrow> gnss" where
  "process_rtcm has_caster raw g =
     (if gn_state g = FIXED \<and> raw \<noteq> []
      then g\<lparr>gn_rtcm_bytes := gn_rtcm_bytes g + length raw, gn_rtcm_msgs := gn_rtcm_msgs g + 1,
             gn_caster_queue := (if has_caster then put_or_drop CASTER_QUEUE_SIZE raw (gn_caster_queue g) else gn_caster_queue g)\<rparr>
      else g)"

text \<open>One message, up to the first await.\<close>

definition process_message :: "bool \<Rightarrow> gnss \<Rightarrow> gnss" where
  "process_message has_caster g =
     (case (gn_process g, gn_queue g) of
        (PIdle, (raw, msg) # rest) \<Rightarrow>
          (let g = g\<lparr>gn_queue := rest\<rparr> in
           case msg of
             NavPvt p \<Rightarrow> process_pvt p g
           | NavSvin p \<Rightarrow> process_svin p g
           | NavSat sats \<Rightarrow> g\<lparr>gn_satellites := sats\<rparr>
           | RtcmMessage \<Rightarrow> process_rtcm has_caster raw g
           | OtherMessage \<Rightarrow> g)
      | _ \<Rightarrow> g)"

text \<open>All commands of the kick-off have been written; \<open>fixed\<close>: a surveyed position was given.\<close>

definition kickoff_done :: "bool \<Rightarrow> gnss \<Rightarrow> gnss" where
  "kickoff_done fixed g =
     (case gn_process g of
        PKickoff s \<Rightarrow> g\<lparr>gn_state := (if fixed then FIXED else SURVEY_IN), gn_process := PIdle\<rparr>
      | PIdle \<Rightarrow> g)"

definition kickoff_commands :: "(real \<times> real \<times> real \<times> real) option \<Rightarrow> ubx_args list" where
  "kickoff_commands fixed =
     map (\<lambda>i. cfg_msg 0xF5 i 1) RTCM_OUTPUT_IDS @
     [case fixed of Some (lat, lon, alt, acc) \<Rightarrow> cfg_tmode3_fixed lat lon alt acc | None \<Rightarrow> cfg_tmode3_svin 60 20000]"

section \<open>The caster loop\<close>

text \<open>The next frame the request body yields\<close>

definition frame_generator :: "gnss \<Rightarrow> (bytes \<times> gnss) option" where
  "frame_generator g = (case gn_caster_queue g of [] \<Rightarrow> None | f # q \<Rightarrow> Some (f, g\<lparr>gn_caster_queue := q\<rparr>))"

datatype link_state = Disconnected | LinkConnecting | Streaming | LinkError

record caster_link =
  lk_state :: link_state
  lk_error :: string
  lk_backoff :: real

definition new_link :: caster_link where
  "new_link = \<lparr>lk_state = Disconnected, lk_error = [], lk_backoff = 1\<rparr>"

definition link_begin :: "caster_link \<Rightarrow> caster_link" where
  "link_begin l = l\<lparr>lk_state := LinkConnecting, lk_error := []\<rparr>"

definition link_accepted :: "caster_link \<Rightarrow> caster_link" where
  "link_accepted l = l\<lparr>lk_state := Streaming, lk_backoff := 1\<rparr>"

text \<open>The seconds slept, and the link afterwards\<close>

definition link_failed :: "string \<Rightarrow> caster_link \<Rightarrow> real \<times> caster_link" where
  "link_failed exc l =
     (lk_backoff l, l\<lparr>lk_state := LinkError, lk_error := exc, lk_backoff := min (lk_backoff l * 2) 30\<rparr>)"

text \<open>
  One turn of the loop: the request is refused (a status other than 200 or an exception before it),
  accepted and lost later, or accepted and ended by the caster, after which there is no pause.
\<close>

datatype attempt = Refused string | AcceptedThenLost string | AcceptedThenEnded

definition attempt_turn :: "attempt \<Rightarrow> caster_link \<Rightarrow> real option \<times> caster_link" where
  "attempt_turn a l =
     (case a of
        Refused e \<Rightarrow> (case link_failed e (link_begin l) of (d, l') \<Rightarrow> (Some d, l'))
      | AcceptedThenLost e \<Rightarrow> (case link_failed e (link_accepted (link_begin l)) of (d, l') \<Rightarrow> (Some d, l'))
      | AcceptedThenEnded \<Rightarrow> (None, link_accepted (link_begin l)))"

fun attempt_delays :: "caster_link \<Rightarrow> attempt list \<Rightarrow> real option list" where
  "attempt_delays l [] = []"
| "attempt_delays l (a # as) = (case attempt_turn a l of (d, l') \<Rightarrow> d # attempt_delays l' as)"

section \<open>Steps\<close>

inductive here4_step :: "bool \<Rightarrow> bool \<Rightarrow> gnss \<Rightarrow> gnss \<Rightarrow> bool" for has_caster fixed where
  begin_connect: "here4_step has_caster fixed g (connect_begin comports g)"
| opened: "here4_step has_caster fixed g (connect_opened ok g)"
| configured: "here4_step has_caster fixed g (connect_configured g)"
| message: "here4_step has_caster fixed g (read_message s msg g)"
| reader_error: "here4_step has_caster fixed g (read_error s g)"
| process: "here4_step has_caster fixed g (process_message has_caster g)"
| kickoff: "here4_step has_caster fixed g (kickoff_done fixed g)"
| send: "frame_generator g = Some (f, g') \<Longrightarrow> here4_step has_caster fixed g g'"

inductive_cases here4_step_cases: "here4_step has_caster fixed g g'"

lemmas here4_defs = connect_begin_def connect_opened_def connect_configured_def read_message_def read_error_def
  process_message_def process_pvt_def process_svin_def process_rtcm_def kickoff_done_def frame_generator_def Let_def


section \<open>Invariants\<close>

definition gnss_ok :: "gnss \<Rightarrow> bool" where
  "gnss_ok g \<longleftrightarrow>
     (\<forall>s \<in> gn_readers g. gn_serial g = Some s) \<and>
     (gn_state g = SEARCHING \<longrightarrow> gn_readers g = {}) \<and>
     (gn_connect g \<noteq> CIdle \<longrightarrow> gn_readers g = {}) \<and>
     (\<forall>s. gn_connect g = CConfiguring s \<longrightarrow> gn_serial g = Some s) \<and>
     length (gn_queue g) \<le> QUEUE_SIZE \<and> length (gn_caster_queue g) \<le> CASTER_QUEUE_SIZE \<and>
     length (gn_h_acc_history g) \<le> H_ACC_HISTORY"

lemma put_or_drop_bound: "length q \<le> n \<Longrightarrow> length (put_or_drop n x q) \<le> n"
  by (simp add: put_or_drop_def)

lemma gnss_ok_process: "gnss_ok g \<Longrightarrow> gnss_ok (process_message has_caster g)"
  by (auto simp: gnss_ok_def here4_defs window put_or_drop_bound
      split: process_pc.split list.split ubx_message.split option.split)

lemma here4_step_ok: "gnss_ok g \<Longrightarrow> here4_step has_caster fixed g g' \<Longrightarrow> gnss_ok g'"
  by (erule here4_step_cases)
     (auto simp: gnss_ok_process,
      auto simp: gnss_ok_def here4_defs put_or_drop_bound split: list.splits option.splits connect_pc.splits process_pc.splits,
      (metis option.inject)+)

lemma new_gnss_ok: "gnss_ok new_gnss"
  by (simp add: gnss_ok_def new_gnss_def)

interpretation here4_sys: invariant_system "\<lambda>g. g = new_gnss" "here4_step has_caster fixed" gnss_ok for has_caster fixed
  by unfold_locales (auto simp: new_gnss_ok intro: here4_step_ok)

text \<open>
  C39: in every interleaving of its loops, the client reads from at most one port, the one it has
  open, never while it is searching or connecting, and its queues and its history stay bounded.
\<close>
theorem one_reader_on_the_open_port:
  assumes "reach (\<lambda>g. g = new_gnss) (here4_step has_caster fixed) g"
  shows "(gn_readers g = {} \<or> (\<exists>s. gn_readers g = {s} \<and> gn_serial g = Some s)) \<and>
     (gn_state g = SEARCHING \<longrightarrow> gn_readers g = {}) \<and>
     length (gn_queue g) \<le> QUEUE_SIZE \<and> length (gn_caster_queue g) \<le> CASTER_QUEUE_SIZE \<and>
     length (gn_h_acc_history g) \<le> H_ACC_HISTORY"
  using here4_sys.reach_inv [OF assms] by (auto simp: gnss_ok_def) (metis option.inject)

section \<open>A lost receiver during the kick-off\<close>

text \<open>No port is open, nobody reads, and the connect loop waits for a state that nothing sets.\<close>

definition wedged :: "gnss \<Rightarrow> bool" where
  "wedged g \<longleftrightarrow> gn_serial g = None \<and> gn_readers g = {} \<and> gn_connect g = CIdle \<and>
     gn_state g \<in> {MONITORING, SURVEY_IN, FIXED}"

lemma wedged_step: "wedged g \<Longrightarrow> here4_step has_caster fixed g g' \<Longrightarrow> wedged g'"
  by (erule here4_step_cases)
     (auto simp: wedged_def here4_defs split: list.splits option.splits connect_pc.splits process_pc.splits ubx_message.splits)

lemma wedged_forever: "(here4_step has_caster fixed)\<^sup>*\<^sup>* g g' \<Longrightarrow> wedged g \<Longrightarrow> wedged g'"
  by (induction rule: rtranclp_induct) (auto intro: wedged_step)

definition demo_port :: serial_port where
  "demo_port = \<lparr>sp_device = ''/dev/ttyACM0'', sp_vid = Some UBLOX_VID, sp_description = None, sp_manufacturer = None\<rparr>"

definition demo_fix :: nav_pvt where
  "demo_fix = \<lparr>pv_fix_type = 3, pv_fix_ok = True, pv_lat = Fin 51, pv_lon = Fin 4, pv_h_msl = 0, pv_g_speed = 0,
     pv_h_acc = 1000, pv_v_acc = 1000, pv_pdop = 1, pv_num_sv = 9, pv_valid = False, pv_date = (0, 0, 0), pv_time = (0, 0, 0)\<rparr>"

definition wedging_run :: "bool \<Rightarrow> bool \<Rightarrow> gnss" where
  "wedging_run has_caster fixed =
     kickoff_done fixed (read_error 0 (process_message has_caster (read_message 0 ([1], NavPvt demo_fix)
       (connect_configured (connect_opened True (connect_begin [demo_port] new_gnss))))))"

lemma wedging_run_wedged: "wedged (wedging_run has_caster fixed)"
  by (simp add: wedged_def wedging_run_def here4_defs new_gnss_def find_ublox_ports_def demo_port_def demo_fix_def
      put_or_drop_def QUEUE_SIZE_def)

lemma connected_reach:
  "reach (\<lambda>g. g = new_gnss) (here4_step has_caster fixed)
     (connect_configured (connect_opened True (connect_begin [demo_port] new_gnss)))"
  by (rule reach_step [rotated], rule here4_step.configured, rule reach_step [rotated], rule here4_step.opened,
      rule reach_step [rotated], rule here4_step.begin_connect, rule reach_start, rule refl)

theorem one_reader_on_the_open_port_witness:
  "\<exists>s. gn_readers (connect_configured (connect_opened True (connect_begin [demo_port] new_gnss))) = {s} \<and>
     gn_serial (connect_configured (connect_opened True (connect_begin [demo_port] new_gnss))) = Some s"
  using one_reader_on_the_open_port [OF connected_reach [of True False]]
  by (auto simp: here4_defs new_gnss_def find_ublox_ports_def demo_port_def)

text \<open>
  Losing the receiver while it is being configured is not survived. There is a run in which the
  reader fails between the first fix and the end of the kick-off: the reader asks for a reconnect,
  the process loop then overwrites the state, and from there no step opens a port or reads from one
  again.
\<close>
theorem lost_reader_during_kickoff_wedges:
  "\<exists>g. reach (\<lambda>g. g = new_gnss) (here4_step has_caster fixed) g \<and>
     (\<forall>g'. (here4_step has_caster fixed)\<^sup>*\<^sup>* g g' \<longrightarrow> gn_readers g' = {} \<and> gn_serial g' = None \<and> gn_state g' \<noteq> SEARCHING)"
proof (intro exI conjI)
  show "reach (\<lambda>g. g = new_gnss) (here4_step has_caster fixed) (wedging_run has_caster fixed)"
    unfolding wedging_run_def
    by (rule reach_step [rotated], rule here4_step.kickoff, rule reach_step [rotated], rule here4_step.reader_error,
        rule reach_step [rotated], rule here4_step.process, rule reach_step [rotated], rule here4_step.message,
        rule connected_reach)
  show "\<forall>g'. (here4_step has_caster fixed)\<^sup>*\<^sup>* (wedging_run has_caster fixed) g' \<longrightarrow>
      gn_readers g' = {} \<and> gn_serial g' = None \<and> gn_state g' \<noteq> SEARCHING"
  proof (intro allI impI)
    fix g'
    assume "(here4_step has_caster fixed)\<^sup>*\<^sup>* (wedging_run has_caster fixed) g'"
    from wedged_forever [OF this wedging_run_wedged]
    show "gn_readers g' = {} \<and> gn_serial g' = None \<and> gn_state g' \<noteq> SEARCHING"
      by (auto simp: wedged_def)
  qed
qed

theorem lost_reader_during_kickoff_wedges_witness:
  "\<exists>g. reach (\<lambda>g. g = new_gnss) (here4_step True False) g \<and> gn_serial g = None \<and> gn_state g \<noteq> SEARCHING"
  using lost_reader_during_kickoff_wedges [of True False] by blast

section \<open>Overload\<close>

text \<open>
  Under load the reader keeps the oldest messages, not the newest: with the process loop busy,
  the queue holds the first 512 messages, and everything read later is dropped.
\<close>
theorem reader_queue_keeps_oldest:
  assumes "s \<in> gn_readers g" "gn_queue g = []"
  shows "gn_queue (fold (read_message s) msgs g) = take QUEUE_SIZE msgs"
proof -
  have "gn_queue (fold (read_message s) msgs h) = take QUEUE_SIZE (q @ msgs)"
    if "s \<in> gn_readers h" "gn_queue h = q" "length q \<le> QUEUE_SIZE" for h q
    using that
  proof (induction msgs arbitrary: h q)
    case (Cons m msgs)
    from Cons.IH [of "read_message s m h" "put_or_drop QUEUE_SIZE m q"] Cons.prems
    show ?case by (auto simp: read_message_def put_or_drop_def take_Cons' split: if_splits)
  qed simp
  with assms show ?thesis by simp
qed

theorem reader_queue_keeps_oldest_witness:
  "gn_queue (fold (read_message 0) [([1], OtherMessage), ([2], RtcmMessage)] (new_gnss\<lparr>gn_readers := {0}\<rparr>)) =
     [([1], OtherMessage), ([2], RtcmMessage)]"
  using reader_queue_keeps_oldest [of 0 "new_gnss\<lparr>gn_readers := {0}\<rparr>" "[([1], OtherMessage), ([2], RtcmMessage)]"]
  by (simp add: new_gnss_def QUEUE_SIZE_def)

section \<open>Reading the description back\<close>

lemma ntrip_constants_ok [simp]:
  "field_ok RTCM_FORMAT_DETAIL" "field_ok RTCM_NAV_SYSTEM" "field_ok ''2''" "field_ok ''Here4Base/1.0''"
  "RTCM_FORMAT_DETAIL \<noteq> []" "RTCM_NAV_SYSTEM \<noteq> []"
  by (simp_all add: RTCM_FORMAT_DETAIL_def RTCM_NAV_SYSTEM_def field_ok_def stripped_def is_space_def)

lemma build_fields_back:
  assumes "list_all field_ok [mountpoint, label, country, network]"
    and "py_upper mountpoint \<noteq> ''STR''"
  shows "str_header_fields (build_ntrip_str mountpoint label (Fin x) (Fin y) country network) =
     build_ntrip_fields mountpoint label (Fin x) (Fin y) country network"
proof -
  let ?fs = "build_ntrip_fields mountpoint label (Fin x) (Fin y) country network"
  have ok: "list_all field_ok ?fs"
    using assms(1) by (simp add: build_ntrip_fields_def)
  have "split_on CHR '';'' (py_join '';'' ?fs) = ?fs"
    by (rule split_on_join) (use ok in \<open>auto simp: list_all_iff field_ok_def build_ntrip_fields_def simp del: format_2f.simps\<close>)
  moreover have "map py_strip ?fs = ?fs"
    using ok by (auto simp: list_all_iff field_ok_def intro!: map_idI)
  moreover have "hd ?fs = mountpoint"
    by (simp add: build_ntrip_fields_def)
  ultimately show ?thesis
    using assms(2) by (simp add: str_header_fields_def build_ntrip_str_def Let_def)
qed

lemma parse_str_fields_17:
  "parse_str_fields [a0, a1, a2, a3, a4, a5, a6, a7, a8, a9, a10, a11, a12, a13, a14, a15, a16] i =
   parse_str_fields [a0, a1, a2, a3, a4, a5, a6, a7, a8, a9, a10, a11, a12, a13, a14, a15, a16, []] i"
  by (simp add: parse_str_fields_def str_field_def int_field_def float_field_def Let_def)

lemma two_code [simp]: "py_int ''2'' = Some 2"
  by code_simp

lemma description_back:
  assumes "list_all field_ok [mountpoint, label, country, network]"
    and "mountpoint \<noteq> []" "py_upper mountpoint \<noteq> ''STR''"
    and "length country = 3" "py_upper country = country"
    and "\<bar>x\<bar> \<le> 90" "\<bar>y\<bar> \<le> 180"
  shows "parse_ntrip_str (Some (build_ntrip_str mountpoint label (Fin x) (Fin y) country network)) i =
     \<lparr>md_name = Some mountpoint, md_identifier = (if label = [] then None else Some label),
      md_format = Some ''RTCM 3.3'', md_format_detail = Some RTCM_FORMAT_DETAIL, md_carrier = Some 2,
      md_nav_system = Some RTCM_NAV_SYSTEM, md_network = Some network, md_country = Some country,
      md_latitude = Some (Fin (two_dp x)), md_longitude = Some (Fin (two_dp y)), md_nmea = Some False,
      md_mask = None, md_solution = Some 0, md_generator = Some ''Here4Base/1.0'', md_compression = Some [],
      md_auth = Some ''B'', md_fee = Some ''N'', md_bitrate = Some 0\<rparr>"
proof -
  have h: "build_ntrip_str mountpoint label (Fin x) (Fin y) country network \<noteq> []"
    using assms(2) by (simp add: build_ntrip_str_def build_ntrip_fields_def)
  have lat: "accept (\<lambda>f. Fin (- 90) \<le> f \<and> f \<le> Fin 90) (py_float (format_2f (Fin x))) (Some (Fin 0)) = Some (Fin (two_dp x))"
    using coordinate_back [of 90 "Some (Fin x)"] assms(6)
    by (simp add: shown_coordinate_def coordinate_text_def del: format_2f.simps)
  have lon: "accept (\<lambda>f. Fin (- 180) \<le> f \<and> f \<le> Fin 180) (py_float (format_2f (Fin y))) (Some (Fin 0)) = Some (Fin (two_dp y))"
    using coordinate_back [of 180 "Some (Fin y)"] assms(7)
    by (simp add: shown_coordinate_def coordinate_text_def del: format_2f.simps)
  have country: "country \<noteq> []" using assms(4) by auto
  from h have "parse_ntrip_str (Some (build_ntrip_str mountpoint label (Fin x) (Fin y) country network)) i =
      parse_str_fields (build_ntrip_fields mountpoint label (Fin x) (Fin y) country network) i"
    by (simp add: parse_ntrip_str_def build_fields_back [OF assms(1,3)])
  then show ?thesis
    unfolding build_ntrip_fields_def parse_str_fields_17 parse_str_fields_18 lat lon
    using assms(2,4,5) country by (simp add: accept_def given_text_def)
qed

text \<open>
  The description this client sends is the one the caster understands: parsing the header gives
  back every field, the coordinates to two decimals, with no NMEA, a single base and Basic
  authentication.
\<close>
theorem base_description_arrives:
  assumes "list_all field_ok [mountpoint, label, country, network]"
    and "mountpoint \<noteq> []" "py_upper mountpoint \<noteq> ''STR''"
    and "length country = 3" "py_upper country = country"
    and "\<bar>x\<bar> \<le> 90" "\<bar>y\<bar> \<le> 180"
  shows "parse_ntrip_str (Some (build_ntrip_str mountpoint label (Fin x) (Fin y) country network)) i =
     \<lparr>md_name = Some mountpoint, md_identifier = (if label = [] then None else Some label),
      md_format = Some ''RTCM 3.3'', md_format_detail = Some RTCM_FORMAT_DETAIL, md_carrier = Some 2,
      md_nav_system = Some RTCM_NAV_SYSTEM, md_network = Some network, md_country = Some country,
      md_latitude = Some (Fin (two_dp x)), md_longitude = Some (Fin (two_dp y)), md_nmea = Some False,
      md_mask = None, md_solution = Some 0, md_generator = Some ''Here4Base/1.0'', md_compression = Some [],
      md_auth = Some ''B'', md_fee = Some ''N'', md_bitrate = Some 0\<rparr>"
  using assms by (rule description_back)

theorem base_description_arrives_witness:
  "md_latitude (parse_ntrip_str (Some (build_ntrip_str ''HERE4'' ''Base 1'' (Fin 51.054) (Fin 3.72) ''BEL'' [])) []) =
     Some (Fin (two_dp 51.054))"
  by (subst base_description_arrives)
     (simp_all add: field_ok_def stripped_def is_space_def to_upper_def is_lower_def)

section \<open>The surveyed position\<close>

definition arg_of :: "string \<Rightarrow> ubx_args \<Rightarrow> real" where
  "arg_of k args = (case map_of args k of Some v \<Rightarrow> of_int v | None \<Rightarrow> 0)"

lemma hp_near: "\<bar>k * 100 + of_int (round_half_even ((v - k) * 100)) - v * 100\<bar> \<le> 1 / 2"
  using round_half_even_near [of "(v - k) * 100"] by (simp add: algebra_simps)

text \<open>
  The position put into the receiver: latitude and longitude, reassembled from the two integers
  of the command, are within half of a billionth of a degree of what was asked for, and the altitude
  within half a millimetre if its second integer is read as millimetres.
\<close>
theorem fixed_position_precision:
  "\<bar>arg_of ''ecefXOrLat'' (cfg_tmode3_fixed lat lon alt acc) * 100 + arg_of ''ecefXOrLatHP'' (cfg_tmode3_fixed lat lon alt acc)
     - lat * 10 ^ 9\<bar> \<le> 1 / 2 \<and>
   \<bar>arg_of ''ecefYOrLon'' (cfg_tmode3_fixed lat lon alt acc) * 100 + arg_of ''ecefYOrLonHP'' (cfg_tmode3_fixed lat lon alt acc)
     - lon * 10 ^ 9\<bar> \<le> 1 / 2 \<and>
   \<bar>arg_of ''ecefZOrAlt'' (cfg_tmode3_fixed lat lon alt acc) * 10 + arg_of ''ecefZOrAltHP'' (cfg_tmode3_fixed lat lon alt acc)
     - alt * 1000\<bar> \<le> 1 / 2"
  using hp_near [of "of_int (py_trunc (lat * 10 ^ 7))" "lat * 10 ^ 7"] hp_near [of "of_int (py_trunc (lon * 10 ^ 7))" "lon * 10 ^ 7"]
    round_half_even_near [of "(alt * 100 - of_int (py_trunc (alt * 100))) * 10"]
  by (simp add: arg_of_def cfg_tmode3_fixed_def Let_def algebra_simps)

text \<open>
  Read in the unit the comment and the receiver protocol give it, a tenth of a millimetre, the
  altitude of the command is wrong by nine tenths of the part below a centimetre: asking for 9 mm
  sends 0.9 mm.
\<close>
theorem fixed_altitude_unit:
  "arg_of ''ecefZOrAlt'' (cfg_tmode3_fixed lat lon (9 / 1000) acc) * 100 + arg_of ''ecefZOrAltHP'' (cfg_tmode3_fixed lat lon (9 / 1000) acc) = 9"
  by (simp add: arg_of_def cfg_tmode3_fixed_def py_trunc_def round_half_even_def Let_def)

section \<open>Retries and displays\<close>

lemma refused_turn: "attempt_turn (Refused e) l =
    (Some (lk_backoff l), l\<lparr>lk_state := LinkError, lk_error := e, lk_backoff := min (lk_backoff l * 2) 30\<rparr>)"
  by (simp add: attempt_turn_def link_failed_def link_begin_def)

lemma refused_delays:
  "lk_backoff l = min b 30 \<Longrightarrow> 0 \<le> b \<Longrightarrow>
     attempt_delays l (map Refused es) = map (\<lambda>i. Some (min (b * 2 ^ i) 30)) [0..<length es]"
proof (induction es arbitrary: l b)
  case (Cons e es)
  let ?l = "l\<lparr>lk_state := LinkError, lk_error := e, lk_backoff := min (lk_backoff l * 2) 30\<rparr>"
  have "lk_backoff ?l = min (b * 2) 30" using Cons.prems by (auto simp: min_def)
  from Cons.IH [OF this] Cons.prems show ?case
    by (simp add: refused_turn map_upt_Suc mult.assoc del: upt_Suc)
qed simp

lemma turn_backoff: "1 \<le> lk_backoff l \<Longrightarrow> lk_backoff l \<le> 30 \<Longrightarrow>
    1 \<le> lk_backoff (snd (attempt_turn a l)) \<and> lk_backoff (snd (attempt_turn a l)) \<le> 30 \<and>
    (fst (attempt_turn a l) = None \<or> (\<exists>d. fst (attempt_turn a l) = Some d \<and> 1 \<le> d \<and> d \<le> 30))"
  by (cases a) (auto simp: attempt_turn_def link_failed_def link_begin_def link_accepted_def min_def)

lemma delays_bounded: "1 \<le> lk_backoff l \<Longrightarrow> lk_backoff l \<le> 30 \<Longrightarrow> set (attempt_delays l as) \<subseteq> insert None (Some ` {1..30})"
proof (induction as arbitrary: l)
  case (Cons a as)
  obtain d l' where t: "attempt_turn a l = (d, l')" by fastforce
  with turn_backoff [OF Cons.prems, of a] Cons.IH [of l'] show ?case by auto
qed simp

text \<open>
  The caster is never hammered by refusals nor given up: consecutive refusals are spaced 1, 2, 4,
  8, 16, 30, 30, ... seconds, and in any history every pause lies between 1 and 30 seconds.
\<close>
theorem retries_back_off:
  "attempt_delays new_link (map Refused es) = map (\<lambda>i. Some (min (2 ^ i) 30)) [0..<length es] \<and>
   set (attempt_delays new_link as) \<subseteq> insert None (Some ` {1..30})"
  using refused_delays [of new_link 1 es] delays_bounded [of new_link as] by (simp add: new_link_def)

lemma glyph_range:
  assumes "v \<in> set d" "s = (if Max (set d) - Min (set d) = 0 then 1 else Max (set d) - Min (set d))"
  shows "round_half_even ((v - Min (set d)) / s * 7) \<in> {0..7}"
proof -
  from assms have b: "Min (set d) \<le> v" "v \<le> Max (set d)" by simp_all
  then have "0 < s" "v - Min (set d) \<le> s" using assms(2) by auto
  then have "0 \<le> (v - Min (set d)) / s * 7" "(v - Min (set d)) / s * 7 \<le> of_int 7"
    using b by (simp_all add: divide_le_eq)
  then have "0 \<le> round_half_even ((v - Min (set d)) / s * 7)" "round_half_even ((v - Min (set d)) / s * 7) \<le> 7"
    by (blast intro: round_half_even_nonneg round_half_even_le)+
  then show ?thesis by simp
qed

text \<open>
  The display never indexes outside its glyphs: every bar of the sparkline is one of the eight,
  and a signal bar fills between none and all of its ten cells, whatever the receiver reports.
\<close>
theorem display_in_range:
  "set (sparkline columns values) \<subseteq> {0..7} \<and> 0 \<le> cno_filled cno \<and> cno_filled cno \<le> 10"
proof -
  have "set (sparkline columns values) \<subseteq> {0..7}"
  proof (cases "length values < 2")
    case False
    then show ?thesis
      unfolding sparkline_def Let_def if_not_P [OF False] set_map image_subset_iff
      by (intro ballI glyph_range refl)
  qed (simp add: sparkline_def)
  moreover have "0 \<le> cno_filled cno" "cno_filled cno \<le> 10"
    unfolding cno_filled_def by (rule round_half_even_nonneg, simp, rule round_half_even_le, simp)
  ultimately show ?thesis by blast
qed

end
