(* ===== verification/Here4Link.thy ===== *)
theory Here4Link
  imports Here4 NtripPut
begin

text \<open>
  The base client's command line, the request its caster loop sends, its task list and the figures of
  its status panel, and the agreement of both ends: what the caster's PUT handler does with that
  request. Command-line texts are ASCII.
\<close>

section \<open>The command line\<close>

record arguments =
  ar_lat :: "pyfloat option"
  ar_lon :: "pyfloat option"
  ar_alt :: "pyfloat option"
  ar_fixed_acc :: pyfloat
  ar_caster_url :: "string option"
  ar_mountpoint :: "string option"
  ar_username :: "string option"
  ar_password :: "string option"
  ar_label :: "string option"
  ar_country :: "string option"
  ar_network :: "string option"

definition py_isalpha :: "string \<Rightarrow> bool" where
  "py_isalpha s = (s \<noteq> [] \<and> list_all (\<lambda>c. is_upper c \<or> is_lower c) s)"

definition py_isupper :: "string \<Rightarrow> bool" where
  "py_isupper s = (list_ex is_upper s \<and> \<not> list_ex is_lower s)"

text \<open>The message of \<open>parser.error\<close>, or None to go on\<close>

definition check_arguments :: "arguments \<Rightarrow> string option" where
  "check_arguments a =
     (let position = [ar_lat a, ar_lon a, ar_alt a] in
      if list_ex (\<lambda>x. x \<noteq> None) position \<and> \<not> list_all (\<lambda>x. x \<noteq> None) position
      then Some ''--lat, --lon and --alt must all be provided together''
      else if ar_caster_url a \<noteq> None \<and> \<not> list_all truthy [ar_mountpoint a, ar_username a, ar_password a]
      then Some ''--caster-url requires --mountpoint, --username and --password''
      else if (case ar_country a of
                 None \<Rightarrow> False
               | Some s \<Rightarrow> s \<noteq> [] \<and> \<not> (length s = 3 \<and> py_isalpha s \<and> py_isupper s))
      then Some ''--country must be an ISO 3166-1 alpha-3 code, e.g. BEL''
      else None)"

text \<open>\<open>value or ""\<close>\<close>

definition or_empty :: "string option \<Rightarrow> string" where
  "or_empty v = opt_default [] v"

section \<open>Tasks\<close>

datatype client_task = ConnectLoop | ProcessLoop | CasterLoop | CasterStatsLoop | DisplayLoop

definition client_tasks :: "arguments \<Rightarrow> client_task list" where
  "client_tasks a =
     DisplayLoop # [ConnectLoop, ProcessLoop] @ (if ar_caster_url a \<noteq> None then [CasterLoop, CasterStatsLoop] else [])"

text \<open>What one turn of \<open>caster_stats_loop\<close> copies into the panel's "Msgs sent" and "Bytes sent".\<close>

definition caster_stats :: "gnss \<Rightarrow> nat \<times> nat" where
  "caster_stats g = (gn_rtcm_msgs g, gn_rtcm_bytes g)"

section \<open>The request\<close>

record put_request =
  pr_url :: string
  pr_auth :: "string \<times> string"
  pr_headers :: "(string \<times> string) list"

text \<open>
  The body of \<open>caster_loop\<close> waits until the receiver has a fixed position. The arguments are those
  \<open>main\<close> passes; \<open>caster_url\<close>, \<open>mountpoint\<close>, \<open>username\<close> and \<open>password\<close> are set, by \<open>check_arguments\<close>.
\<close>

definition caster_request :: "arguments \<Rightarrow> gnss \<Rightarrow> put_request option" where
  "caster_request a g =
     (if gn_state g \<noteq> FIXED then None
      else (let mountpoint = or_empty (ar_mountpoint a);
                label = or_empty (ar_label a);
                ntrip_str = build_ntrip_str mountpoint (if label \<noteq> [] then label else mountpoint) (gn_lat g) (gn_lon g)
                  (or_empty (ar_country a)) (or_empty (ar_network a))
            in Some \<lparr>pr_url = rstrip_slash (or_empty (ar_caster_url a)) @ ''/'' @ mountpoint,
                     pr_auth = (or_empty (ar_username a), or_empty (ar_password a)),
                     pr_headers = [(''Ntrip-Version'', ''Ntrip/2.0''), (''Ntrip-STR'', ntrip_str),
                       (''Content-Type'', ''gnss/data''), (''User-Agent'', ''Here4Base/1.0'')]\<rparr>))"

text \<open>The same request as the caster's handler sees it, from some address.\<close>

definition as_received :: "string \<Rightarrow> put_request \<Rightarrow> request" where
  "as_received remote_addr pr =
     \<lparr>rq_headers = map_of (pr_headers pr), rq_credentials = Some (BasicAuth (fst (pr_auth pr)) (snd (pr_auth pr))),
      rq_remote_addr = remote_addr, rq_ip = None\<rparr>"

section \<open>Agreement\<close>

lemma accepted_arguments:
  assumes "check_arguments a = None" "ar_caster_url a = Some url"
  shows "\<exists>m u p. ar_mountpoint a = Some m \<and> ar_username a = Some u \<and> ar_password a = Some p \<and> m \<noteq> [] \<and> u \<noteq> [] \<and> p \<noteq> []"
    and "ar_country a = Some s \<Longrightarrow> s \<noteq> [] \<Longrightarrow> plain_country s"
proof -
  show "\<exists>m u p. ar_mountpoint a = Some m \<and> ar_username a = Some u \<and> ar_password a = Some p \<and> m \<noteq> [] \<and> u \<noteq> [] \<and> p \<noteq> []"
    using assms by (auto simp: check_arguments_def truthy_def split: if_splits option.splits)
  assume "ar_country a = Some s" "s \<noteq> []"
  with assms show "plain_country s"
    by (auto simp: check_arguments_def plain_country_def py_isalpha_def py_isupper_def list_all_iff list_ex_iff Let_def split: if_splits)
qed

lemma upper_text: "list_all is_upper s \<Longrightarrow> py_upper s = s"
  by (induction s) (auto simp: to_upper_def is_upper_def is_lower_def Let_def)

lemma described_entry:
  assumes "new_mountpoint name md now = Inr mp"
  shows "mp_name mp = name" "mp_identifier mp = md_identifier md" "mp_country mp = md_country md"
    "mp_latitude mp = md_latitude md" "mp_longitude mp = md_longitude md" "mp_format mp = md_format md"
    "mp_carrier mp = opt_default 0 (md_carrier md)" "mp_nmea mp = opt_default False (md_nmea md)"
    "mp_mask mp = opt_default (Fin 0) (md_mask md)" "mp_network mp = opt_default [] (md_network md)"
  using assms by (auto simp: new_mountpoint_def post_init_iff)

definition shown_label :: "arguments \<Rightarrow> string" where
  "shown_label a = (let label = or_empty (ar_label a) in if label \<noteq> [] then label else or_empty (ar_mountpoint a))"


text \<open>
  The status panel counts what the receiver produced, not what was sent: with the queue to the caster
  full, a correction is dropped and still counted as sent.
\<close>
theorem dropped_frame_counts_as_sent:
  assumes "gn_state g = FIXED" "raw \<noteq> []" "CASTER_QUEUE_SIZE \<le> length (gn_caster_queue g)"
  shows "gn_caster_queue (process_rtcm True raw g) = gn_caster_queue g \<and>
     caster_stats (process_rtcm True raw g) = (Suc (fst (caster_stats g)), snd (caster_stats g) + length raw)"
  using assms by (simp add: process_rtcm_def caster_stats_def put_or_drop_def)

section \<open>Witnesses\<close>

definition demo_arguments :: arguments where
  "demo_arguments =
     \<lparr>ar_lat = None, ar_lon = None, ar_alt = None, ar_fixed_acc = Fin 10, ar_caster_url = Some ''http://h:8000/'',
      ar_mountpoint = Some ''BASE-1'', ar_username = Some ''base'', ar_password = Some ''pw'', ar_label = None,
      ar_country = Some ''BEL'', ar_network = None\<rparr>"

definition demo_fixed :: gnss where
  "demo_fixed = new_gnss\<lparr>gn_state := FIXED, gn_lat := Fin 51, gn_lon := Fin 4\<rparr>"

definition empty_app :: "(string, real \<times> bucket) dict app" where
  "empty_app = \<lparr>ap_caster = new_caster None 8, ap_limiter = Some (new_limiter 5 1, [])\<rparr>"


theorem dropped_frame_counts_as_sent_witness:
  "caster_stats (process_rtcm True [1] (new_gnss\<lparr>gn_state := FIXED, gn_caster_queue := replicate 256 [0]\<rparr>)) = (1, 1)"
  using dropped_frame_counts_as_sent [of "new_gnss\<lparr>gn_state := FIXED, gn_caster_queue := replicate 256 [0]\<rparr>" "[1]"]
  by (simp add: CASTER_QUEUE_SIZE_def caster_stats_def) (simp add: new_gnss_def)

end
