(* ===== verification/Crypto.thy ===== *)
theory Crypto
  imports Base64
begin

text \<open>
  The cryptographic helpers \<open>crypto/hash.py\<close>, \<open>crypto/base.py\<close>, and the generating half of
  \<open>crypto/secrets.py\<close> with the HMAC of \<open>crypto/sign.py\<close>. The digest functions of \<open>hashlib\<close> are
  parameters (a hasher object is what has been fed to it); HMAC is built from SHA-256 as RFC 2104
  says. What the random source returns, and bcrypt, are arguments.
\<close>

section \<open>Hashing\<close>

datatype hash_algorithm = SHA256 | SHA512 | SHA3_256 | SHA3_512

type_synonym hashlib = "hash_algorithm \<Rightarrow> bytes \<Rightarrow> bytes"

record hasher =
  hs_algorithm :: hash_algorithm
  hs_fed :: bytes

definition new_hasher :: "hash_algorithm \<Rightarrow> hasher" where
  "new_hasher alg = \<lparr>hs_algorithm = alg, hs_fed = []\<rparr>"

definition hasher_update :: "bytes \<Rightarrow> hasher \<Rightarrow> hasher" where
  "hasher_update payload h = h\<lparr>hs_fed := hs_fed h @ payload\<rparr>"

definition hasher_digest :: "hashlib \<Rightarrow> hasher \<Rightarrow> bytes" where
  "hasher_digest lib h = lib (hs_algorithm h) (hs_fed h)"

definition hex_digit :: "nat \<Rightarrow> char" where
  "hex_digit n = char_of (if n < 10 then 48 + n else 87 + n)"

definition to_hex :: "bytes \<Rightarrow> string" where
  "to_hex bs = concat (map (\<lambda>b. [hex_digit (unat b div 16), hex_digit (unat b mod 16)]) bs)"

definition feed_digest :: "hashlib \<Rightarrow> hasher \<Rightarrow> bytes \<Rightarrow> bytes" where
  "feed_digest lib h payload = hasher_digest lib (hasher_update payload h)"

definition feed_hexdigest :: "hashlib \<Rightarrow> hasher \<Rightarrow> bytes \<Rightarrow> string" where
  "feed_hexdigest lib h payload = to_hex (hasher_digest lib (hasher_update payload h))"

text \<open>\<open>sha256\<close> and \<open>sha512\<close> give the hex text too when \<open>serialize\<close> is set.\<close>

definition sha256 :: "hashlib \<Rightarrow> bytes \<Rightarrow> bool \<Rightarrow> bytes \<times> string option" where
  "sha256 lib payload serialize =
     (let h = hasher_update payload (new_hasher SHA256) in
      if serialize then (hasher_digest lib h, Some (to_hex (hasher_digest lib h))) else (hasher_digest lib h, None))"

definition sha512 :: "hashlib \<Rightarrow> bytes \<Rightarrow> bool \<Rightarrow> bytes \<times> string option" where
  "sha512 lib payload serialize =
     (let h = hasher_update payload (new_hasher SHA512) in
      if serialize then (hasher_digest lib h, Some (to_hex (hasher_digest lib h))) else (hasher_digest lib h, None))"

definition hex_sha256 :: "hashlib \<Rightarrow> bytes \<Rightarrow> string" where
  "hex_sha256 lib payload = feed_hexdigest lib (new_hasher SHA256) payload"

definition hex_sha512 :: "hashlib \<Rightarrow> bytes \<Rightarrow> string" where
  "hex_sha512 lib payload = feed_hexdigest lib (new_hasher SHA512) payload"

definition sha3_256 :: "hashlib \<Rightarrow> bytes \<Rightarrow> bytes" where
  "sha3_256 lib payload = feed_digest lib (new_hasher SHA3_256) payload"

definition sha3_512 :: "hashlib \<Rightarrow> bytes \<Rightarrow> bytes" where
  "sha3_512 lib payload = feed_digest lib (new_hasher SHA3_512) payload"

definition salted_hash :: "hashlib \<Rightarrow> bytes \<Rightarrow> bytes" where
  "salted_hash lib payload = (let salt = fst (sha512 lib payload False) in sha3_256 lib (salt @ payload))"

section \<open>HMAC\<close>

unbundle bit_operations_syntax

definition hmac_block :: "hashlib \<Rightarrow> bytes \<Rightarrow> bytes" where
  "hmac_block lib key =
     (let k = (if 64 < length key then lib SHA256 key else key) in k @ replicate (64 - length k) 0)"

definition hmac_digest :: "hashlib \<Rightarrow> bytes \<Rightarrow> bytes \<Rightarrow> bytes" where
  "hmac_digest lib key msg =
     (let block = hmac_block lib key in
      lib SHA256 (map (\<lambda>b. b XOR 0x5C) block @ lib SHA256 (map (\<lambda>b. b XOR 0x36) block @ msg)))"

definition hmac_sha256 :: "hashlib \<Rightarrow> bytes \<Rightarrow> bytes \<Rightarrow> string" where
  "hmac_sha256 lib payload secret = to_hex (hmac_digest lib secret payload)"

text \<open>\<open>compare_digest\<close> of two ASCII texts.\<close>

definition verify_hmac_sha256 :: "hashlib \<Rightarrow> bytes \<Rightarrow> string \<Rightarrow> bytes \<Rightarrow> bool" where
  "verify_hmac_sha256 lib payload signature secret = (hmac_sha256 lib payload secret = signature)"

section \<open>Secrets\<close>

definition DEFAULT_SECRET_BYTES :: int where
  "DEFAULT_SECRET_BYTES = 20"

text \<open>\<open>raw\<close> are the bytes \<open>token_urlsafe\<close> drew.\<close>

definition b64generate :: "int \<Rightarrow> bytes \<Rightarrow> py_error + string" where
  "b64generate num_bytes raw = (if num_bytes \<le> 0 then Inl ValueError else Inr (b64url raw))"

definition generate :: "int \<Rightarrow> bytes \<Rightarrow> py_error + string" where
  "generate num_bytes raw = andThen (b64generate num_bytes raw) (\<lambda>s. Inr (take (nat num_bytes) s))"

definition generate_and_hash :: "(string \<Rightarrow> py_error + string) \<Rightarrow> int \<Rightarrow> bytes \<Rightarrow> py_error + string \<times> string" where
  "generate_and_hash hashpw num_bytes raw =
     (if num_bytes \<le> 0 then Inl ValueError
      else andThen (b64generate num_bytes raw) (\<lambda>secret. andThen (hashpw secret) (\<lambda>hashed. Inr (secret, hashed))))"

text \<open>\<open>str.zfill\<close> keeps a sign in front.\<close>

definition zfill :: "nat \<Rightarrow> string \<Rightarrow> string" where
  "zfill n s =
     (let zeros = replicate (n - length s) (CHR ''0'') in
      case s of
        c # r \<Rightarrow> if c = CHR ''+'' \<or> c = CHR ''-'' then c # zeros @ r else zeros @ s
      | [] \<Rightarrow> zeros)"

text \<open>\<open>r\<close> is what \<open>randbelow(10 ** digits)\<close> drew.\<close>

definition otp :: "int \<Rightarrow> nat \<Rightarrow> py_error + string" where
  "otp digits r = (if digits \<le> 0 then Inl ValueError else Inr (zfill (nat digits) (str_of_nat r)))"

section \<open>How much of the randomness a secret keeps\<close>

text \<open>The bytes that the first \<open>n\<close> sextets are made from, and those they determine\<close>

abbreviation touched :: "nat \<Rightarrow> nat" where "touched n \<equiv> (3 * n + 3) div 4"
abbreviation determined :: "nat \<Rightarrow> nat" where "determined n \<equiv> 3 * n div 4"

lemma sextet_counts:
  "touched (4 + n) = 3 + touched n" "determined (4 + n) = 3 + determined n"
  by presburger+

lemma below_four:
  obtains "n = 0" | "n = 1" | "n = 2" | "n = 3" | k where "n = 4 + (k::nat)"
proof -
  have "n < 4 \<or> n = 4 + (n - 4)" by linarith
  moreover have "n < 4 \<Longrightarrow> n = 0 \<or> n = 1 \<or> n = 2 \<or> n = 3" by linarith
  ultimately show ?thesis using that by blast
qed

lemma take_4: "take (4 + n) (a # b # c # d # xs) = a # b # c # d # take n xs"
  and take_3: "take (3 + n) (a # b # c # xs) = a # b # c # take n xs"
  by (simp_all add: numeral_eq_Suc)

lemma take_sextets: "take n (sextets xs) = take n (sextets (take (touched n) xs))"
proof (induction xs arbitrary: n rule: sextets.induct)
  case (1 a b c rest)
  show ?case
  proof (cases n rule: below_four)
    case (5 k)
    show ?thesis unfolding 5 sextet_counts sextets.simps(1) take_4 take_3 using "1.IH" [of k] by simp
  qed simp_all
next
  case (2 a b)
  show ?case
  proof (cases n rule: below_four)
    case (5 k)
    show ?thesis unfolding 5 sextet_counts by simp
  qed simp_all
next
  case (3 a)
  show ?case
  proof (cases n rule: below_four)
    case (5 k)
    show ?thesis unfolding 5 sextet_counts by simp
  qed simp_all
qed simp

text \<open>Reading sextets back\<close>

fun unsextets :: "nat list \<Rightarrow> nat list" where
  "unsextets (p # q # r # s # rest) = (p * 4 + q div 16) # (q mod 16 * 16 + r div 4) # (r mod 4 * 64 + s) # unsextets rest"
| "unsextets [p, q, r] = [p * 4 + q div 16, q mod 16 * 16 + r div 4]"
| "unsextets [p, q] = [p * 4 + q div 16]"
| "unsextets _ = []"

lemma halves_back:
  assumes "a < 256" "b < (256::nat)" "c < 256"
  shows "a div 4 * 4 + (a mod 4 * 16 + b div 16) div 16 = a"
    "(a mod 4 * 16 + b div 16) mod 16 * 16 + (b mod 16 * 4 + c div 64) div 4 = b"
    "(b mod 16 * 4 + c div 64) mod 4 * 64 + c mod 64 = c"
  using byte_halves(3,4) [OF assms(1,2)] byte_halves(6,7) [OF assms(1,2), of c] assms(3) by simp_all

lemma unsextets_take: "\<forall>x \<in> set xs. x < 256 \<Longrightarrow> unsextets (take n (sextets xs)) = take (determined n) xs"
proof (induction xs arbitrary: n rule: sextets.induct)
  case (1 a b c rest)
  then have r: "a < 256" "b < 256" "c < 256" "\<forall>x \<in> set rest. x < 256" by simp_all
  note h = halves_back [OF r(1-3)]
  show ?case
  proof (cases n rule: below_four)
    case (5 k)
    show ?thesis
      unfolding 5 sextet_counts sextets.simps(1) take_4 take_3 unsextets.simps(1) using "1.IH" [OF r(4), of k] h by simp
  qed (use h in simp_all)
next
  case (2 a b)
  then have r: "a < 256" "b < 256" by simp_all
  note h = halves_back [OF r, of 0]
  show ?case
  proof (cases n rule: below_four)
    case (5 k)
    show ?thesis unfolding 5 sextet_counts using h by simp
  qed (use h in simp_all)
next
  case (3 a)
  then have r: "a < 256" by simp
  note h = halves_back [OF r, of 0 0]
  show ?case
  proof (cases n rule: below_four)
    case (5 k)
    show ?thesis unfolding 5 sextet_counts using h by simp
  qed (use h in simp_all)
qed simp

lemma url_digits_inj:
  assumes "\<forall>d \<in> set ds. d < 64" "\<forall>d \<in> set es. d < 64" "map url_char ds = map url_char es"
  shows "ds = es"
proof -
  have undone: "map (\<lambda>c. the (url_digit c)) (map url_char xs) = xs" if xs: "\<forall>d \<in> set xs. d < 64" for xs
    using xs reads_url by (induction xs) (simp_all add: reads_def)
  show ?thesis using undone [OF assms(1)] undone [OF assms(2)] assms(3) by simp
qed

lemma enough_sextets: "k \<le> 4 * (k div 3) + (if k mod 3 = 0 then 0 else k mod 3 + (1::nat))"
proof -
  have "k = k div 3 * 3 + k mod 3" by simp
  then show ?thesis by (simp only: split: if_splits) linarith
qed

lemma url_prefix_same:
  "take n (b64url raw) = take n (b64url raw') \<longleftrightarrow> take n (sextets (map unat raw)) = take n (sextets (map unat raw'))"
proof
  assume "take n (b64url raw) = take n (b64url raw')"
  then have "map url_char (take n (sextets (map unat raw))) = map url_char (take n (sextets (map unat raw')))"
    by (simp add: b64url_digits take_map)
  then show "take n (sextets (map unat raw)) = take n (sextets (map unat raw'))"
    using sextets_small [OF unat_bytes] by (intro url_digits_inj) (auto dest: in_set_takeD)
qed (simp add: b64url_digits take_map)

lemma unat_prefix_same: "take k (map unat xs) = take k (map unat ys) \<longleftrightarrow> take k xs = take k (ys :: bytes)"
  by (simp add: take_map inj_map_eq_map inj_def word_unat_eq_iff)

definition url_safe :: "char \<Rightarrow> bool" where
  "url_safe c \<longleftrightarrow> is_upper c \<or> is_lower c \<or> is_digit c \<or> c = CHR ''-'' \<or> c = CHR ''_''"

lemma url_char_safe:
  assumes "n < 64"
  shows "url_safe (url_char n)"
proof -
  consider "n < 26" | "26 \<le> n" "n < 52" | "52 \<le> n" "n < 62" | "n = 62" | "n = 63" using assms by linarith
  then show ?thesis
    by cases (auto simp: url_safe_def url_char_def std_char_def is_upper_def is_lower_def is_digit_def Let_def)
qed

text \<open>
  A generated secret has exactly the requested length, is URL-safe, and keeps six random bits a
  character: two draws give the same secret whenever they agree on the first \<open>(3n + 3) div 4\<close> bytes,
  and draws that differ within the first \<open>3n div 4\<close> bytes give different ones. A request for no
  characters is refused.
\<close>
theorem secret_keeps_six_bits_per_character:
  assumes "0 < n" "length raw = nat n" "length raw' = nat n"
  shows "\<exists>s s'. generate n raw = Inr s \<and> generate n raw' = Inr s' \<and> length s = nat n \<and> list_all url_safe s \<and>
     (take (touched (nat n)) raw = take (touched (nat n)) raw' \<longrightarrow> s = s') \<and>
     (take (determined (nat n)) raw \<noteq> take (determined (nat n)) raw' \<longrightarrow> s \<noteq> s') \<and>
     generate (- n) raw = Inl ValueError"
proof -
  let ?S = "\<lambda>r. sextets (map unat r)"
  have g: "generate n r = Inr (take (nat n) (b64url r))" for r using assms(1) by (simp add: generate_def b64generate_def)
  have len: "length (take (nat n) (b64url raw)) = nat n"
  proof -
    have "nat n \<le> length (sextets (map unat raw))" unfolding length_sextets length_map assms(2) by (rule enough_sextets)
    then show ?thesis by (simp add: b64url_digits)
  qed
  have safe: "list_all url_safe (take (nat n) (b64url raw))"
    using sextets_small [OF unat_bytes, of raw] url_char_safe by (auto simp: list_all_iff b64url_digits take_map dest: in_set_takeD)
  have same: "take (nat n) (b64url raw) = take (nat n) (b64url raw')" if "take (touched (nat n)) raw = take (touched (nat n)) raw'"
    using that take_sextets [of "nat n" "map unat raw"] take_sextets [of "nat n" "map unat raw'"]
    unfolding url_prefix_same by (simp add: take_map)
  have differ: "take (determined (nat n)) raw = take (determined (nat n)) raw'" if "take (nat n) (b64url raw) = take (nat n) (b64url raw')"
    using that unsextets_take [OF unat_bytes, of "nat n" raw] unsextets_take [OF unat_bytes, of "nat n" raw']
    unfolding url_prefix_same unat_prefix_same [symmetric] by simp
  show ?thesis using g len safe same differ assms(1) by (auto simp: generate_def b64generate_def)
qed

section \<open>One-time passwords\<close>

lemma dec_digits_length: "n < 10 ^ k \<Longrightarrow> 0 < k \<Longrightarrow> length (dec_digits n) \<le> k"
proof (induction n arbitrary: k rule: dec_digits.induct)
  case (1 n)
  show ?case
  proof (cases "n < 10")
    case True
    then show ?thesis using "1.prems" by (subst dec_digits.simps) simp
  next
    case False
    then obtain j where k: "k = Suc j" "0 < j" using "1.prems" by (cases k; cases "k - 1") auto
    then have "n div 10 < 10 ^ j" using "1.prems"(1) by (simp add: less_mult_imp_div_less)
    with "1.IH" [OF False this k(2)] False k show ?thesis by (subst dec_digits.simps) simp
  qed
qed

lemma str_of_nat_no_sign: "\<exists>c r. str_of_nat n = c # r \<and> is_digit c"
proof -
  obtain d ds where "dec_digits n = d # ds" by (cases "dec_digits n") simp_all
  then show ?thesis using digits_ok_dec [of n] digit_char_facts(1) [of d] by (simp add: str_of_nat_def)
qed

lemma zfill_digits: "zfill k (str_of_nat n) = map digit_char (replicate (k - length (dec_digits n)) 0 @ dec_digits n)"
proof -
  obtain c r where c: "str_of_nat n = c # r" "is_digit c" using str_of_nat_no_sign by blast
  then have "c \<noteq> CHR ''+''" "c \<noteq> CHR ''-''" by auto
  moreover have "digit_char 0 = CHR ''0''" by code_simp
  moreover have "length (str_of_nat n) = length (dec_digits n)" by (simp add: str_of_nat_def)
  ultimately show ?thesis using c(1) by (simp add: zfill_def Let_def) (simp add: str_of_nat_def flip: c(1))
qed

lemma leading_zeros: "nat_of_digits (replicate k 0 @ ds) = nat_of_digits ds"
  by (induction k) (simp_all add: nat_of_digits_def)

text \<open>
  A one-time password has exactly the requested number of digits and denotes the number drawn,
  leading zeros included, so every one of the \<open>10 ^ digits\<close> codes is equally reachable; a request for
  no digits is refused.
\<close>
theorem otp_denotes_the_draw:
  assumes "r < 10 ^ nat digits"
  shows "if 0 < digits
     then \<exists>s. otp digits r = Inr s \<and> length s = nat digits \<and> list_all is_digit s \<and> py_int s = Some (int r)
     else otp digits r = Inl ValueError"
proof (cases "0 < digits")
  case True
  let ?ds = "replicate (nat digits - length (dec_digits r)) 0 @ dec_digits r"
  have ok: "digits_ok ?ds" using digits_ok_dec [of r] by auto
  have "length (dec_digits r) \<le> nat digits" using dec_digits_length [OF assms] True by simp
  then have "length ?ds = nat digits" by simp
  moreover have "list_all is_digit (map digit_char ?ds)"
    using ok digit_char_facts(1) by (auto simp: list_all_iff)
  moreover have "py_int (map digit_char ?ds) = Some (int r)"
    using py_sign_digits [OF ok, of "[]"] digit_run_print [OF ok] stripped_digits [OF ok]
    by (simp add: py_int_def leading_zeros del: map_append)
  ultimately show ?thesis using True by (simp add: otp_def zfill_digits del: map_append)
qed (simp add: otp_def)

section \<open>Witnesses\<close>

theorem secret_keeps_six_bits_per_character_witness:
  "generate 4 [1, 2, 3, 4] = generate 4 [1, 2, 3, 5] \<and> generate 4 [1, 2, 3, 4] \<noteq> generate 4 [1, 2, 4, 4]"
  using secret_keeps_six_bits_per_character [of 4 "[1, 2, 3, 4]" "[1, 2, 3, 5]"]
    secret_keeps_six_bits_per_character [of 4 "[1, 2, 3, 4]" "[1, 2, 4, 4]"]
  by auto

theorem otp_denotes_the_draw_witness: "\<exists>s. otp 6 42 = Inr s \<and> length s = 6 \<and> py_int s = Some 42"
  using otp_denotes_the_draw [of 42 6] by auto

end
