(* ===== verification/Service.thy ===== *)
theory Service
  imports NtripPut NtripRead Broker
begin

text \<open>
  The NTRIP service as a whole: any number of PUT and GET handlers, cut where they await, interleaved
  with each other and with the background tasks on one application state. What was published, by
  which station, is recorded beside the state; so is what each rover has been written. OPA serves the
  repository's policies at the times the handlers ask.
\<close>

section \<open>The rover's handler in two halves\<close>

definition stream_credentials :: "'k world \<Rightarrow> real \<Rightarrow> request \<Rightarrow> ('k, string \<times> string) handler" where
  "stream_credentials w now rq =
     then_do (require_that (header_is rq NTRIP_VERSION NTRIP_VERSION_2) BadRequest) (\<lambda>_. throttled_credentials w now rq)"

definition stream_verdict ::
  "'k world \<Rightarrow> opa_client option \<Rightarrow> request \<Rightarrow> string \<Rightarrow> string \<Rightarrow> string \<Rightarrow> ('k, string \<times> string \<times> json) handler" where
  "stream_verdict w opa rq m username password =
     then_do (on_caster (authenticate_rover opa (w_checkpw w) username password m)) (\<lambda>(allowed, limit).
     then_do (require_that allowed Unauthorized) (\<lambda>_.
     then_do (stream_checks w rq m) (\<lambda>_. return (m, username, limit))))"

lemma then_do_assoc: "then_do (then_do h k) l = then_do h (\<lambda>x. then_do (k x) l)"
  by (rule ext) (simp add: then_do_def split: prod.split sum.split)

lemma stream_halves:
  "stream_mountpoint w now rq m =
     then_do (stream_credentials w now rq) (\<lambda>(username, password). stream_verdict w (w_opa w) rq m username password)"
  by (simp add: stream_mountpoint_def stream_credentials_def stream_verdict_def then_do_assoc)

section \<open>Running handlers\<close>

text \<open>
  A PUT handler has asked OPA, or has registered and is about to send its early response, or reads
  chunks. A GET handler waits for OPA, has been granted a stream, or streams: with the password it
  was granted for, the number of frames published to its mountpoint when it subscribed, and what it
  has written.
\<close>

datatype put_pc =
    Asking request string string string json
  | Registered string string string
  | Sending string string string

datatype get_pc =
    Checking request string string string
  | Granted request string "string \<times> string \<times> json"
  | Streaming string nat "frame list" rover_session

record 'k service =
  sv_app :: "'k app"
  sv_puts :: "nat \<rightharpoonup> put_pc"
  sv_gets :: "nat \<rightharpoonup> get_pc"
  sv_sent :: "(string \<times> string \<times> string \<times> frame) list"

definition frames_for :: "string \<Rightarrow> (string \<times> string \<times> string \<times> frame) list \<Rightarrow> frame list" where
  "frames_for m sent = map (\<lambda>(_, _, _, f). f) (filter (\<lambda>(m', _). m' = m) sent)"

text \<open>What other tasks may do to the caster: quality worker, reaper, shutdown coroutines, the UDP egress.\<close>

fun background :: "event \<Rightarrow> bool" where
  "background (Register _ _ _) = False"
| "background (Close _) = False"
| "background (Publish _ _ _) = False"
| "background _ = True"

definition upd_app_caster :: "(caster \<Rightarrow> caster) \<Rightarrow> 'k app \<Rightarrow> 'k app" where
  "upd_app_caster f ap = ap\<lparr>ap_caster := f (ap_caster ap)\<rparr>"

inductive service_step :: "'k world \<Rightarrow> string \<Rightarrow> rfc3339 \<Rightarrow> json \<Rightarrow> 'k service \<Rightarrow> 'k service \<Rightarrow> bool"
  for w base parse data where
  put_asks: "put_guard w now rq (sv_app S) = (Inr (u, p), ap) \<Longrightarrow> sv_puts S h = None \<Longrightarrow>
    service_step w base parse data S (S\<lparr>sv_app := ap, sv_puts := (sv_puts S)(h \<mapsto> Asking rq m u p (put_question u m ap))\<rparr>)"
| put_turned_away: "put_guard w now rq (sv_app S) = (Inl e, ap) \<Longrightarrow> service_step w base parse data S (S\<lparr>sv_app := ap\<rparr>)"
| put_answered: "sv_puts S h = Some (Asking rq m u p q) \<Longrightarrow>
    put_verdict w now rq m p (query (policy_client base parse t data) ''corshub/base_station'' q) (sv_app S) = (r, ap) \<Longrightarrow>
    service_step w base parse data S
      (S\<lparr>sv_app := ap, sv_puts := (sv_puts S)(h := if r = Inr () then Some (Registered m u p) else None)\<rparr>)"
| put_responds: "sv_puts S h = Some (Registered m u p) \<Longrightarrow>
    service_step w base parse data S (S\<lparr>sv_puts := (sv_puts S)(h \<mapsto> Sending m u p)\<rparr>)"
| put_lost: "sv_puts S h = Some (Registered m u p) \<Longrightarrow>
    service_step w base parse data S (S\<lparr>sv_puts := (sv_puts S)(h := None)\<rparr>)"
| put_sends: "sv_puts S h = Some (Sending m u p) \<Longrightarrow> put_chunk w m (now, f) (sv_app S) = (r, ap) \<Longrightarrow>
    service_step w base parse data S
      (S\<lparr>sv_app := ap, sv_sent := sv_sent S @ (if snd f = [] then [] else [(m, u, p, f)])\<rparr>)"
| put_ends: "sv_puts S h = Some (Sending m u p) \<Longrightarrow> on_caster (close_mountpoint m) (sv_app S) = (r, ap) \<Longrightarrow>
    service_step w base parse data S (S\<lparr>sv_app := ap, sv_puts := (sv_puts S)(h := None)\<rparr>)"
| get_asks: "stream_credentials w now rq (sv_app S) = (Inr (u, p), ap) \<Longrightarrow> sv_gets S h = None \<Longrightarrow>
    service_step w base parse data S (S\<lparr>sv_app := ap, sv_gets := (sv_gets S)(h \<mapsto> Checking rq m u p)\<rparr>)"
| get_turned_away: "stream_credentials w now rq (sv_app S) = (Inl e, ap) \<Longrightarrow>
    service_step w base parse data S (S\<lparr>sv_app := ap\<rparr>)"
| get_granted: "sv_gets S h = Some (Checking rq m u p) \<Longrightarrow>
    stream_verdict w (Some (policy_client base parse t data)) rq m u p (sv_app S) = (Inr g, ap) \<Longrightarrow>
    service_step w base parse data S (S\<lparr>sv_app := ap, sv_gets := (sv_gets S)(h \<mapsto> Granted rq p g)\<rparr>)"
| get_refused: "sv_gets S h = Some (Checking rq m u p) \<Longrightarrow>
    stream_verdict w (Some (policy_client base parse t data)) rq m u p (sv_app S) = (Inl e, ap) \<Longrightarrow>
    service_step w base parse data S (S\<lparr>sv_app := ap, sv_gets := (sv_gets S)(h := None)\<rparr>)"
| stream_starts: "sv_gets S h = Some (Granted rq p g) \<Longrightarrow> stream_begin w now rq g (ap_caster (sv_app S)) = (Inr s, c) \<Longrightarrow>
    service_step w base parse data S
      (S\<lparr>sv_app := (sv_app S)\<lparr>ap_caster := c\<rparr>,
         sv_gets := (sv_gets S)(h \<mapsto> Streaming p (length (frames_for (rs_mountpoint s) (sv_sent S))) [] s)\<rparr>)"
| stream_fails: "sv_gets S h = Some (Granted rq p g) \<Longrightarrow> stream_begin w now rq g (ap_caster (sv_app S)) = (Inl e, c) \<Longrightarrow>
    service_step w base parse data S (S\<lparr>sv_app := (sv_app S)\<lparr>ap_caster := c\<rparr>, sv_gets := (sv_gets S)(h := None)\<rparr>)"
| stream_writes: "sv_gets S h = Some (Streaming p since written s) \<Longrightarrow> rs_sub s = Some (t, i) \<Longrightarrow>
    (case rs_deadline s of None \<Rightarrow> True | Some d \<Rightarrow> now < d) \<Longrightarrow>
    tq_get i (cs_store (ap_caster (sv_app S)) t) = (Delivered f, tr) \<Longrightarrow>
    service_step w base parse data S
      (S\<lparr>sv_app := upd_app_caster (upd_transport t (\<lambda>_. tr)) (sv_app S),
         sv_gets := (sv_gets S)(h \<mapsto> Streaming p since (written @ [f]) s)\<rparr>)"
| stream_hears: "sv_gets S h = Some (Streaming p since written s) \<Longrightarrow> stream_body w chunk s (ap_caster (sv_app S)) = (s', c) \<Longrightarrow>
    service_step w base parse data S
      (S\<lparr>sv_app := (sv_app S)\<lparr>ap_caster := c\<rparr>, sv_gets := (sv_gets S)(h \<mapsto> Streaming p since written s')\<rparr>)"
| stream_ends: "sv_gets S h = Some (Streaming p since written s) \<Longrightarrow>
    service_step w base parse data S
      (S\<lparr>sv_app := upd_app_caster (stream_end s) (sv_app S), sv_gets := (sv_gets S)(h := None)\<rparr>)"
| others: "background e \<Longrightarrow>
    service_step w base parse data S
      (S\<lparr>sv_app := upd_app_caster (\<lambda>c. snd (run_event (w_quality w) e c)) (sv_app S)\<rparr>)"

inductive_cases service_step_cases: "service_step w base parse data S S'"

text \<open>A started caster, any limiter, no requests yet\<close>

definition fresh_service :: "'k service \<Rightarrow> bool" where
  "fresh_service S \<longleftrightarrow> (\<exists>e n. ap_caster (sv_app S) = start (new_caster e n)) \<and>
     sv_puts S = Map.empty \<and> sv_gets S = Map.empty \<and> sv_sent S = []"

section \<open>Quiet steps\<close>

text \<open>Steps of a handler that the broker does not see\<close>

definition quiet :: "caster \<Rightarrow> caster \<Rightarrow> bool" where
  "quiet c c' \<longleftrightarrow> (serving c \<longrightarrow> serving c' \<and> broker_of c' = broker_of c)"

lemma quiet_refl [simp]: "quiet c c"
  by (simp add: quiet_def)

lemma quiet_trans: "quiet a b \<Longrightarrow> quiet b c \<Longrightarrow> quiet a c"
  by (simp add: quiet_def)

lemma quiet_same: "same_registry c c' \<Longrightarrow> (caster_ok c \<Longrightarrow> caster_ok c') \<Longrightarrow> quiet c c'"
  by (auto simp: quiet_def same_registry_def serving_def broker_of_def)

lemma quiet_verdicts:
  "quiet c (snd (base_station_verdict checkpw pw result c))" "quiet c (snd (rover_verdict checkpw pw result c))"
  by (rule quiet_same [OF verdict_keeps_registry(1) verdict_keeps_ok(1)] quiet_same [OF verdict_keeps_registry(2) verdict_keeps_ok(2)]; assumption)+

lemma quiet_event: "internal e \<Longrightarrow> quiet c (snd (run_event cfg e c))"
  using internal_simulated [of c e cfg "fst (run_event cfg e c)" "snd (run_event cfg e c)"] by (simp add: quiet_def)

lemma quiet_position: "quiet c (set_rover_position m u x y c)" "quiet c (clear_rover_position m u c)"
  using quiet_event [of "SetPosition m u x y" c] quiet_event [of "ClearPosition m u" c] by simp_all

lemma quiet_log: "quiet c (log_caster ops c)"
proof (rule quiet_same)
  show "same_registry c (log_caster ops c)" by (simp add: same_registry_def log_caster_def)
qed simp

lemma quiet_gga_line: "quiet c (gga_line nmea m u line c)"
  by (auto simp: gga_line_def intro: quiet_trans [OF quiet_position(1) quiet_log] split: option.split)

lemma quiet_fold: "(\<And>x c. quiet c (g x c)) \<Longrightarrow> quiet c (fold g xs c)"
  by (induction xs arbitrary: c) (auto intro: quiet_trans)

lemma quiet_gga_chunk: "quiet (snd st) (snd (gga_chunk (gga_line nmea m u) chunk st))"
  by (simp add: gga_chunk_def gga_drain_lines quiet_fold quiet_gga_line split: prod.split)

lemma quiet_seed: "quiet c (seed_position w rq m u c)"
  by (auto simp: seed_position_def quiet_position split: option.split)

lemma put_guard_caster: "ap_caster (snd (put_guard w now rq ap)) = ap_caster ap"
  by (simp add: put_guard_cases throttled_credentials_cases split: option.split)

lemma stream_credentials_caster: "ap_caster (snd (stream_credentials w now rq ap)) = ap_caster ap"
  by (auto simp: stream_credentials_def then_do_def step_simps throttled_credentials_cases split: option.split)

lemma nmea_gate_state: "snd (nmea_gate w rq mp ap) = ap"
  by (auto simp: nmea_gate_def step_simps split: option.split sum.split)

lemma stream_checks_state: "snd (stream_checks w rq m ap) = ap"
  by (auto simp: stream_checks_def step_simps nmea_gate_state split: option.split)

lemma stream_entry_state:
  "snd (then_do (require_that ok e) (\<lambda>_. then_do (stream_checks w rq m) (\<lambda>_. return g)) ap) = ap"
  using stream_checks_state [of w rq m ap] by (auto simp: then_do_def step_simps split: prod.split sum.split)

lemma stream_verdict_quiet: "quiet (ap_caster ap) (ap_caster (snd (stream_verdict w opa rq m u p ap)))"
proof -
  have "quiet (ap_caster ap) (snd (authenticate_rover opa (w_checkpw w) u p m (ap_caster ap)))"
    by (simp add: authenticate_rover_def quiet_verdicts split: option.split)
  then show ?thesis
    by (auto simp: stream_verdict_def then_do_def [of "on_caster _"] on_caster_def stream_entry_state split: prod.split sum.split)
qed

lemma subseq_append_left: "subseq (xs @ ys) zs \<Longrightarrow> subseq xs zs"
  by (rule subseq_order.order_trans [of _ "xs @ ys"]) (simp add: prefix_imp_subseq)

section \<open>The invariant\<close>

definition station_entitled :: "rfc3339 \<Rightarrow> json \<Rightarrow> bcrypt \<Rightarrow> string \<Rightarrow> string \<Rightarrow> string \<Rightarrow> bool" where
  "station_entitled parse data checkpw m u p \<longleftrightarrow> (\<exists>t. base_station_decision parse t data checkpw u p m False)"

definition rover_entitled :: "rfc3339 \<Rightarrow> json \<Rightarrow> bcrypt \<Rightarrow> string \<Rightarrow> string \<Rightarrow> string \<Rightarrow> bool" where
  "rover_entitled parse data checkpw m u p \<longleftrightarrow> (\<exists>t limit. rover_decision parse t data checkpw u p m = (True, limit))"

text \<open>What a rover has been written, followed by what waits for it, was published after it subscribed.\<close>

definition stream_ok :: "broker \<Rightarrow> (string \<times> string \<times> string \<times> frame) list \<Rightarrow> nat \<Rightarrow> frame list \<Rightarrow> rover_session \<Rightarrow> bool" where
  "stream_ok B sent since written s \<longleftrightarrow>
     since \<le> length (frames_for (rs_mountpoint s) sent) \<and>
     (case rs_sub s of
        None \<Rightarrow> written = []
      | Some (t, i) \<Rightarrow> session_of t (rs_mountpoint s) B \<and>
          subseq (written @ waiting B t i) (drop since (frames_for (rs_mountpoint s) sent)))"

fun put_pc_ok :: "rfc3339 \<Rightarrow> json \<Rightarrow> bcrypt \<Rightarrow> put_pc \<Rightarrow> bool" where
  "put_pc_ok parse data checkpw (Asking rq m u p q) = (\<exists>c. q = base_station_input u m c)"
| "put_pc_ok parse data checkpw (Registered m u p) = station_entitled parse data checkpw m u p"
| "put_pc_ok parse data checkpw (Sending m u p) = station_entitled parse data checkpw m u p"

fun get_pc_ok :: "rfc3339 \<Rightarrow> json \<Rightarrow> bcrypt \<Rightarrow> broker \<Rightarrow> (string \<times> string \<times> string \<times> frame) list \<Rightarrow> get_pc \<Rightarrow> bool" where
  "get_pc_ok parse data checkpw B sent (Checking rq m u p) = True"
| "get_pc_ok parse data checkpw B sent (Granted rq p (m, u, limit)) = rover_entitled parse data checkpw m u p"
| "get_pc_ok parse data checkpw B sent (Streaming p since written s) =
     (rover_entitled parse data checkpw (rs_mountpoint s) (rs_user s) p \<and> stream_ok B sent since written s)"

abbreviation caster_of :: "'k service \<Rightarrow> caster" where "caster_of S \<equiv> ap_caster (sv_app S)"

definition service_ok :: "rfc3339 \<Rightarrow> json \<Rightarrow> bcrypt \<Rightarrow> 'k service \<Rightarrow> bool" where
  "service_ok parse data checkpw S \<longleftrightarrow> serving (caster_of S) \<and>
     (\<forall>h x. sv_puts S h = Some x \<longrightarrow> put_pc_ok parse data checkpw x) \<and>
     (\<forall>h x. sv_gets S h = Some x \<longrightarrow> get_pc_ok parse data checkpw (broker_of (caster_of S)) (sv_sent S) x) \<and>
     (\<forall>(m, u, p, f) \<in> set (sv_sent S). station_entitled parse data checkpw m u p)"

lemma service_okD:
  assumes "service_ok parse data checkpw S"
  shows "serving (caster_of S)" "sv_puts S h = Some x \<Longrightarrow> put_pc_ok parse data checkpw x"
    "sv_gets S h = Some y \<Longrightarrow> get_pc_ok parse data checkpw (broker_of (caster_of S)) (sv_sent S) y"
    "(m, u, p, f) \<in> set (sv_sent S) \<Longrightarrow> station_entitled parse data checkpw m u p"
  using assms by (auto simp: service_ok_def)

lemma frames_for_simps [simp]:
  "frames_for m [] = []" "frames_for m (a @ b) = frames_for m a @ frames_for m b"
  "frames_for m [(m', u, p, f)] = (if m' = m then [f] else [])"
  by (simp_all add: frames_for_def)

lemma stream_ok_step:
  assumes "broker_step e out B B'" "\<And>m. frames_for m sent' = frames_for m sent @ published_at m e" "stream_ok B sent since written s"
  shows "stream_ok B' sent' since written s"
proof (cases "rs_sub s")
  case (Some ti)
  obtain t i where ti: "ti = (t, i)" by force
  let ?m = "rs_mountpoint s"
  from assms(3) Some ti have s: "session_of t ?m B" "since \<le> length (frames_for ?m sent)"
    and w: "subseq (written @ waiting B t i) (drop since (frames_for ?m sent))"
    by (simp_all add: stream_ok_def)
  have "subseq (written @ waiting B' t i) (written @ received_at t i e out @ waiting B' t i)"
    by (rule list_emb_append_mono [OF subseq_order.order_refl list_emb_append2 [OF subseq_order.order_refl]])
  also have "subseq \<dots> (written @ waiting B t i @ published_at ?m e)"
    by (rule list_emb_append_mono [OF subseq_order.order_refl broker_step_order [OF assms(1) s(1)]])
  also have "subseq \<dots> (drop since (frames_for ?m sent) @ published_at ?m e)"
    using list_emb_append_mono [OF w subseq_order.order_refl] by simp
  finally show ?thesis
    using s Some ti session_of_step [OF assms(1) s(1)] by (simp add: stream_ok_def assms(2))
qed (use assms in \<open>simp add: stream_ok_def\<close>)

lemma get_pc_step:
  assumes "broker_step e out B B'" "\<And>m. frames_for m sent' = frames_for m sent @ published_at m e"
  shows "get_pc_ok parse data checkpw B sent x \<Longrightarrow> get_pc_ok parse data checkpw B' sent' x"
  using stream_ok_step [OF assms] by (cases x) auto

text \<open>A step of the caster, a step the broker does not see, a handler's own move\<close>

lemma service_event:
  assumes "service_ok parse data checkpw S" "run_event cfg e (caster_of S) = (out, ap_caster ap)"
    and "\<And>m. frames_for m sent' = frames_for m (sv_sent S) @ published_at m e"
    and "\<forall>(m, u, p, f) \<in> set sent'. station_entitled parse data checkpw m u p"
  shows "service_ok parse data checkpw (S\<lparr>sv_app := ap, sv_sent := sent'\<rparr>)"
proof -
  have "serving (caster_of S)" using assms(1) by (simp add: service_ok_def)
  from event_simulated [OF this assms(2)]
  have "serving (ap_caster ap)" "broker_step e out (broker_of (caster_of S)) (broker_of (ap_caster ap))" by simp_all
  with assms(1,4) get_pc_step [OF this(2) assms(3)] show ?thesis by (simp add: service_ok_def)
qed

lemma service_silent_event:
  assumes "service_ok parse data checkpw S" "run_event cfg e (caster_of S) = (out, ap_caster ap)" "\<And>m. published_at m e = []"
  shows "service_ok parse data checkpw (S\<lparr>sv_app := ap\<rparr>)"
  using service_event [OF assms(1,2), of "sv_sent S"] assms(1,3) by (simp add: service_ok_def)

lemma service_quiet:
  "service_ok parse data checkpw S \<Longrightarrow> quiet (caster_of S) (ap_caster ap) \<Longrightarrow> service_ok parse data checkpw (S\<lparr>sv_app := ap\<rparr>)"
  by (simp add: service_ok_def quiet_def)

lemma service_puts:
  "service_ok parse data checkpw S \<Longrightarrow> put_pc_ok parse data checkpw x \<Longrightarrow>
     service_ok parse data checkpw (S\<lparr>sv_puts := (sv_puts S)(h \<mapsto> x)\<rparr>)"
  "service_ok parse data checkpw S \<Longrightarrow> service_ok parse data checkpw (S\<lparr>sv_puts := (sv_puts S)(h := None)\<rparr>)"
  by (auto simp: service_ok_def)

lemma service_gets:
  "service_ok parse data checkpw S \<Longrightarrow> get_pc_ok parse data checkpw (broker_of (caster_of S)) (sv_sent S) x \<Longrightarrow>
     service_ok parse data checkpw (S\<lparr>sv_gets := (sv_gets S)(h \<mapsto> x)\<rparr>)"
  "service_ok parse data checkpw S \<Longrightarrow> service_ok parse data checkpw (S\<lparr>sv_gets := (sv_gets S)(h := None)\<rparr>)"
  by (auto simp: service_ok_def)

section \<open>Every step keeps it\<close>

lemma put_verdict_effect:
  assumes "put_verdict w now rq m p (query (policy_client base parse t data) ''corshub/base_station'' (base_station_input u m c0)) ap = (r, ap')"
  shows "(r = Inr () \<longrightarrow> station_entitled parse data (w_checkpw w) m u p) \<and>
    (\<exists>ap1. quiet (ap_caster ap) (ap_caster ap1) \<and>
       (ap' = ap1 \<or> (\<exists>out. run_event cfg (Register now m (put_metadata rq m)) (ap_caster ap1) = (out, ap_caster ap'))))"
proof -
  let ?d = "base_station_decision parse t data (w_checkpw w) u p m (available m c0)"
  let ?ap1 = "ap\<lparr>ap_caster := auth_result ''base_station'' ?d (ap_caster ap)\<rparr>"
  have q: "quiet (ap_caster ap) (ap_caster ?ap1)" by (simp add: auth_result_def quiet_log)
  have a: "(if ?d then put_register now rq m ?ap1 else (Inl Unauthorized, ?ap1)) = (r, ap')"
    using assms unfolding put_verdict_policy by (auto simp: then_do_def on_caster_def step_simps split: if_splits)
  have e: "?d \<Longrightarrow> station_entitled parse data (w_checkpw w) m u p"
    by (cases "available m c0") (auto simp: station_entitled_def base_station_decision_def split: option.splits)
  show ?thesis
  proof (cases ?d)
    case True
    then have "\<exists>out. run_event cfg (Register now m (put_metadata rq m)) (ap_caster ?ap1) = (out, ap_caster ap')"
      using a by (auto simp: put_register_def split: prod.splits sum.splits)
    with q e [OF True] show ?thesis by blast
  next
    case False
    with a q show ?thesis by auto
  qed
qed

lemma put_chunk_effect:
  assumes "put_chunk w m (now, f) ap = (r, ap')"
  shows "if snd f = [] then ap' = ap else (\<exists>out. run_event (w_quality w) (Publish now m f) (ap_caster ap) = (out, ap_caster ap'))"
  using assms
  by (auto simp: put_chunk_def then_do_def on_caster_def step_simps split: prod.splits sum.splits)

lemma stream_verdict_granted:
  assumes "stream_verdict w (Some (policy_client base parse t data)) rq m u p ap = (Inr g, ap')"
  shows "\<exists>limit. g = (m, u, limit) \<and> rover_decision parse t data (w_checkpw w) u p m = (True, limit)"
  using assms authenticate_rover_decides [of base parse t data "w_checkpw w" u p m "ap_caster ap"]
  by (auto simp: stream_verdict_def then_do_Inr_iff on_caster_def step_simps split: prod.splits sum.splits if_splits)

lemma stream_begin_effect:
  assumes "stream_begin w now rq (m, u, limit) c = (Inr s, c')"
  shows "rs_mountpoint s = m \<and> rs_user s = u \<and>
    (rs_sub s = None \<and> c' = seed_position w rq m u c \<or>
     (\<exists>t i. rs_sub s = Some (t, i) \<and> run_event cfg (Join m) (seed_position w rq m u c) = (Handle t i, c')))"
  using assms by (auto simp: stream_begin_def Let_def split: sum.splits prod.splits)

lemma stream_begin_failed:
  assumes "stream_begin w now rq (m, u, limit) c = (Inl e, c')"
  shows "quiet c c'"
  using assms
  by (auto simp: stream_begin_def Let_def stream_end_def split: sum.splits prod.splits
      intro: quiet_trans [OF quiet_seed quiet_position(2)])

lemma stream_body_effect:
  assumes "stream_body w chunk s c = (s', c')"
  shows "quiet c c'" "rs_mountpoint s' = rs_mountpoint s" "rs_user s' = rs_user s" "rs_sub s' = rs_sub s"
  using assms quiet_gga_chunk [of "(rs_buf s, c)" "w_nmea w" "rs_mountpoint s" "rs_user s" chunk]
  by (auto simp: stream_body_def split: prod.splits)

lemma stream_ends_ok:
  assumes "service_ok parse data checkpw S"
  shows "service_ok parse data checkpw (S\<lparr>sv_app := upd_app_caster (stream_end s) (sv_app S)\<rparr>)"
proof (cases "rs_sub s")
  case None
  then show ?thesis
    using assms by (intro service_quiet) (simp_all add: upd_app_caster_def stream_end_def quiet_position)
next
  case (Some ti)
  obtain t i where ti: "ti = (t, i)" by force
  let ?ap = "upd_app_caster (leave_subscription t i) (sv_app S)"
  have "service_ok parse data checkpw (S\<lparr>sv_app := ?ap\<rparr>)"
    by (rule service_silent_event [OF assms, of demo_config "Leave t i"]) (simp_all add: upd_app_caster_def published_at_def)
  from service_quiet [OF this, of "upd_app_caster (stream_end s) (sv_app S)"] Some ti show ?thesis
    by (simp add: upd_app_caster_def stream_end_def quiet_position)
qed

lemma stream_starts_ok:
  assumes "service_ok parse data checkpw S" "stream_begin w now rq (m, u, limit) (caster_of S) = (Inr s, c)"
    and "rover_entitled parse data checkpw m u p"
  shows "service_ok parse data checkpw
    (S\<lparr>sv_app := (sv_app S)\<lparr>ap_caster := c\<rparr>,
       sv_gets := (sv_gets S)(h \<mapsto> Streaming p (length (frames_for (rs_mountpoint s) (sv_sent S))) [] s)\<rparr>)"
proof -
  let ?c = "seed_position w rq m u (caster_of S)"
  let ?S = "S\<lparr>sv_app := (sv_app S)\<lparr>ap_caster := c\<rparr>\<rparr>"
  have s: "rs_mountpoint s = m" "rs_user s = u"
    and cases: "rs_sub s = None \<and> c = ?c \<or> (\<exists>t i. rs_sub s = Some (t, i) \<and> run_event demo_config (Join m) ?c = (Handle t i, c))"
    using stream_begin_effect [OF assms(2), of demo_config] by blast+
  have seeded: "service_ok parse data checkpw (S\<lparr>sv_app := (sv_app S)\<lparr>ap_caster := ?c\<rparr>\<rparr>)"
    by (rule service_quiet [OF assms(1)]) (simp add: quiet_seed)
  have "service_ok parse data checkpw ?S \<and>
      stream_ok (broker_of c) (sv_sent S) (length (frames_for m (sv_sent S))) [] s"
    using cases
  proof
    assume "rs_sub s = None \<and> c = ?c"
    then show ?thesis using seeded s by (simp add: stream_ok_def)
  next
    assume "\<exists>t i. rs_sub s = Some (t, i) \<and> run_event demo_config (Join m) ?c = (Handle t i, c)"
    then obtain t i where j: "rs_sub s = Some (t, i)" "run_event demo_config (Join m) ?c = (Handle t i, c)" by blast
    have "serving ?c" using seeded by (simp add: service_ok_def)
    from join_opens [OF this j(2)] have "session_of t m (broker_of c)" "bk_rovers (broker_of c) (t, i) = Some []" by blast+
    then have "stream_ok (broker_of c) (sv_sent S) (length (frames_for m (sv_sent S))) [] s"
      using j(1) s by (simp add: stream_ok_def)
    moreover have "service_ok parse data checkpw ?S"
      using service_silent_event [OF seeded, of demo_config "Join m" _ "(sv_app S)\<lparr>ap_caster := c\<rparr>"] j(2)
      by (simp add: published_at_def)
    ultimately show ?thesis by blast
  qed
  with service_gets(1) [of parse data checkpw ?S "Streaming p (length (frames_for m (sv_sent S))) [] s" h] s assms(3)
  show ?thesis by simp
qed

lemma stream_writes_ok:
  assumes "service_ok parse data checkpw S" "sv_gets S h = Some (Streaming p since written s)" "rs_sub s = Some (t, i)"
    and "tq_get i (cs_store (caster_of S) t) = (Delivered f, tr)"
  shows "service_ok parse data checkpw
    (S\<lparr>sv_app := upd_app_caster (upd_transport t (\<lambda>_. tr)) (sv_app S), sv_gets := (sv_gets S)(h \<mapsto> Streaming p since (written @ [f]) s)\<rparr>)"
proof -
  let ?ap = "upd_app_caster (upd_transport t (\<lambda>_. tr)) (sv_app S)"
  have e: "run_event demo_config (Get t i) (caster_of S) = (Got (Delivered f), ap_caster ?ap)"
    using assms(4) by (simp add: upd_app_caster_def)
  have old: "serving (caster_of S)" "rover_entitled parse data checkpw (rs_mountpoint s) (rs_user s) p"
      "stream_ok (broker_of (caster_of S)) (sv_sent S) since written s"
    using service_okD(1,3) [OF assms(1)] assms(2) by fastforce+
  have "service_ok parse data checkpw (S\<lparr>sv_app := ?ap\<rparr>)" by (rule service_silent_event [OF assms(1) e]) simp
  moreover have "stream_ok (broker_of (ap_caster ?ap)) (sv_sent S) since (written @ [f]) s"
  proof -
    have b: "broker_step (Get t i) (Got (Delivered f)) (broker_of (caster_of S)) (broker_of (ap_caster ?ap))"
      using event_simulated [OF old(1) e] by blast
    then have "waiting (broker_of (caster_of S)) t i = f # waiting (broker_of (ap_caster ?ap)) t i" by cases simp_all
    with old(3) assms(3) session_of_step [OF b] show ?thesis by (simp add: stream_ok_def)
  qed
  ultimately show ?thesis
    using service_gets(1) [of parse data checkpw "S\<lparr>sv_app := ?ap\<rparr>" "Streaming p since (written @ [f]) s" h] old(2) by simp
qed

lemma put_answered_ok:
  assumes "service_ok parse data (w_checkpw w) S" "sv_puts S h = Some (Asking rq m u p q)"
    and "put_verdict w now rq m p (query (policy_client base parse t data) ''corshub/base_station'' q) (sv_app S) = (r, ap)"
  shows "service_ok parse data (w_checkpw w)
    (S\<lparr>sv_app := ap, sv_puts := (sv_puts S)(h := if r = Inr () then Some (Registered m u p) else None)\<rparr>)"
proof -
  obtain c0 where q: "q = base_station_input u m c0" using service_okD(2) [OF assms(1,2)] by auto
  note eff = put_verdict_effect [OF assms(3) [unfolded q], of demo_config]
  then obtain ap1 where ap1: "quiet (caster_of S) (ap_caster ap1)"
    "ap = ap1 \<or> (\<exists>out. run_event demo_config (Register now m (put_metadata rq m)) (ap_caster ap1) = (out, ap_caster ap))" by blast
  have s1: "service_ok parse data (w_checkpw w) (S\<lparr>sv_app := ap1\<rparr>)" by (rule service_quiet [OF assms(1) ap1(1)])
  have s2: "service_ok parse data (w_checkpw w) (S\<lparr>sv_app := ap\<rparr>)"
    using ap1(2)
  proof
    assume "\<exists>out. run_event demo_config (Register now m (put_metadata rq m)) (ap_caster ap1) = (out, ap_caster ap)"
    then obtain out where e: "run_event demo_config (Register now m (put_metadata rq m)) (caster_of (S\<lparr>sv_app := ap1\<rparr>)) = (out, ap_caster ap)"
      by auto
    have "service_ok parse data (w_checkpw w) (S\<lparr>sv_app := ap1, sv_app := ap\<rparr>)"
      by (rule service_silent_event [OF s1 e]) (simp add: published_at_def)
    then show ?thesis by simp
  qed (use s1 in simp)
  show ?thesis
  proof (cases "r = Inr ()")
    case True
    with eff service_puts(1) [OF s2, of "Registered m u p" h] show ?thesis by simp
  next
    case False
    with service_puts(2) [OF s2, of h] show ?thesis by simp
  qed
qed

lemma put_sends_ok:
  assumes "service_ok parse data (w_checkpw w) S" "sv_puts S h = Some (Sending m u p)" "put_chunk w m (now, f) (sv_app S) = (r, ap)"
  shows "service_ok parse data (w_checkpw w) (S\<lparr>sv_app := ap, sv_sent := sv_sent S @ (if snd f = [] then [] else [(m, u, p, f)])\<rparr>)"
proof (cases "snd f = []")
  case True
  with put_chunk_effect [OF assms(3)] assms(1) show ?thesis by simp
next
  case False
  then obtain out where e: "run_event (w_quality w) (Publish now m f) (caster_of S) = (out, ap_caster ap)"
    using put_chunk_effect [OF assms(3)] by auto
  have "station_entitled parse data (w_checkpw w) m u p" using service_okD(2) [OF assms(1,2)] by simp
  with False assms(1) show ?thesis
    by (intro service_event [OF assms(1) e]) (auto simp: service_ok_def)
qed

lemma background_silent: "background e \<Longrightarrow> published_at m e = []"
  by (cases e) (simp_all add: published_at_def)

lemma service_ok_step:
  assumes "service_ok parse data (w_checkpw w) S" "service_step w base parse data S S'"
  shows "service_ok parse data (w_checkpw w) S'"
  using assms(2)
proof cases
  case (put_asks now rq u p ap h m)
  have "service_ok parse data (w_checkpw w) (S\<lparr>sv_app := ap\<rparr>)"
    using put_guard_caster [of w now rq "sv_app S"] put_asks by (intro service_quiet [OF assms(1)]) simp
  from service_puts(1) [OF this, of "Asking rq m u p (put_question u m ap)" h] put_asks show ?thesis
    by (auto simp: put_question_def)
next
  case (put_turned_away now rq e ap)
  then show ?thesis
    using put_guard_caster [of w now rq "sv_app S"] by (auto intro: service_quiet [OF assms(1)])
next
  case (put_answered h rq m u p q now t r ap)
  then show ?thesis using put_answered_ok [OF assms(1)] by blast
next
  case (put_responds h m u p)
  moreover have "put_pc_ok parse data (w_checkpw w) (Sending m u p)"
    using service_okD(2) [OF assms(1) put_responds(2)] by simp
  ultimately show ?thesis using service_puts(1) [OF assms(1)] by blast
next
  case (put_lost h m u p)
  then show ?thesis using service_puts(2) [OF assms(1)] by blast
next
  case (put_sends h m u p now f r ap)
  then show ?thesis using put_sends_ok [OF assms(1)] by blast
next
  case (put_ends h m u p r ap)
  then have "\<exists>out. run_event demo_config (Close m) (caster_of S) = (out, ap_caster ap)"
    by (auto simp: on_caster_def split: prod.splits sum.splits)
  then have "service_ok parse data (w_checkpw w) (S\<lparr>sv_app := ap\<rparr>)"
    using service_silent_event [OF assms(1), of demo_config "Close m"] by (auto simp: published_at_def)
  from service_puts(2) [OF this, of h] put_ends show ?thesis by simp
next
  case (get_asks now rq u p ap h m)
  have "service_ok parse data (w_checkpw w) (S\<lparr>sv_app := ap\<rparr>)"
    using stream_credentials_caster [of w now rq "sv_app S"] get_asks by (intro service_quiet [OF assms(1)]) simp
  from service_gets(1) [OF this, of "Checking rq m u p" h] get_asks show ?thesis by simp
next
  case (get_turned_away now rq e ap)
  then show ?thesis
    using stream_credentials_caster [of w now rq "sv_app S"] by (auto intro: service_quiet [OF assms(1)])
next
  case (get_granted h rq m u p t g ap)
  have "service_ok parse data (w_checkpw w) (S\<lparr>sv_app := ap\<rparr>)"
    using stream_verdict_quiet [of "sv_app S" w "Some (policy_client base parse t data)" rq m u p] get_granted(3)
    by (intro service_quiet [OF assms(1)]) simp
  moreover obtain limit where g: "g = (m, u, limit)" and "rover_decision parse t data (w_checkpw w) u p m = (True, limit)"
    using stream_verdict_granted [OF get_granted(3)] by blast
  then have "rover_entitled parse data (w_checkpw w) m u p" unfolding rover_entitled_def by blast
  ultimately show ?thesis
    using service_gets(1) [of parse data "w_checkpw w" "S\<lparr>sv_app := ap\<rparr>" "Granted rq p g" h] get_granted(1) by (simp add: g)
next
  case (get_refused h rq m u p t e ap)
  have "service_ok parse data (w_checkpw w) (S\<lparr>sv_app := ap\<rparr>)"
    using stream_verdict_quiet [of "sv_app S" w "Some (policy_client base parse t data)" rq m u p] get_refused(3)
    by (intro service_quiet [OF assms(1)]) simp
  from service_gets(2) [OF this, of h] get_refused show ?thesis by simp
next
  case (stream_starts h rq p g now s c)
  obtain m u limit where g: "g = (m, u, limit)" by (cases g)
  have "rover_entitled parse data (w_checkpw w) m u p" using service_okD(3) [OF assms(1) stream_starts(2)] g by simp
  with stream_starts_ok [OF assms(1) stream_starts(3) [unfolded g]] stream_starts(1) show ?thesis by blast
next
  case (stream_fails h rq p g now e c)
  obtain m u limit where g: "g = (m, u, limit)" by (cases g)
  have "service_ok parse data (w_checkpw w) (S\<lparr>sv_app := (sv_app S)\<lparr>ap_caster := c\<rparr>\<rparr>)"
    using stream_begin_failed [OF stream_fails(3) [unfolded g]] by (intro service_quiet [OF assms(1)]) simp
  from service_gets(2) [OF this, of h] stream_fails show ?thesis by simp
next
  case (stream_writes h p since written s t i now f tr)
  then show ?thesis using stream_writes_ok [OF assms(1)] by blast
next
  case (stream_hears h p since written s chunk s' c)
  note b = stream_body_effect [OF stream_hears(3)]
  let ?S = "S\<lparr>sv_app := (sv_app S)\<lparr>ap_caster := c\<rparr>\<rparr>"
  have s: "service_ok parse data (w_checkpw w) ?S" by (rule service_quiet [OF assms(1)]) (simp add: b(1))
  then have "get_pc_ok parse data (w_checkpw w) (broker_of c) (sv_sent S) (Streaming p since written s)"
    using service_okD(3) [OF s, of h] stream_hears(2) by simp
  then have "get_pc_ok parse data (w_checkpw w) (broker_of c) (sv_sent S) (Streaming p since written s')"
    by (simp only: get_pc_ok.simps stream_ok_def b)
  with service_gets(1) [OF s, of "Streaming p since written s'" h] stream_hears(1) show ?thesis by simp
next
  case (stream_ends h p since written s)
  from service_gets(2) [OF stream_ends_ok [OF assms(1), of s], of h] stream_ends(1) show ?thesis by simp
next
  case (others e)
  let ?ap = "upd_app_caster (\<lambda>c. snd (run_event (w_quality w) e c)) (sv_app S)"
  have "run_event (w_quality w) e (caster_of S) = (fst (run_event (w_quality w) e (caster_of S)), ap_caster ?ap)"
    by (simp add: upd_app_caster_def)
  from service_silent_event [OF assms(1) this] background_silent [OF others(2)] others(1) show ?thesis by simp
qed

lemma service_ok_start: "fresh_service S \<Longrightarrow> service_ok parse data checkpw S"
  by (auto simp: fresh_service_def service_ok_def serving_started)

interpretation service_sys: invariant_system fresh_service "service_step w base parse data" "service_ok parse data (w_checkpw w)"
  for w base parse data
  by unfold_locales (auto intro: service_ok_step service_ok_start)

section \<open>Properties\<close>

text \<open>
  C1: corrections flow only from entitled stations to entitled rovers. However requests, chunks and
  background tasks interleave, a rover that is being streamed a mountpoint was admitted to it by the
  rover policy with its password; what it has been written is a subsequence of the chunks published
  to that mountpoint since it subscribed; and each of those was sent by a PUT whose user the
  base-station policy entitles to that very mountpoint, with a matching password.
\<close>
theorem frames_come_from_entitled_stations:
  assumes "reach fresh_service (service_step w base parse data) S"
    and "sv_gets S h = Some (Streaming p since written s)"
  shows "(\<exists>t limit. rover_decision parse t data (w_checkpw w) (rs_user s) p (rs_mountpoint s) = (True, limit)) \<and>
     subseq written (drop since (frames_for (rs_mountpoint s) (sv_sent S))) \<and>
     (\<forall>f \<in> set written. \<exists>u pw t. (rs_mountpoint s, u, pw, f) \<in> set (sv_sent S) \<and>
        base_station_decision parse t data (w_checkpw w) u pw (rs_mountpoint s) False)"
proof -
  have ok: "service_ok parse data (w_checkpw w) S" by (rule service_sys.reach_inv [OF assms(1)])
  from service_okD(3) [OF ok assms(2)]
  have r: "rover_entitled parse data (w_checkpw w) (rs_mountpoint s) (rs_user s) p"
    and st: "stream_ok (broker_of (caster_of S)) (sv_sent S) since written s" by simp_all
  have sub: "subseq written (drop since (frames_for (rs_mountpoint s) (sv_sent S)))"
  proof (cases "rs_sub s")
    case (Some ti)
    then show ?thesis
      using st list_emb_append2 [OF subseq_order.order_refl] by (auto simp: stream_ok_def intro: subseq_append_left)
  qed (use st in \<open>simp add: stream_ok_def\<close>)
  have "\<exists>u pw t. (rs_mountpoint s, u, pw, f) \<in> set (sv_sent S) \<and>
      base_station_decision parse t data (w_checkpw w) u pw (rs_mountpoint s) False" if f: "f \<in> set written" for f
  proof -
    have "f \<in> set (drop since (frames_for (rs_mountpoint s) (sv_sent S)))"
      using list_emb_set [OF sub f] by blast
    then have "f \<in> set (frames_for (rs_mountpoint s) (sv_sent S))" by (rule in_set_dropD)
    then obtain u pw where "(rs_mountpoint s, u, pw, f) \<in> set (sv_sent S)" by (auto simp: frames_for_def)
    with service_okD(4) [OF ok this] show ?thesis by (auto simp: station_entitled_def)
  qed
  with r sub show ?thesis by (simp add: rover_entitled_def)
qed

section \<open>Witness\<close>

text \<open>A station registers and sends one chunk, which an anonymous rover is written.\<close>

definition demo_service :: "(string, real \<times> bucket) dict service" where
  "demo_service = \<lparr>sv_app = \<lparr>ap_caster = start (new_caster None 4), ap_limiter = None\<rparr>,
     sv_puts = Map.empty, sv_gets = Map.empty, sv_sent = []\<rparr>"

abbreviation demo_step :: "(string, real \<times> bucket) dict service \<Rightarrow> (string, real \<times> bucket) dict service \<Rightarrow> bool" where
  "demo_step \<equiv> service_step demo_world ''http://opa:8181/'' demo_window demo_data"

abbreviation demo_run :: "(string, real \<times> bucket) dict service \<Rightarrow> bool" where
  "demo_run \<equiv> reach fresh_service demo_step"

lemma unlimited:
  "ap_limiter ap = None \<Longrightarrow> may_attempt w now rq ap" "ap_limiter ap = None \<Longrightarrow> charged w now rq ap = ap"
  by (simp_all add: may_attempt_def charged_def enforce_auth_rate_limit_def)

lemma demo_put_guard:
  "ap_limiter ap = None \<Longrightarrow> put_guard demo_world 0 demo_request ap = (Inr (''base'', ''pw''), ap)"
  by (simp add: put_guard_cases demo_headers throttled_credentials_cases unlimited) (simp add: demo_request_def unlimited)

lemma demo_stream_credentials:
  "ap_limiter ap = None \<Longrightarrow> stream_credentials demo_world 0 demo_rover_request ap = (Inr (''anonymous'', ''anon''), ap)"
  by (simp add: stream_credentials_def then_do_def step_simps demo_rover_facts(1) throttled_credentials_cases unlimited)
    (simp add: demo_rover_request_def unlimited)

lemma demo_open:
  "\<exists>ap mp. put_verdict demo_world 0 demo_request ''BASE-1'' ''pw''
       (query (policy_client ''http://opa:8181/'' demo_window 1750000000000000000 demo_data) ''corshub/base_station''
         (base_station_input ''base'' ''BASE-1'' (start (new_caster None 4)))) (sv_app demo_service) = (Inr (), ap) \<and>
     ap_limiter ap = None \<and> map_of (cs_transports (ap_caster ap)) ''BASE-1'' = Some 0 \<and>
     map_of (cs_mountpoints (ap_caster ap)) ''BASE-1'' = Some mp \<and> \<not> mp_nmea mp"
proof -
  have "\<not> available ''BASE-1'' (start (new_caster None 4))" by (simp add: available_def start_def new_caster_def)
  moreover have "mountpoint_re ''BASE-1''" by code_simp
  moreover have "put_metadata demo_request ''BASE-1'' = no_metadata"
    by (simp add: put_metadata_def truthy_def demo_request_def NTRIP_STR_def)
  moreover have "w_checkpw demo_world = demo_checkpw" by (simp add: demo_world_def)
  ultimately show ?thesis
    using demo_decision
    by (simp add: put_verdict_policy then_do_def on_caster_def step_simps put_register_def demo_service_def
        register_def start_def new_caster_def new_mountpoint_def post_init_def open_transport_def auth_result_def log_caster_def
        no_metadata_def present_and_not_def given_and_not_def Let_def)
qed

lemma demo_grant:
  assumes "available ''BASE-1'' (ap_caster ap)" "map_of (cs_mountpoints (ap_caster ap)) ''BASE-1'' = Some mp" "\<not> mp_nmea mp"
  shows "\<exists>ap'. stream_verdict demo_world (Some (policy_client ''http://opa:8181/'' demo_window 1750000000000000000 demo_data))
      demo_rover_request ''BASE-1'' ''anonymous'' ''anon'' ap = (Inr (''BASE-1'', ''anonymous'', JInt 60), ap') \<and>
    same_registry (ap_caster ap) (ap_caster ap')"
proof -
  let ?opa = "Some (policy_client ''http://opa:8181/'' demo_window 1750000000000000000 demo_data)"
  let ?c = "snd (authenticate_rover ?opa demo_checkpw ''anonymous'' ''anon'' ''BASE-1'' (ap_caster ap))"
  have w: "w_checkpw demo_world = demo_checkpw" by (simp add: demo_world_def)
  have s: "same_registry (ap_caster ap) ?c" by (rule authenticate_rover_keeps)
  have a: "on_caster (authenticate_rover ?opa (w_checkpw demo_world) ''anonymous'' ''anon'' ''BASE-1'') ap =
      (Inr (True, JInt 60), ap\<lparr>ap_caster := ?c\<rparr>)"
    by (simp add: w on_caster_def case_prod_beta authenticate_rover_decides demo_rover_facts(4))
  have "stream_checks demo_world demo_rover_request ''BASE-1'' (ap\<lparr>ap_caster := ?c\<rparr>) = (Inr (), ap\<lparr>ap_caster := ?c\<rparr>)"
    using s assms by (simp add: stream_checks_def nmea_gate_def step_simps same_registry_def available_def)
  then have "stream_verdict demo_world ?opa demo_rover_request ''BASE-1'' ''anonymous'' ''anon'' ap =
      (Inr (''BASE-1'', ''anonymous'', JInt 60), ap\<lparr>ap_caster := ?c\<rparr>)"
    by (simp add: stream_verdict_def a step_simps then_do_def)
  with s show ?thesis by auto
qed

text \<open>The station is sending and the rover has been granted its stream.\<close>

lemma demo_sending:
  "\<exists>S mp. demo_run S \<and> sv_puts S 0 = Some (Sending ''BASE-1'' ''base'' ''pw'') \<and> sv_gets S = Map.empty \<and> sv_sent S = [] \<and>
     ap_limiter (sv_app S) = None \<and> map_of (cs_transports (caster_of S)) ''BASE-1'' = Some 0 \<and>
     map_of (cs_mountpoints (caster_of S)) ''BASE-1'' = Some mp \<and> \<not> mp_nmea mp"
proof -
  let ?S0 = demo_service and ?ap0 = "sv_app demo_service"
  obtain ap mp where v: "put_verdict demo_world 0 demo_request ''BASE-1'' ''pw''
       (query (policy_client ''http://opa:8181/'' demo_window 1750000000000000000 demo_data) ''corshub/base_station''
         (put_question ''base'' ''BASE-1'' ?ap0)) ?ap0 = (Inr (), ap)"
    and ap: "ap_limiter ap = None" "map_of (cs_transports (ap_caster ap)) ''BASE-1'' = Some 0"
    "map_of (cs_mountpoints (ap_caster ap)) ''BASE-1'' = Some mp" "\<not> mp_nmea mp"
    using demo_open by (auto simp: put_question_def demo_service_def)
  let ?S1 = "?S0\<lparr>sv_app := ?ap0, sv_puts := (sv_puts ?S0)(0 \<mapsto> Asking demo_request ''BASE-1'' ''base'' ''pw'' (put_question ''base'' ''BASE-1'' ?ap0))\<rparr>"
  let ?S2 = "?S1\<lparr>sv_app := ap, sv_puts := (sv_puts ?S1)(0 := if (Inr () :: failure + unit) = Inr () then Some (Registered ''BASE-1'' ''base'' ''pw'') else None)\<rparr>"
  let ?S3 = "?S2\<lparr>sv_puts := (sv_puts ?S2)(0 \<mapsto> Sending ''BASE-1'' ''base'' ''pw'')\<rparr>"
  have "put_guard demo_world 0 demo_request ?ap0 = (Inr (''base'', ''pw''), ?ap0)"
    by (rule demo_put_guard) (simp add: demo_service_def)
  then have "demo_step ?S0 ?S1" by (rule service_step.put_asks) (simp add: demo_service_def)
  moreover have "demo_step ?S1 ?S2"
    by (rule service_step.put_answered [where rq = demo_request and q = "put_question ''base'' ''BASE-1'' ?ap0"
          and now = 0 and t = 1750000000000000000]) (use v in simp_all)
  moreover have "demo_step ?S2 ?S3" by (rule service_step.put_responds) simp
  moreover have "demo_run ?S0" by (rule reach_start) (auto simp: fresh_service_def demo_service_def)
  ultimately have "demo_run ?S3" by (blast intro: reach_step)
  moreover have "sv_gets ?S3 = Map.empty" "sv_sent ?S3 = []" by (simp_all add: demo_service_def)
  ultimately show ?thesis
    using ap by (intro exI [of _ ?S3] exI [of _ mp]) (simp del: map_of_eq_Some_iff)
qed

lemma demo_granted:
  "\<exists>S. demo_run S \<and> sv_puts S 0 = Some (Sending ''BASE-1'' ''base'' ''pw'') \<and>
     sv_gets S 0 = Some (Granted demo_rover_request ''anon'' (''BASE-1'', ''anonymous'', JInt 60)) \<and> sv_sent S = [] \<and>
     map_of (cs_transports (caster_of S)) ''BASE-1'' = Some 0"
proof -
  obtain S mp where S: "demo_run S" "sv_puts S 0 = Some (Sending ''BASE-1'' ''base'' ''pw'')" "sv_gets S = Map.empty" "sv_sent S = []"
    "ap_limiter (sv_app S) = None" "map_of (cs_transports (caster_of S)) ''BASE-1'' = Some 0"
    and mp: "map_of (cs_mountpoints (caster_of S)) ''BASE-1'' = Some mp" "\<not> mp_nmea mp"
    using demo_sending by blast
  let ?S1 = "S\<lparr>sv_app := sv_app S, sv_gets := (sv_gets S)(0 \<mapsto> Checking demo_rover_request ''BASE-1'' ''anonymous'' ''anon'')\<rparr>"
  have "available ''BASE-1'' (caster_of S)" using S(6) mp(1) by (simp add: available_def del: map_of_eq_Some_iff)
  from demo_grant [OF this mp] obtain ap where a: "stream_verdict demo_world
      (Some (policy_client ''http://opa:8181/'' demo_window 1750000000000000000 demo_data))
      demo_rover_request ''BASE-1'' ''anonymous'' ''anon'' (sv_app S) = (Inr (''BASE-1'', ''anonymous'', JInt 60), ap)"
    and same: "same_registry (caster_of S) (ap_caster ap)" by blast
  let ?S2 = "?S1\<lparr>sv_app := ap, sv_gets := (sv_gets ?S1)(0 \<mapsto> Granted demo_rover_request ''anon'' (''BASE-1'', ''anonymous'', JInt 60))\<rparr>"
  have "demo_step S ?S1"
    by (rule service_step.get_asks [OF demo_stream_credentials [OF S(5)]]) (simp add: S(3))
  moreover have "demo_step ?S1 ?S2"
    by (rule service_step.get_granted [where rq = demo_rover_request and t = 1750000000000000000]) (use a in simp_all)
  ultimately have "demo_run ?S2" using S(1) by (blast intro: reach_step)
  with S same show ?thesis
    by (intro exI [of _ ?S2]) (simp add: same_registry_def del: map_of_eq_Some_iff)
qed

lemma demo_starts:
  assumes "map_of (cs_transports c) ''BASE-1'' = Some t"
  shows "\<exists>s c'. stream_begin demo_world 0 demo_rover_request (''BASE-1'', ''anonymous'', JInt 60) c = (Inr s, c') \<and>
     rs_deadline s = Some 60 \<and> rs_sub s \<noteq> None"
proof -
  have "cs_transports (seed_position demo_world demo_rover_request ''BASE-1'' ''anonymous'' c) = cs_transports c"
    by (simp add: seed_position_def set_rover_position_def split: option.split)
  with assms show ?thesis
    by (simp add: stream_begin_def session_deadline_def Caster.subscribe_def Let_def case_prod_beta del: map_of_eq_Some_iff)
qed

text \<open>A chunk sent to an open session waits for its rover, who is then written it.\<close>

lemma sent_chunk_waits:
  assumes "serving c" "run_event cfg (Publish now m f) c = (out, c')" "bk_open (broker_of c) m = Some t" "bk_rovers (broker_of c) (t, i) = Some []"
  shows "\<exists>tr. tq_get i (cs_store c' t) = (Delivered f, tr)"
proof -
  have s: "serving c'" "broker_step (Publish now m f) out (broker_of c) (broker_of c')"
    using event_simulated [OF assms(1,2)] by simp_all
  from s(2) have "bk_rovers (broker_of c') (t, i) = Some [f]"
    using assms(3,4) by cases (simp_all add: deliver_def keep_last_def QUEUE_MAXSIZE_def)
  then have "backlog (cs_store c' t) i = Some [f]" by simp
  with backlog_get [OF serving_tq_ok [OF s(1), of t], of i] show ?thesis by (auto simp: prod_eq_iff)
qed

lemma demo_streamed:
  "\<exists>S s. demo_run S \<and> sv_gets S 0 = Some (Streaming ''anon'' 0 [(0, [1, 2])] s) \<and> rs_mountpoint s = ''BASE-1'' \<and> rs_user s = ''anonymous''"
proof -
  let ?m = "''BASE-1''" and ?f = "(0, [1, 2]) :: frame"
  obtain S where S: "demo_run S" "sv_puts S 0 = Some (Sending ?m ''base'' ''pw'')"
    "sv_gets S 0 = Some (Granted demo_rover_request ''anon'' (?m, ''anonymous'', JInt 60))" "sv_sent S = []"
    "map_of (cs_transports (caster_of S)) ?m = Some 0"
    using demo_granted by blast
  obtain s c where b: "stream_begin demo_world 0 demo_rover_request (?m, ''anonymous'', JInt 60) (caster_of S) = (Inr s, c)"
    and d: "rs_deadline s = Some 60" "rs_sub s \<noteq> None"
    using demo_starts [OF S(5)] by blast
  let ?S1 = "S\<lparr>sv_app := (sv_app S)\<lparr>ap_caster := c\<rparr>,
      sv_gets := (sv_gets S)(0 \<mapsto> Streaming ''anon'' (length (frames_for (rs_mountpoint s) (sv_sent S))) [] s)\<rparr>"
  have r1: "demo_run ?S1" by (rule reach_step [OF S(1)], rule service_step.stream_starts) (use S(3) b in simp_all)
  have g1: "sv_gets ?S1 0 = Some (Streaming ''anon'' 0 [] s)" by (simp add: S(4))
  from stream_begin_effect [OF b, of demo_config] d(2) obtain t i where s: "rs_mountpoint s = ?m" "rs_user s = ''anonymous''"
      "rs_sub s = Some (t, i)"
    and j: "run_event demo_config (Join ?m) (seed_position demo_world demo_rover_request ?m ''anonymous'' (caster_of S)) = (Handle t i, c)"
    by blast
  have "serving (caster_of S)" using service_okD(1) [OF service_sys.reach_inv [OF S(1)]] .
  then have "serving (seed_position demo_world demo_rover_request ?m ''anonymous'' (caster_of S))"
    using quiet_seed [unfolded quiet_def] by blast
  from join_opens [OF this j] have c: "serving c" "bk_open (broker_of c) ?m = Some t" "bk_rovers (broker_of c) (t, i) = Some []" by blast+
  obtain r ap where p: "put_chunk demo_world ?m (1, ?f) (sv_app ?S1) = (r, ap)" by force
  let ?S2 = "?S1\<lparr>sv_app := ap, sv_sent := sv_sent ?S1 @ (if snd ?f = [] then [] else [(?m, ''base'', ''pw'', ?f)])\<rparr>"
  have r2: "demo_run ?S2" by (rule reach_step [OF r1], rule service_step.put_sends [where h = 0]) (use S(2) p in simp_all)
  obtain out where "run_event (w_quality demo_world) (Publish 1 ?m ?f) c = (out, ap_caster ap)"
    using put_chunk_effect [OF p] by (auto simp del: run_event.simps)
  from sent_chunk_waits [OF c(1) this c(2,3)] obtain tr where tr: "tq_get i (cs_store (caster_of ?S2) t) = (Delivered ?f, tr)"
    by auto
  let ?S3 = "?S2\<lparr>sv_app := upd_app_caster (upd_transport t (\<lambda>_. tr)) (sv_app ?S2),
      sv_gets := (sv_gets ?S2)(0 \<mapsto> Streaming ''anon'' 0 ([] @ [?f]) s)\<rparr>"
  have "demo_step ?S2 ?S3"
    by (rule service_step.stream_writes [OF _ s(3) _ tr, where now = 2]) (use g1 d(1) in simp_all)
  with r2 have "demo_run ?S3" by (rule reach_step)
  then show ?thesis using s(1,2) by (intro exI [of _ ?S3] exI [of _ s]) simp
qed

theorem frames_come_from_entitled_stations_witness:
  "\<exists>S s u pw t. demo_run S \<and> sv_gets S 0 = Some (Streaming ''anon'' 0 [(0, [1, 2])] s) \<and>
     (''BASE-1'', u, pw, (0, [1, 2])) \<in> set (sv_sent S) \<and>
     base_station_decision demo_window t demo_data (w_checkpw demo_world) u pw ''BASE-1'' False"
proof -
  obtain S s where S: "demo_run S" "sv_gets S 0 = Some (Streaming ''anon'' 0 [(0, [1, 2])] s)" "rs_mountpoint s = ''BASE-1''"
    using demo_streamed by blast
  from frames_come_from_entitled_stations [OF S(1,2)] S show ?thesis by auto
qed

end
