(* ===== verification/Boot.thy ===== *)
theory Boot
  imports RtcmRoutes "HOL-Library.Multiset"
begin

text \<open>
  How the parts are put together: the blueprints of the three services and their versions
  (\<open>services/\<close>), the two entry points \<open>bin/services.py\<close> and \<open>bin/standalone.py\<close>, the shared client
  session (\<open>http/sessions.py\<close>), start and stop of the server, and which handler a path reaches.
  Sanic's router is a parameter with its documented order of preference.
\<close>

section \<open>Routes and blueprints\<close>

datatype http_method = GET | POST | PUT

datatype endpoint =
    Healthz | MetricsScrape | SourcetableRoute | PutRoute | ReadRoute | NearRoute | QualitySingle | CreateSession | Jwks

datatype segment = Static string | Param

datatype listener = RegisterSession | RequireEnv "string list" | NtripSetup | RtcmSetup

datatype stopper = CloseSession | NtripFinalize | RtcmFinalize

record blueprint =
  bp_name :: string
  bp_url_prefix :: string
  bp_routes :: "(http_method \<times> string \<times> endpoint) list"
  bp_start :: "listener list"
  bp_stop :: "stopper list"

type_synonym route = "http_method \<times> segment list \<times> endpoint"

definition url_parts :: "string \<Rightarrow> string list" where
  "url_parts uri = filter (\<lambda>p. p \<noteq> []) (split_on (CHR ''/'') uri)"

text \<open>\<open><mountpoint:str>\<close> is the only parameter the routes use.\<close>

definition route_segments :: "string \<Rightarrow> segment list" where
  "route_segments uri = map (\<lambda>p. if p = ''<mountpoint:str>'' then Param else Static p) (url_parts uri)"

definition metrics_bp :: blueprint where
  "metrics_bp = \<lparr>bp_name = ''metrics-v1'', bp_url_prefix = ''/.info/v1/metrics'',
     bp_routes = [(GET, ''/'', MetricsScrape)], bp_start = [RequireEnv []], bp_stop = []\<rparr>"

definition ntrip_bp :: blueprint where
  "ntrip_bp = \<lparr>bp_name = ''ntrip-v1'', bp_url_prefix = ''/api/v1/ntrip'',
     bp_routes = [(GET, ''/NEAR'', NearRoute), (GET, ''/NEAREST'', NearRoute), (GET, ''/NSB'', NearRoute),
       (PUT, ''/<mountpoint:str>'', PutRoute), (GET, ''/quality/<mountpoint:str>'', QualitySingle),
       (GET, ''/<mountpoint:str>'', ReadRoute), (GET, ''/'', SourcetableRoute)],
     bp_start = [RequireEnv [''OPA_URL''], NtripSetup], bp_stop = [NtripFinalize]\<rparr>"

text \<open>\<open>bp.copy("ntrip-latest", url_prefix="/")\<close>\<close>

definition ntrip_latest_bp :: blueprint where
  "ntrip_latest_bp = ntrip_bp\<lparr>bp_name := ''ntrip-latest'', bp_url_prefix := ''/''\<rparr>"

definition rtcm_bp :: blueprint where
  "rtcm_bp = \<lparr>bp_name = ''rtcm-v1'', bp_url_prefix = ''/api/v1/rtcm'',
     bp_routes = [(GET, ''/jwks.json'', Jwks), (POST, ''/session'', CreateSession)],
     bp_start = [RtcmSetup], bp_stop = [RtcmFinalize]\<rparr>"

definition blueprint_routes :: "blueprint \<Rightarrow> route list" where
  "blueprint_routes bp =
     map (\<lambda>(method, uri, e). (method, route_segments (bp_url_prefix bp) @ route_segments uri, e)) (bp_routes bp)"

section \<open>Services and their versions\<close>

record service_group =
  sg_name :: string
  sg_blueprints :: "(string, blueprint) dict"

definition metrics_service :: service_group where
  "metrics_service = \<lparr>sg_name = ''metrics'', sg_blueprints = [(''latest'', metrics_bp)]\<rparr>"

definition ntrip_service :: service_group where
  "ntrip_service = \<lparr>sg_name = ''ntrip'', sg_blueprints = [(''v1'', ntrip_bp), (''latest'', ntrip_latest_bp)]\<rparr>"

definition rtcm_service :: service_group where
  "rtcm_service = \<lparr>sg_name = ''rtcm'', sg_blueprints = [(''v1'', rtcm_bp)]\<rparr>"

text \<open>The packages of \<open>corshub.services.v1\<close> as \<open>pkgutil.iter_modules\<close> lists them: sorted by name\<close>

definition service_packages :: "(string, service_group) dict" where
  "service_packages = [(''metrics'', metrics_service), (''ntrip'', ntrip_service), (''rtcm'', rtcm_service)]"

definition service_blueprint :: "string \<Rightarrow> service_group \<Rightarrow> py_error + blueprint" where
  "service_blueprint version g =
     (case map_of (sg_blueprints g) version of Some bp \<Rightarrow> Inr bp | None \<Rightarrow> Inl (KeyError version))"

datatype boot_error = Raised py_error | ImportFailed string

text \<open>
  The modules inside the packages can be imported by their dotted name and have no \<open>service\<close>; any
  other name is no module.
\<close>

definition service_submodules :: "string list" where
  "service_submodules = [''metrics.base'', ''ntrip.base'', ''ntrip.nearest'', ''ntrip.put'', ''ntrip.quality'',
     ''ntrip.read'', ''ntrip.sourcetable'', ''rtcm.base'', ''rtcm.jwks'', ''rtcm.session'']"

definition load :: "string \<Rightarrow> boot_error + service_group" where
  "load service =
     (case map_of service_packages service of
        Some g \<Rightarrow> Inr g
      | None \<Rightarrow>
          if service \<in> set service_submodules then Inl (Raised AttributeError)
          else Inl (ImportFailed (''corshub.services.v1.'' @ service)))"

section \<open>The application\<close>

record boot_arguments =
  ar_run :: "string list"
  ar_reverse_proxy_count :: int
  ar_header_real_ip :: string

record application =
  sn_proxies :: "(int \<times> string) option"
  sn_limiter :: "(pyfloat option \<times> pyfloat option) option"
  sn_routes :: "route list"
  sn_start :: "listener list"
  sn_stop :: "stopper list"

definition create_app :: "environ \<Rightarrow> boot_arguments \<Rightarrow> boot_error + application" where
  "create_app environ args =
     andThen (map_sum Raised id (initialize environ)) (\<lambda>limiter.
       Inr \<lparr>sn_proxies = (if ar_reverse_proxy_count args > 0
                          then Some (ar_reverse_proxy_count args, ar_header_real_ip args) else None),
            sn_limiter = limiter, sn_routes = [], sn_start = [RegisterSession], sn_stop = []\<rparr>)"

definition add_blueprint :: "blueprint \<Rightarrow> application \<Rightarrow> application" where
  "add_blueprint bp app = app\<lparr>sn_routes := sn_routes app @ blueprint_routes bp,
     sn_start := sn_start app @ bp_start bp, sn_stop := sn_stop app @ bp_stop bp\<rparr>"

definition add_healthz :: "application \<Rightarrow> application" where
  "add_healthz app = app\<lparr>sn_routes := sn_routes app @ [(GET, route_segments ''/.info/healthz'', Healthz)]\<rparr>"

text \<open>\<open>service, version = proposal.split("=")\<close>\<close>

definition proposed :: "string \<Rightarrow> boot_error + blueprint" where
  "proposed proposal =
     (case split_on (CHR ''='') proposal of
        [service, version] \<Rightarrow>
          andThen (load service) (\<lambda>group. map_sum Raised id (service_blueprint version group))
      | _ \<Rightarrow> Inl (Raised ValueError))"

fun add_proposals :: "string list \<Rightarrow> application \<Rightarrow> boot_error + application" where
  "add_proposals [] app = Inr app"
| "add_proposals (p # ps) app = andThen (proposed p) (\<lambda>bp. add_proposals ps (add_blueprint bp app))"

definition services :: "environ \<Rightarrow> boot_arguments \<Rightarrow> boot_error + application" where
  "services environ args =
     (if ar_run args = [] then Inl (Raised ValueError)
      else
        andThen (create_app environ args) (\<lambda>app.
        andThen (add_proposals (ar_run args) app) (\<lambda>app. Inr (add_healthz app))))"

text \<open>Every version of every package\<close>

definition all_blueprints :: "blueprint list" where
  "all_blueprints = concat (map (\<lambda>(_, g). map snd (sg_blueprints g)) service_packages)"

definition standalone :: "environ \<Rightarrow> boot_arguments \<Rightarrow> boot_error + application" where
  "standalone environ args =
     andThen (create_app environ args) (\<lambda>app. Inr (add_healthz (fold add_blueprint all_blueprints app)))"

section \<open>The client session\<close>

text \<open>
  The class attribute of \<open>HTTPRequestManager\<close>, shared by all applications of the process, and the
  sessions opened and closed so far, numbered in order of opening. The \<open>with\<close> blocks hold the class's
  lock from start to end.
\<close>

record client_pool =
  po_session :: "nat option"
  po_opened :: nat
  po_closed :: "nat list"

definition new_pool :: client_pool where
  "new_pool = \<lparr>po_session = None, po_opened = 0, po_closed = []\<rparr>"

text \<open>\<open>app.ctx.http_client_session\<close> and the pool\<close>

definition register_session :: "nat option \<Rightarrow> client_pool \<Rightarrow> nat option \<times> client_pool" where
  "register_session attr pool =
     (case attr of
        Some s \<Rightarrow> (Some s, pool)
      | None \<Rightarrow> (Some (po_opened pool), pool\<lparr>po_session := Some (po_opened pool), po_opened := po_opened pool + 1\<rparr>))"

text \<open>Closing a closed session does nothing.\<close>

definition cleanup_session :: "nat option \<Rightarrow> client_pool \<Rightarrow> nat option \<times> client_pool" where
  "cleanup_session attr pool =
     (case attr of
        None \<Rightarrow> (None, pool)
      | Some _ \<Rightarrow> (None, case po_session pool of None \<Rightarrow> pool | Some s \<Rightarrow> pool\<lparr>po_closed := po_closed pool @ [s]\<rparr>))"

definition open_sessions :: "client_pool \<Rightarrow> nat set" where
  "open_sessions pool = {..<po_opened pool} - set (po_closed pool)"

section \<open>Start and stop of the server\<close>

text \<open>\<open>app.ctx\<close>: the attributes the listeners set. \<open>se_cleanups\<close> are the listeners added while
  starting; casters that were stopped are recorded.\<close>

record server =
  se_pool :: client_pool
  se_session :: "nat option"
  se_ntrip :: "(opa_client \<times> caster) option"
  se_rtcm :: "rtcm_ctx option"
  se_cleanups :: "stopper list"
  se_stopped :: "caster list"

definition new_server :: server where
  "new_server = \<lparr>se_pool = new_pool, se_session = None, se_ntrip = None, se_rtcm = None, se_cleanups = [], se_stopped = []\<rparr>"

record outside =
  os_environ :: environ
  os_opa :: opa_service
  os_keys :: key_library
  os_read_file :: "string \<Rightarrow> bytes option"

text \<open>\<open>NTRIPCaster\<close> needs \<open>app.ctx.http_client_session\<close> unless there is a caster already.\<close>

fun run_listener :: "outside \<Rightarrow> listener \<Rightarrow> server \<Rightarrow> py_error + server" where
  "run_listener os RegisterSession s =
     (case register_session (se_session s) (se_pool s) of
        (attr, pool) \<Rightarrow> Inr (s\<lparr>se_pool := pool, se_session := attr, se_cleanups := se_cleanups s @ [CloseSession]\<rparr>))"
| "run_listener os (RequireEnv required) s = andThen (verify_environ (os_environ os) required) (\<lambda>_. Inr s)"
| "run_listener os NtripSetup s =
     (if se_ntrip s = None \<and> se_session s = None then Inl AttributeError
      else andThen (ntrip_setup (os_environ os) (os_opa os) (se_ntrip s)) (\<lambda>x. Inr (s\<lparr>se_ntrip := Some x\<rparr>)))"
| "run_listener os RtcmSetup s =
     andThen (rtcm_setup (os_keys os) (os_read_file os) (os_environ os) (se_ntrip s \<noteq> None)) (\<lambda>x.
       Inr (s\<lparr>se_rtcm := Some x\<rparr>))"

fun run_listeners :: "outside \<Rightarrow> listener list \<Rightarrow> server \<Rightarrow> py_error + server" where
  "run_listeners os [] s = Inr s"
| "run_listeners os (l # ls) s = andThen (run_listener os l s) (run_listeners os ls)"

definition start_server :: "outside \<Rightarrow> application \<Rightarrow> py_error + server" where
  "start_server os app = run_listeners os (sn_start app) new_server"

fun run_stopper :: "stopper \<Rightarrow> server \<Rightarrow> server" where
  "run_stopper CloseSession s =
     (case cleanup_session (se_session s) (se_pool s) of (attr, pool) \<Rightarrow> s\<lparr>se_pool := pool, se_session := attr\<rparr>)"
| "run_stopper NtripFinalize s =
     (case se_ntrip s of
        None \<Rightarrow> s
      | Some (_, c) \<Rightarrow> s\<lparr>se_ntrip := None, se_stopped := se_stopped s @ [stop c]\<rparr>)"
| "run_stopper RtcmFinalize s = s\<lparr>se_rtcm := map_option rtcm_finalize (se_rtcm s)\<rparr>"

text \<open>What Sanic runs at the end, in an order of its choice\<close>

definition stoppers :: "application \<Rightarrow> server \<Rightarrow> stopper list" where
  "stoppers app s = sn_stop app @ se_cleanups s"

section \<open>Assembled applications\<close>

lemma fold_add_blueprint:
  "sn_routes (fold add_blueprint bps app) = sn_routes app @ concat (map blueprint_routes bps)"
  "sn_start (fold add_blueprint bps app) = sn_start app @ concat (map bp_start bps)"
  "sn_stop (fold add_blueprint bps app) = sn_stop app @ concat (map bp_stop bps)"
  by (induction bps arbitrary: app) (simp_all add: add_blueprint_def)

lemma add_proposals_Inr:
  "add_proposals ps app = Inr app' \<longleftrightarrow> (\<exists>bps. map proposed ps = map Inr bps \<and> app' = fold add_blueprint bps app)"
proof (induction ps arbitrary: app)
  case (Cons p ps)
  then show ?case by (cases "proposed p") (auto simp: map_eq_Cons_conv Cons_eq_map_conv)
qed auto

text \<open>An application put together from blueprints in their order\<close>

definition assembled :: "blueprint list \<Rightarrow> application \<Rightarrow> bool" where
  "assembled bps app \<longleftrightarrow>
     sn_routes app = concat (map blueprint_routes bps) @ [(GET, route_segments ''/.info/healthz'', Healthz)] \<and>
     sn_start app = RegisterSession # concat (map bp_start bps) \<and> sn_stop app = concat (map bp_stop bps)"

lemma create_app_empty:
  "create_app environ args = Inr app \<Longrightarrow> sn_routes app = [] \<and> sn_start app = [RegisterSession] \<and> sn_stop app = []"
  by (auto simp: create_app_def andThen_Inr_iff)

lemma services_assembled:
  "services environ args = Inr app \<Longrightarrow> \<exists>bps. map proposed (ar_run args) = map Inr bps \<and> assembled bps app"
  by (auto simp: services_def andThen_Inr_iff add_proposals_Inr add_healthz_def assembled_def fold_add_blueprint
      dest: create_app_empty split: if_splits)

lemma standalone_assembled: "standalone environ args = Inr app \<Longrightarrow> assembled all_blueprints app"
  by (auto simp: standalone_def andThen_Inr_iff add_healthz_def assembled_def fold_add_blueprint dest: create_app_empty)

lemma split_pieces: "split_on c s = xs \<Longrightarrow> s = py_join [c] xs"
  using join_split_on [of c s] by simp

lemma proposed_Inr:
  "proposed p = Inr bp \<longleftrightarrow>
     (p, bp) \<in> {(''metrics=latest'', metrics_bp), (''ntrip=v1'', ntrip_bp), (''ntrip=latest'', ntrip_latest_bp), (''rtcm=v1'', rtcm_bp)}"
proof
  assume h: "proposed p = Inr bp"
  then obtain a b where "split_on (CHR ''='') p = [a, b]" and
    "andThen (load a) (\<lambda>group. map_sum Raised id (service_blueprint b group)) = Inr bp"
    by (auto simp: proposed_def split: list.splits)
  then show "(p, bp) \<in> {(''metrics=latest'', metrics_bp), (''ntrip=v1'', ntrip_bp), (''ntrip=latest'', ntrip_latest_bp), (''rtcm=v1'', rtcm_bp)}"
    by (auto dest!: split_pieces simp: andThen_Inr_iff load_def service_packages_def service_blueprint_def
        metrics_service_def ntrip_service_def rtcm_service_def split: if_splits option.splits)
next
  assume "(p, bp) \<in> {(''metrics=latest'', metrics_bp), (''ntrip=v1'', ntrip_bp), (''ntrip=latest'', ntrip_latest_bp), (''rtcm=v1'', rtcm_bp)}"
  then show "proposed p = Inr bp"
    by (auto simp: proposed_def load_def service_packages_def service_blueprint_def
        metrics_service_def ntrip_service_def rtcm_service_def)
qed

lemma proposed_from:
  "map proposed ps = map Inr bps \<Longrightarrow> set bps \<subseteq> set all_blueprints"
proof (induction ps arbitrary: bps)
  case (Cons p ps)
  then obtain b bs where bps: "bps = b # bs" "proposed p = Inr b" "map proposed ps = map Inr bs"
    by (auto simp: Cons_eq_map_conv)
  have "b \<in> set all_blueprints" using bps(2)
    by (auto simp: proposed_Inr all_blueprints_def service_packages_def metrics_service_def ntrip_service_def rtcm_service_def)
  with bps(1) Cons.IH [OF bps(3)] show ?case by simp
qed simp

text \<open>Either way the application is assembled from known blueprints.\<close>

lemma booted_assembled:
  assumes "standalone environ args = Inr app \<or> services environ args = Inr app"
  shows "\<exists>bps. set bps \<subseteq> set all_blueprints \<and> assembled bps app"
  using assms standalone_assembled services_assembled proposed_from by blast

section \<open>The router\<close>

type_synonym router = "route list \<Rightarrow> http_method \<Rightarrow> string list \<Rightarrow> (endpoint \<times> string list) option"

fun match_path :: "segment list \<Rightarrow> string list \<Rightarrow> string list option" where
  "match_path [] [] = Some []"
| "match_path (Static s # ss) (p # ps) = (if s = p then match_path ss ps else None)"
| "match_path (Param # ss) (p # ps) = (if p = [] then None else map_option (Cons p) (match_path ss ps))"
| "match_path _ _ = None"

text \<open>
  Documented behaviour of Sanic's router, for tables without two routes of the same method and path: a
  route without parameters goes first, a path that one route matches goes there with the values of its
  parameters, a path that none matches goes nowhere.
\<close>

definition sanic_router :: "router \<Rightarrow> bool" where
  "sanic_router R \<longleftrightarrow> (\<forall>rs m p. distinct (map (\<lambda>(m, ss, h). (m, ss)) rs) \<longrightarrow>
     (\<forall>h. (m, map Static p, h) \<in> set rs \<longrightarrow> R rs m p = Some (h, [])) \<and>
     (\<forall>ss h xs. (m, ss, h) \<in> set rs \<and> match_path ss p = Some xs \<and>
        (\<forall>(m', ss', h') \<in> set rs. m' = m \<and> match_path ss' p \<noteq> None \<longrightarrow> ss' = ss) \<longrightarrow> R rs m p = Some (h, xs)) \<and>
     ((\<forall>(m', ss', h') \<in> set rs. m' = m \<longrightarrow> match_path ss' p = None) \<longrightarrow> R rs m p = None))"

definition reserved_names :: "string list" where
  "reserved_names = [''NEAR'', ''NEAREST'', ''NSB'']"

lemma routes_of:
  "blueprint_routes metrics_bp = [(GET, [Static ''.info'', Static ''v1'', Static ''metrics''], MetricsScrape)]"
  "blueprint_routes rtcm_bp =
     [(GET, [Static ''api'', Static ''v1'', Static ''rtcm'', Static ''jwks.json''], Jwks),
      (POST, [Static ''api'', Static ''v1'', Static ''rtcm'', Static ''session''], CreateSession)]"
  "blueprint_routes ntrip_latest_bp =
     [(GET, [Static ''NEAR''], NearRoute), (GET, [Static ''NEAREST''], NearRoute), (GET, [Static ''NSB''], NearRoute),
      (PUT, [Param], PutRoute), (GET, [Static ''quality'', Param], QualitySingle), (GET, [Param], ReadRoute),
      (GET, [], SourcetableRoute)]"
  "blueprint_routes ntrip_bp =
     map (\<lambda>(m, ss, h). (m, [Static ''api'', Static ''v1'', Static ''ntrip''] @ ss, h)) (blueprint_routes ntrip_latest_bp)"
  "route_segments ''/.info/healthz'' = [Static ''.info'', Static ''healthz'']"
  by (simp_all add: blueprint_routes_def metrics_bp_def rtcm_bp_def ntrip_latest_bp_def ntrip_bp_def
      route_segments_def url_parts_def)

lemma all_blueprints_list: "all_blueprints = [metrics_bp, ntrip_bp, ntrip_latest_bp, rtcm_bp]"
  by (simp add: all_blueprints_def service_packages_def metrics_service_def ntrip_service_def rtcm_service_def)

lemma distinct_concat_map:
  assumes "distinct xs" "\<And>x. x \<in> set xs \<Longrightarrow> distinct (f x)"
    "\<And>x y. x \<in> set xs \<Longrightarrow> y \<in> set xs \<Longrightarrow> x \<noteq> y \<Longrightarrow> set (f x) \<inter> set (f y) = {}"
  shows "distinct (concat (map f xs))"
  using assms
proof (induction xs)
  case (Cons x xs)
  have "set (f x) \<inter> set (f y) = {}" if "y \<in> set xs" for y
    by (rule Cons.prems(3)) (use that Cons.prems(1) in auto)
  then have "set (f x) \<inter> set (concat (map f xs)) = {}" by auto
  moreover have "distinct (concat (map f xs))"
    by (rule Cons.IH) (use Cons.prems in auto)
  ultimately show ?case using Cons.prems(2) [of x] by simp
qed simp

definition route_keys :: "blueprint \<Rightarrow> (http_method \<times> segment list) list" where
  "route_keys bp = map (\<lambda>(m, ss, h). (m, ss)) (blueprint_routes bp)"

lemma known_keys:
  assumes "bp \<in> set all_blueprints"
  shows "distinct (route_keys bp)" "(GET, [Static ''.info'', Static ''healthz'']) \<notin> set (route_keys bp)"
    "bp' \<in> set all_blueprints \<Longrightarrow> bp \<noteq> bp' \<Longrightarrow> set (route_keys bp) \<inter> set (route_keys bp') = {}"
  using assms by (auto simp: route_keys_def all_blueprints_list routes_of)

lemma routes_distinct:
  assumes "distinct bps" "set bps \<subseteq> set all_blueprints" "assembled bps app"
  shows "distinct (map (\<lambda>(m, ss, h). (m, ss)) (sn_routes app))"
proof -
  have "map (\<lambda>(m, ss, h). (m, ss)) (sn_routes app) =
      concat (map route_keys bps) @ [(GET, [Static ''.info'', Static ''healthz''])]"
    using assms(3) by (simp add: assembled_def routes_of map_concat o_def route_keys_def [abs_def])
  moreover have "distinct (concat (map route_keys bps))"
    by (rule distinct_concat_map [OF assms(1)]) (use assms(2) known_keys in blast)+
  moreover have "(GET, [Static ''.info'', Static ''healthz'']) \<notin> set (concat (map route_keys bps))"
    using assms(2) known_keys(2) by auto
  ultimately show ?thesis by simp
qed

lemma known_route:
  assumes "set bps \<subseteq> set all_blueprints" "assembled bps app" "r \<in> set (sn_routes app)"
  shows "r \<in> set (concat (map blueprint_routes all_blueprints)) \<union> {(GET, [Static ''.info'', Static ''healthz''], Healthz)}"
  using assms by (auto simp: assembled_def routes_of)

lemma one_part_routes:
  assumes "set bps \<subseteq> set all_blueprints" "assembled bps app" "(method, ss, h) \<in> set (sn_routes app)" "match_path ss [m] = Some xs"
  shows "(method, ss, h) \<in> {(PUT, [Param], PutRoute), (GET, [Param], ReadRoute)} \<or>
    (method, ss, h) \<in> {(GET, [Static m], NearRoute)} \<and> m \<in> set reserved_names"
proof -
  have "\<forall>(method, ss, h) \<in> set (concat (map blueprint_routes all_blueprints)) \<union> {(GET, [Static ''.info'', Static ''healthz''], Healthz)}.
      match_path ss [m] \<noteq> None \<longrightarrow>
      (method, ss, h) \<in> {(PUT, [Param], PutRoute), (GET, [Param], ReadRoute)} \<or>
      (method, ss, h) \<in> {(GET, [Static m], NearRoute)} \<and> m \<in> set reserved_names"
    by (simp add: all_blueprints_list routes_of reserved_names_def)
  from bspec [OF this known_route [OF assms(1-3)]] assms(4) show ?thesis by simp
qed

lemma latest_routes:
  assumes "assembled bps app" "ntrip_latest_bp \<in> set bps"
  shows "set (blueprint_routes ntrip_latest_bp) \<subseteq> set (sn_routes app)"
  using assms by (auto simp: assembled_def)

lemma reserved_routes: "m \<in> set reserved_names \<Longrightarrow> (GET, [Static m], NearRoute) \<in> set (blueprint_routes ntrip_latest_bp)"
  by (auto simp: reserved_names_def routes_of)

lemma sanic_routerD:
  assumes "sanic_router R" "distinct (map (\<lambda>(m, ss, h). (m, ss)) rs)"
  shows "(m, map Static p, h) \<in> set rs \<Longrightarrow> R rs m p = Some (h, [])"
    "(m, ss, h) \<in> set rs \<Longrightarrow> match_path ss p = Some xs \<Longrightarrow>
      (\<And>ss' h'. (m, ss', h') \<in> set rs \<Longrightarrow> match_path ss' p \<noteq> None \<Longrightarrow> ss' = ss) \<Longrightarrow> R rs m p = Some (h, xs)"
proof -
  note law = assms(1) [unfolded sanic_router_def, THEN spec [of _ rs], THEN spec [of _ m], THEN spec [of _ p], THEN mp [OF _ assms(2)]]
  show "(m, map Static p, h) \<in> set rs \<Longrightarrow> R rs m p = Some (h, [])"
    using law by blast
  assume h: "(m, ss, h) \<in> set rs" "match_path ss p = Some xs"
    "\<And>ss' h'. (m, ss', h') \<in> set rs \<Longrightarrow> match_path ss' p \<noteq> None \<Longrightarrow> ss' = ss"
  have "\<forall>(m', ss', h') \<in> set rs. m' = m \<and> match_path ss' p \<noteq> None \<longrightarrow> ss' = ss"
    using h(3) by auto
  with h(1,2) show "R rs m p = Some (h, xs)"
    using law [THEN conjunct2, THEN conjunct1, THEN spec [of _ ss], THEN spec [of _ h], THEN spec [of _ xs]] by blast
qed

lemma names_routed:
  assumes "sanic_router R" "plain_name m" "distinct bps" "set bps \<subseteq> set all_blueprints" "assembled bps app"
    "ntrip_latest_bp \<in> set bps"
  shows "R (sn_routes app) PUT [m] = Some (PutRoute, [m])"
    "R (sn_routes app) GET [m] = (if m \<in> set reserved_names then Some (NearRoute, []) else Some (ReadRoute, [m]))"
proof -
  note d = sanic_routerD [OF assms(1) routes_distinct [OF assms(3-5)]]
  have m: "m \<noteq> []" using assms(2) by (auto simp: plain_name_def)
  have r: "(PUT, [Param], PutRoute) \<in> set (sn_routes app)" "(GET, [Param], ReadRoute) \<in> set (sn_routes app)"
    using latest_routes [OF assms(5,6)] by (simp_all add: routes_of)
  show "R (sn_routes app) PUT [m] = Some (PutRoute, [m])"
  proof (rule d(2) [OF r(1)])
    show "match_path [Param] [m] = Some [m]" using m by simp
    show "ss' = [Param]" if "(PUT, ss', h') \<in> set (sn_routes app)" "match_path ss' [m] \<noteq> None" for ss' h'
      using one_part_routes [OF assms(4,5) that(1)] that(2) by auto
  qed
  show "R (sn_routes app) GET [m] = (if m \<in> set reserved_names then Some (NearRoute, []) else Some (ReadRoute, [m]))"
  proof (cases "m \<in> set reserved_names")
    case True
    then have "(GET, map Static [m], NearRoute) \<in> set (sn_routes app)"
      using latest_routes [OF assms(5,6)] reserved_routes [OF True] by auto
    from d(1) [OF this] True show ?thesis by simp
  next
    case False
    have "R (sn_routes app) GET [m] = Some (ReadRoute, [m])"
    proof (rule d(2) [OF r(2)])
      show "match_path [Param] [m] = Some [m]" using m by simp
      show "ss' = [Param]" if "(GET, ss', h') \<in> set (sn_routes app)" "match_path ss' [m] \<noteq> None" for ss' h'
        using one_part_routes [OF assms(4,5) that(1)] that(2) False by auto
    qed
    with False show ?thesis by simp
  qed
qed

text \<open>
  Distinct proposals give distinct blueprints.
\<close>

lemma proposed_distinct:
  "map proposed ps = map Inr bps \<Longrightarrow> distinct ps \<Longrightarrow> distinct bps"
proof (induction ps arbitrary: bps)
  case (Cons p ps)
  then obtain b bs where bps: "bps = b # bs" "proposed p = Inr b" "map proposed ps = map Inr bs"
    by (auto simp: Cons_eq_map_conv)
  have "b \<notin> set bs"
  proof
    assume "b \<in> set bs"
    then have "Inr b \<in> set (map proposed ps)" using bps(3) by simp
    then obtain q where "q \<in> set ps" "proposed q = Inr b" by auto
    moreover have "proposed q = Inr b \<Longrightarrow> q = p"
      using bps(2) by (auto simp: proposed_Inr metrics_bp_def ntrip_bp_def ntrip_latest_bp_def rtcm_bp_def)
    ultimately show False using Cons.prems(2) by simp
  qed
  with Cons bps show ?case by simp
qed simp

lemma proposed_mem: "map proposed ps = map Inr bps \<Longrightarrow> p \<in> set ps \<Longrightarrow> proposed p = Inr b \<Longrightarrow> b \<in> set bps"
proof (induction ps arbitrary: bps)
  case (Cons q ps)
  then show ?case by (auto simp: Cons_eq_map_conv)
qed simp

section \<open>Who is reached\<close>


section \<open>What the listeners leave\<close>

lemma run_listeners_append: "run_listeners os (ls @ ls') s = andThen (run_listeners os ls s) (run_listeners os ls')"
proof (induction ls arbitrary: s)
  case (Cons l ls)
  then show ?case by (cases "run_listener os l s") auto
qed simp

definition ready_caster :: "outside \<Rightarrow> opa_client \<times> caster \<Rightarrow> bool" where
  "ready_caster os x \<longleftrightarrow>
     (\<exists>url. os_environ os ''OPA_URL'' = Some url \<and> x = (new_opa_client url (os_opa os), start (new_caster (Some 3600) 4096)))"

lemma ntrip_setup_None: "ntrip_setup (os_environ os) (os_opa os) None = Inr x \<Longrightarrow> ready_caster os x"
  by (auto simp: ntrip_setup_def ready_caster_def andThen_Inr_iff env_extract_optional as_str_def verify_environ_def Let_def
      split: option.splits if_splits)

lemma ntrip_setup_Some: "ntrip_setup (os_environ os) (os_opa os) (Some y) = Inr x \<Longrightarrow> x = y"
  by (auto simp: ntrip_setup_def andThen_Inr_iff)

text \<open>At most one session is opened, one caster made; the session comes first.\<close>

definition server_ok :: "outside \<Rightarrow> server \<Rightarrow> bool" where
  "server_ok os s \<longleftrightarrow>
     (se_session s = None \<and> se_pool s = new_pool \<or>
      se_session s = Some 0 \<and> se_pool s = \<lparr>po_session = Some 0, po_opened = 1, po_closed = []\<rparr> \<and> CloseSession \<in> set (se_cleanups s)) \<and>
     (\<forall>x. se_ntrip s = Some x \<longrightarrow> ready_caster os x) \<and> se_stopped s = []"

lemma run_listener_ok:
  assumes "server_ok os s" "run_listener os l s = Inr s'"
  shows "server_ok os s'"
proof (cases l)
  case NtripSetup
  show ?thesis
  proof (cases "se_ntrip s")
    case None
    with NtripSetup assms show ?thesis
      by (auto simp: server_ok_def andThen_Inr_iff dest: ntrip_setup_None split: if_splits)
  next
    case (Some y)
    with NtripSetup assms show ?thesis by (auto simp: server_ok_def andThen_Inr_iff dest: ntrip_setup_Some)
  qed
qed (use assms in \<open>auto simp: server_ok_def andThen_Inr_iff register_session_def new_pool_def\<close>)

lemma run_listeners_ok: "server_ok os s \<Longrightarrow> run_listeners os ls s = Inr s' \<Longrightarrow> server_ok os s'"
  by (induction ls arbitrary: s) (auto simp: andThen_Inr_iff dest: run_listener_ok)

lemma new_server_ok: "server_ok os new_server"
  by (simp add: server_ok_def new_server_def)

lemma run_listener_ntrip:
  "run_listener os l s = Inr s' \<Longrightarrow> (se_ntrip s' \<noteq> None) = (se_ntrip s \<noteq> None \<or> l = NtripSetup)"
  by (cases l) (auto simp: andThen_Inr_iff register_session_def split: option.splits if_splits)

lemma run_listeners_ntrip:
  "run_listeners os ls s = Inr s' \<Longrightarrow> (se_ntrip s' \<noteq> None) = (se_ntrip s \<noteq> None \<or> NtripSetup \<in> set ls)"
proof (induction ls arbitrary: s)
  case (Cons l ls)
  then obtain t where t: "run_listener os l s = Inr t" "run_listeners os ls t = Inr s'" by (auto simp: andThen_Inr_iff)
  from run_listener_ntrip [OF t(1)] Cons.IH [OF t(2)] show ?case by auto
qed simp

lemma run_listeners_rtcm:
  "run_listeners os ls s = Inr s' \<Longrightarrow> RtcmSetup \<notin> set ls \<Longrightarrow> se_rtcm s' = se_rtcm s"
proof (induction ls arbitrary: s)
  case (Cons l ls)
  then obtain t where t: "run_listener os l s = Inr t" "run_listeners os ls t = Inr s'" by (auto simp: andThen_Inr_iff)
  have "se_rtcm t = se_rtcm s" using t(1) Cons.prems(2)
    by (cases l) (auto simp: andThen_Inr_iff register_session_def split: option.splits if_splits)
  with Cons.IH [OF t(2)] Cons.prems(2) show ?case by simp
qed simp

lemma rtcm_setup_server:
  "rtcm_setup lib read_file environ has_caster = Inr x \<Longrightarrow> rx_server x = (rc_enabled (rx_config x) \<and> has_caster)"
  by (auto simp: rtcm_setup_def andThen_Inr_iff split: if_splits)

text \<open>The egress that the last RTCM blueprint sets up sees the casters set up before it.\<close>

lemma egress_after:
  assumes "assembled (bps @ rtcm_bp # bps') app" "rtcm_bp \<notin> set bps'" "set bps' \<subseteq> set all_blueprints" "start_server os app = Inr s"
  shows "\<exists>x. se_rtcm s = Some x \<and> rx_server x = (rc_enabled (rx_config x) \<and> (\<exists>bp \<in> set bps. NtripSetup \<in> set (bp_start bp)))"
proof -
  let ?ls = "RegisterSession # concat (map bp_start bps)"
  have "sn_start app = ?ls @ RtcmSetup # concat (map bp_start bps')"
    using assms(1) by (simp add: assembled_def rtcm_bp_def)
  with assms(4) have "andThen (run_listeners os ?ls new_server) (run_listeners os (RtcmSetup # concat (map bp_start bps'))) = Inr s"
    unfolding start_server_def by (simp only: run_listeners_append)
  then obtain t where t: "run_listeners os ?ls new_server = Inr t"
    and rest: "run_listeners os (RtcmSetup # concat (map bp_start bps')) t = Inr s"
    by (auto simp only: andThen_Inr_iff)
  from rest obtain x where x: "rtcm_setup (os_keys os) (os_read_file os) (os_environ os) (se_ntrip t \<noteq> None) = Inr x"
    "run_listeners os (concat (map bp_start bps')) (t\<lparr>se_rtcm := Some x\<rparr>) = Inr s"
    by (auto simp: andThen_Inr_iff)
  have "RtcmSetup \<notin> set (concat (map bp_start bps'))"
    using assms(2,3) by (auto simp: all_blueprints_list metrics_bp_def ntrip_bp_def ntrip_latest_bp_def)
  from run_listeners_rtcm [OF x(2) this] have "se_rtcm s = Some x" by simp
  moreover have "(se_ntrip t \<noteq> None) = (\<exists>bp \<in> set bps. NtripSetup \<in> set (bp_start bp))"
    using run_listeners_ntrip [OF t] by (auto simp: new_server_def)
  ultimately show ?thesis using rtcm_setup_server [OF x(1)] by simp
qed

lemma run_stopper_keeps:
  "se_ntrip s = None \<Longrightarrow> se_ntrip (run_stopper x s) = None"
  "se_session s = None \<Longrightarrow> se_session (run_stopper x s) = None"
  "\<not> (\<exists>y. se_rtcm s = Some y \<and> rx_server y) \<Longrightarrow> \<not> (\<exists>y. se_rtcm (run_stopper x s) = Some y \<and> rx_server y)"
  by (cases x; auto simp: cleanup_session_def rtcm_finalize_def split: option.split)+

lemma run_stopper_clears:
  "se_ntrip (run_stopper NtripFinalize s) = None" "se_session (run_stopper CloseSession s) = None"
  "\<not> (\<exists>y. se_rtcm (run_stopper RtcmFinalize s) = Some y \<and> rx_server y)"
  by (auto simp: cleanup_session_def rtcm_finalize_def split: option.split)

lemma fold_stays: "(\<And>x s. P s \<Longrightarrow> P (f x s)) \<Longrightarrow> P s \<Longrightarrow> P (fold f xs s)"
  by (induction xs arbitrary: s) auto

lemma fold_reaches: "(\<And>x s. P s \<Longrightarrow> P (f x s)) \<Longrightarrow> (\<And>s. P (f y s)) \<Longrightarrow> y \<in> set xs \<Longrightarrow> P (fold f xs s)"
  by (induction xs arbitrary: s) (auto intro: fold_stays)

text \<open>The session is closed when its attribute goes.\<close>

definition pool_ok :: "server \<Rightarrow> bool" where
  "pool_ok s \<longleftrightarrow>
     po_opened (se_pool s) \<le> 1 \<and> (case se_session s of
       None \<Rightarrow> open_sessions (se_pool s) = {}
     | Some i \<Rightarrow> i = 0 \<and> po_session (se_pool s) = Some 0)"

lemma pool_ok_stopper: "pool_ok s \<Longrightarrow> pool_ok (run_stopper x s)"
  by (cases x) (auto simp: pool_ok_def cleanup_session_def open_sessions_def split: option.splits)

lemma server_ok_pool: "server_ok os s \<Longrightarrow> pool_ok s"
  by (auto simp: server_ok_def pool_ok_def new_pool_def open_sessions_def)

text \<open>Casters are stopped as they are dropped: none is both.\<close>

lemma run_stoppers_casters:
  "se_stopped (fold run_stopper xs s) =
     se_stopped s @ (case se_ntrip s of None \<Rightarrow> [] | Some (_, c) \<Rightarrow> if NtripFinalize \<in> set xs then [stop c] else [])"
proof (induction xs arbitrary: s)
  case (Cons x xs)
  then show ?case by (cases x) (auto simp: cleanup_session_def split: option.split prod.split)
qed (simp split: option.split prod.split)

lemma casters_named:
  "(\<exists>b. proposed p = Inr b \<and> NtripSetup \<in> set (bp_start b)) = (p = ''ntrip=v1'' \<or> p = ''ntrip=latest'')"
proof -
  have "NtripSetup \<in> set (bp_start ntrip_bp)" "NtripSetup \<in> set (bp_start ntrip_latest_bp)"
    "NtripSetup \<notin> set (bp_start metrics_bp)" "NtripSetup \<notin> set (bp_start rtcm_bp)"
    by (simp_all add: metrics_bp_def ntrip_bp_def ntrip_latest_bp_def rtcm_bp_def)
  then show ?thesis by (auto simp: proposed_Inr)
qed

lemma proposed_split:
  assumes "map proposed (before @ p # after) = map Inr bps" "proposed p = Inr b"
  shows "\<exists>bps1 bps2. bps = bps1 @ b # bps2 \<and> map proposed before = map Inr bps1 \<and> map proposed after = map Inr bps2"
proof -
  have "map proposed before @ (Inr b # map proposed after) = map Inr bps" using assms by simp
  then obtain bps1 us where "bps = bps1 @ us" "map proposed before = map Inr bps1" "Inr b # map proposed after = map Inr us"
    by (auto dest: append_eq_map_conv [THEN iffD1])
  then show ?thesis by (cases us) auto
qed

lemma known_stop:
  assumes "bp \<in> set all_blueprints"
  shows "NtripSetup \<in> set (bp_start bp) \<Longrightarrow> NtripFinalize \<in> set (bp_stop bp)"
    "RtcmSetup \<in> set (bp_start bp) \<Longrightarrow> RtcmFinalize \<in> set (bp_stop bp)"
  using assms by (auto simp: all_blueprints_list metrics_bp_def ntrip_bp_def ntrip_latest_bp_def rtcm_bp_def)

lemma proposed_bex:
  "map proposed ps = map Inr bps \<Longrightarrow> (\<exists>b \<in> set bps. P b) = (\<exists>p \<in> set ps. \<exists>b. proposed p = Inr b \<and> P b)"
proof (induction ps arbitrary: bps)
  case (Cons p ps)
  then obtain b bs where "bps = b # bs" "proposed p = Inr b" "map proposed ps = map Inr bs"
    by (auto simp: Cons_eq_map_conv)
  with Cons.IH [of bs] show ?case by simp
qed simp

lemma run_listener_session:
  "run_listener os l s = Inr s' \<Longrightarrow> (se_session s' \<noteq> None) = (se_session s \<noteq> None \<or> l = RegisterSession)"
  by (cases l) (auto simp: andThen_Inr_iff register_session_def split: option.splits if_splits)

lemma run_listeners_session:
  "run_listeners os ls s = Inr s' \<Longrightarrow> (se_session s' \<noteq> None) = (se_session s \<noteq> None \<or> RegisterSession \<in> set ls)"
proof (induction ls arbitrary: s)
  case (Cons l ls)
  then obtain t where t: "run_listener os l s = Inr t" "run_listeners os ls t = Inr s'" by (auto simp: andThen_Inr_iff)
  from run_listener_session [OF t(1)] Cons.IH [OF t(2)] show ?case by auto
qed simp

text \<open>
  C29: The UDP egress starts exactly when it is enabled and an NTRIP service was named before the
  RTCM service on the command line; named after it, or not at all, the server runs without the egress.
\<close>

theorem egress_needs_an_earlier_caster:
  assumes "services environ args = Inr app" "ar_run args = before @ ''rtcm=v1'' # after" "''rtcm=v1'' \<notin> set after"
    "start_server os app = Inr s"
  shows "\<exists>x. se_rtcm s = Some x \<and>
    rx_server x = (rc_enabled (rx_config x) \<and> (''ntrip=v1'' \<in> set before \<or> ''ntrip=latest'' \<in> set before))"
proof -
  obtain bps where b: "map proposed (ar_run args) = map Inr bps" "assembled bps app"
    using services_assembled [OF assms(1)] by blast
  have r: "proposed ''rtcm=v1'' = Inr rtcm_bp" by (simp add: proposed_Inr)
  from proposed_split [OF b(1) [unfolded assms(2)] r] obtain bps1 bps2 where s: "bps = bps1 @ rtcm_bp # bps2"
    "map proposed before = map Inr bps1" "map proposed after = map Inr bps2" by blast
  have "rtcm_bp \<notin> set bps2"
  proof
    assume "rtcm_bp \<in> set bps2"
    then have "Inr rtcm_bp \<in> set (map proposed after)" using s(3) by simp
    then obtain q where "q \<in> set after" "proposed q = Inr rtcm_bp" by auto
    with assms(3) show False
      by (auto simp: proposed_Inr metrics_bp_def ntrip_bp_def ntrip_latest_bp_def rtcm_bp_def)
  qed
  from egress_after [OF _ this proposed_from [OF s(3)] assms(4)] b(2) s(1)
  obtain x where x: "se_rtcm s = Some x"
    "rx_server x = (rc_enabled (rx_config x) \<and> (\<exists>bp \<in> set bps1. NtripSetup \<in> set (bp_start bp)))" by blast
  have "(\<exists>bp \<in> set bps1. NtripSetup \<in> set (bp_start bp)) = (''ntrip=v1'' \<in> set before \<or> ''ntrip=latest'' \<in> set before)"
    unfolding proposed_bex [OF s(2)] by (simp add: casters_named) blast
  with x show ?thesis by blast
qed

text \<open>In the standalone application the service names sort the right way.\<close>

lemma standalone_egress:
  assumes "standalone environ args = Inr app" "start_server os app = Inr s"
  shows "\<exists>x. se_rtcm s = Some x \<and> rx_server x = rc_enabled (rx_config x)"
proof -
  have "assembled ([metrics_bp, ntrip_bp, ntrip_latest_bp] @ rtcm_bp # []) app"
    using standalone_assembled [OF assms(1)] by (simp add: all_blueprints_list)
  from egress_after [OF this _ _ assms(2)] show ?thesis by (simp add: ntrip_bp_def)
qed


section \<open>Two applications in one process\<close>

text \<open>
  The class remembers the last session only: when two applications run in one process, the end of the
  first closes the session of the second, and the first session stays open for good.
\<close>

lemma second_application_takes_the_session:
  assumes "register_session None new_pool = (a, pool1)" "register_session None pool1 = (b, pool2)"
    "cleanup_session a pool2 = (a', pool3)"
  shows "b = Some 1 \<and> b \<noteq> a \<and> 1 \<notin> open_sessions pool3 \<and> 0 \<in> open_sessions (snd (cleanup_session b pool3))"
  using assms by (auto simp: register_session_def cleanup_session_def new_pool_def open_sessions_def)

section \<open>Witnesses\<close>

text \<open>A router: the route without parameters, else the first that matches\<close>

definition demo_router :: router where
  "demo_router rs m p =
     (case filter (\<lambda>(m', ss, h). m' = m \<and> ss = map Static p) rs of
        (_, _, h) # _ \<Rightarrow> Some (h, [])
      | [] \<Rightarrow>
          (case filter (\<lambda>(m', ss, h). m' = m \<and> match_path ss p \<noteq> None) rs of
             (_, ss, h) # _ \<Rightarrow> map_option (Pair h) (match_path ss p)
           | [] \<Rightarrow> None))"

lemma match_static [simp]: "match_path (map Static p) p = Some []"
  by (induction p) auto

lemma key_decides:
  "distinct (map (\<lambda>(m, ss, h). (m, ss)) rs) \<Longrightarrow> (m, ss, h) \<in> set rs \<Longrightarrow> (m, ss, h') \<in> set rs \<Longrightarrow> h = h'"
  by (induction rs) force+

lemma filter_head: "filter P xs = y # ys \<Longrightarrow> y \<in> set xs \<and> P y"
  by (auto simp: filter_eq_Cons_iff)

lemma demo_router_static:
  assumes "distinct (map (\<lambda>(m, ss, h). (m, ss)) rs)" "(m, map Static p, h) \<in> set rs"
  shows "demo_router rs m p = Some (h, [])"
proof (cases "filter (\<lambda>(m', ss, h). m' = m \<and> ss = map Static p) rs")
  case Nil
  then have "\<forall>r \<in> set rs. \<not> (\<lambda>(m', ss, h). m' = m \<and> ss = map Static p) r" by (simp only: filter_empty_conv)
  with assms(2) show ?thesis by blast
next
  case (Cons r rest)
  with filter_head [OF Cons] obtain h' where "r = (m, map Static p, h')" "(m, map Static p, h') \<in> set rs"
    by (cases r) auto
  with Cons key_decides [OF assms] show ?thesis by (simp add: demo_router_def)
qed

lemma demo_router_param:
  assumes "distinct (map (\<lambda>(m, ss, h). (m, ss)) rs)" "(m, ss, h) \<in> set rs" "match_path ss p = Some xs"
    "\<forall>(m', ss', h') \<in> set rs. m' = m \<and> match_path ss' p \<noteq> None \<longrightarrow> ss' = ss"
  shows "demo_router rs m p = Some (h, xs)"
proof (cases "filter (\<lambda>(m', ss, h). m' = m \<and> ss = map Static p) rs")
  case static: Nil
  show ?thesis
  proof (cases "filter (\<lambda>(m', ss, h). m' = m \<and> match_path ss p \<noteq> None) rs")
    case Nil
    then have "\<forall>r \<in> set rs. \<not> (\<lambda>(m', ss, h). m' = m \<and> match_path ss p \<noteq> None) r" by (simp only: filter_empty_conv)
    with assms(2,3) show ?thesis by fastforce
  next
    case (Cons r rest)
    with filter_head [OF Cons] obtain ss' h' where r: "r = (m, ss', h')" "(m, ss', h') \<in> set rs" "match_path ss' p \<noteq> None"
      by (cases r) auto
    with assms(4) have "ss' = ss" by fastforce
    with r key_decides [OF assms(1,2)] static Cons assms(3) show ?thesis by (simp add: demo_router_def)
  qed
next
  case (Cons r rest)
  with filter_head [OF Cons] obtain h' where r: "r = (m, map Static p, h')" "(m, map Static p, h') \<in> set rs"
    by (cases r) auto
  with assms(4) have "map Static p = ss" by fastforce
  with demo_router_static [OF assms(1)] assms(2,3) show ?thesis by auto
qed

lemma demo_router_none:
  assumes "\<forall>(m', ss', h') \<in> set rs. m' = m \<longrightarrow> match_path ss' p = None"
  shows "demo_router rs m p = None"
proof -
  have "filter (\<lambda>(m', ss, h). m' = m \<and> ss = map Static p) rs = []" "filter (\<lambda>(m', ss, h). m' = m \<and> match_path ss p \<noteq> None) rs = []"
    using assms by (auto simp: filter_empty_conv)
  then show ?thesis by (simp add: demo_router_def)
qed

lemma demo_router_ok: "sanic_router demo_router"
  unfolding sanic_router_def
proof (intro allI impI conjI)
  fix rs :: "route list" and m p ss h xs
  assume d: "distinct (map (\<lambda>(m, ss, h). (m, ss)) rs)"
  show "(m, map Static p, h) \<in> set rs \<Longrightarrow> demo_router rs m p = Some (h, [])"
    by (rule demo_router_static [OF d])
  show "(m, ss, h) \<in> set rs \<and> match_path ss p = Some xs \<and>
      (\<forall>(m', ss', h') \<in> set rs. m' = m \<and> match_path ss' p \<noteq> None \<longrightarrow> ss' = ss) \<Longrightarrow> demo_router rs m p = Some (h, xs)"
    by (elim conjE) (rule demo_router_param [OF d])
  show "\<forall>(m', ss', h') \<in> set rs. m' = m \<longrightarrow> match_path ss' p = None \<Longrightarrow> demo_router rs m p = None"
    by (rule demo_router_none)
qed

definition boot_environ :: environ where
  "boot_environ = demo_environ(''OPA_URL'' := Some ''http://opa:8181'', ''AUTH_RATELIMIT_ENABLED'' := Some ''false'')"

definition demo_outside :: outside where
  "demo_outside = \<lparr>os_environ = boot_environ, os_opa = (\<lambda>_ _. Reply 500 None), os_keys = demo_keys, os_read_file = (\<lambda>_. None)\<rparr>"

definition demo_arguments :: "string list \<Rightarrow> boot_arguments" where
  "demo_arguments run = \<lparr>ar_run = run, ar_reverse_proxy_count = 0, ar_header_real_ip = ''x-real-ip''\<rparr>"

lemma boot_initialize: "initialize boot_environ = Inr None"
proof -
  have "map to_lower (py_strip ''false'') = ''false''" by code_simp
  then show ?thesis by (simp add: initialize_def flag_cases boot_environ_def Let_def)
qed

lemma demo_standalone: "\<exists>app. standalone boot_environ (demo_arguments []) = Inr app"
  by (simp add: standalone_def create_app_def boot_initialize)


lemma demo_services:
  "services boot_environ (demo_arguments [''ntrip=latest'', ''rtcm=v1'']) =
     Inr (add_healthz (add_blueprint rtcm_bp (add_blueprint ntrip_latest_bp
       \<lparr>sn_proxies = None, sn_limiter = None, sn_routes = [], sn_start = [RegisterSession], sn_stop = []\<rparr>)))"
proof -
  have "proposed ''ntrip=latest'' = Inr ntrip_latest_bp" "proposed ''rtcm=v1'' = Inr rtcm_bp" by (simp_all add: proposed_Inr)
  then show ?thesis by (simp add: services_def create_app_def boot_initialize demo_arguments_def)
qed

lemma demo_ntrip_setup: "ntrip_setup boot_environ session None = Inr (new_opa_client ''http://opa:8181'' session, start (new_caster (Some 3600) 4096))"
  by (simp add: ntrip_setup_def verify_environ_def boot_environ_def env_extract_optional as_str_def)

lemma demo_start:
  "\<exists>app s. services boot_environ (demo_arguments [''ntrip=latest'', ''rtcm=v1'']) = Inr app \<and>
     start_server demo_outside app = Inr s \<and> se_ntrip s \<noteq> None \<and> (\<exists>x. se_rtcm s = Some x \<and> rc_enabled (rx_config x))"
proof -
  obtain x where x: "rtcm_setup demo_keys (\<lambda>_. None) boot_environ True = Inr x" "rc_enabled (rx_config x)"
    using demo_load_with unfolding boot_environ_def by blast
  have v: "verify_environ boot_environ [''OPA_URL''] = Inr ()" by (simp add: verify_environ_def boot_environ_def)
  show ?thesis
    unfolding demo_services
    by (simp add: start_server_def add_healthz_def add_blueprint_def ntrip_latest_bp_def ntrip_bp_def rtcm_bp_def
        register_session_def new_server_def demo_outside_def v demo_ntrip_setup x)
qed

theorem egress_needs_an_earlier_caster_witness:
  "\<exists>app s x. services boot_environ (demo_arguments [''ntrip=latest'', ''rtcm=v1'']) = Inr app \<and>
     start_server demo_outside app = Inr s \<and> se_rtcm s = Some x \<and> rx_server x"
proof -
  obtain app s x where d: "services boot_environ (demo_arguments [''ntrip=latest'', ''rtcm=v1'']) = Inr app"
    "start_server demo_outside app = Inr s" "se_rtcm s = Some x" "rc_enabled (rx_config x)"
    using demo_start by blast
  from egress_needs_an_earlier_caster [of boot_environ "demo_arguments [''ntrip=latest'', ''rtcm=v1'']" app "[''ntrip=latest'']" "[]"
      demo_outside s] d
  show ?thesis by (auto simp: demo_arguments_def)
qed


end
