(* ===== verification/Display.thy ===== *)
theory Display
  imports Here4 "HOL-Library.Multiset"
begin

text \<open>
  The terminal display and the log of the base client \<open>tools/here4-base-caster.py\<close>: which panels
  \<open>build_display\<close> shows, with what in their cells. A number is kept with the decimals it is printed
  with; the ellipsis, the arrow, the check mark and the block characters are spelled in ASCII or
  counted. \<open>rich\<close> is a parameter that says which markup it accepts.
\<close>

section \<open>Cells and panels\<close>

text \<open>
  A plain string, a \<open>Text\<close> with its style, a number with its decimals and what follows it, the bar of
  a signal with its filled and empty blocks, the sparkline.
\<close>

datatype cell =
    Words string
  | Styled string string
  | Decimals nat pyfloat string
  | SignalBar int int int string
  | Sparkline "int list"

record panel =
  pn_title :: string
  pn_rows :: "cell list list"

definition degree :: string where "degree = [CHR 0xB0]"

fun state_name :: "here4_state \<Rightarrow> string" where
  "state_name SEARCHING = ''SEARCHING''"
| "state_name CONNECTING = ''CONNECTING''"
| "state_name MONITORING = ''MONITORING''"
| "state_name SURVEY_IN = ''SURVEY_IN''"
| "state_name FIXED = ''FIXED''"

fun state_color :: "here4_state \<Rightarrow> string" where
  "state_color SEARCHING = ''yellow''"
| "state_color CONNECTING = ''cyan''"
| "state_color MONITORING = ''blue''"
| "state_color SURVEY_IN = ''magenta''"
| "state_color FIXED = ''green''"

fun caster_state_style :: "link_state \<Rightarrow> string \<times> string" where
  "caster_state_style Disconnected = (''dim'', ''DISCONNECTED'')"
| "caster_state_style LinkConnecting = (''yellow'', ''CONNECTING...'')"
| "caster_state_style Streaming = (''green'', ''STREAMING'')"
| "caster_state_style LinkError = (''red'', ''ERROR'')"

definition FIX_NAMES :: "(int, string) dict" where
  "FIX_NAMES = [(0, ''No fix''), (1, ''Dead reckoning''), (2, ''2D''), (3, ''3D''), (4, ''GNSS + DR''), (5, ''Time only'')]"

definition GNSS_NAMES :: "(int, string) dict" where
  "GNSS_NAMES = [(0, ''GPS''), (1, ''SBAS''), (2, ''Galileo''), (3, ''BDS''), (4, ''IMES''), (5, ''QZSS''), (6, ''GLONASS'')]"

definition cno_bar :: "int \<Rightarrow> cell" where
  "cno_bar cno =
     SignalBar (cno_filled cno) (10 - cno_filled cno) cno
       (if cno \<ge> 35 then ''green'' else if cno \<ge> 20 then ''yellow'' else ''red'')"

section \<open>The panels\<close>

definition banner_panel :: "gnss \<Rightarrow> panel" where
  "banner_panel g = \<lparr>pn_title = ''[bold]Here4 RTK Base Station Prototype[/bold]'',
     pn_rows = [[Styled (''  '' @ state_name (gn_state g) @ ''  '' @ gn_port g @ ''  '') (''bold white on '' @ state_color (gn_state g))]]\<rparr>"

definition pvt_panel :: "gnss \<Rightarrow> panel" where
  "pvt_panel g =
     (let gnss_fix_ok = gn_fix_ok g \<and> gn_fix_type g \<ge> 3;
          fix_style = (if gnss_fix_ok then ''green'' else if gn_fix_type g > 0 then ''yellow'' else ''red'') in
      \<lparr>pn_title = ''Position & Velocity'',
       pn_rows =
        [[Words ''UTC'', Words (gn_utc_time g), Words ''Fix'', Styled (opt_default ''?'' (map_of FIX_NAMES (gn_fix_type g))) fix_style],
         [Words ''Latitude'', Decimals 8 (gn_lat g) degree, Words ''Longitude'', Decimals 8 (gn_lon g) degree],
         [Words ''Alt (MSL)'', Decimals 3 (Fin (gn_alt g)) '' m'', Words ''Speed'', Decimals 3 (Fin (gn_speed g)) '' m/s''],
         [Words ''H-Acc'', Decimals 3 (Fin (gn_h_acc g)) '' m'', Words ''V-Acc'', Decimals 3 (Fin (gn_v_acc g)) '' m''],
         [Words ''pDOP'', Decimals 2 (Fin (gn_pdop g)) [], Words ''SVs used'', Words (str_of_int (gn_num_sv g))]]\<rparr>)"

definition survey_panel :: "gnss \<Rightarrow> panel" where
  "survey_panel g = \<lparr>pn_title = ''Survey-In'',
     pn_rows =
      [[Words ''Valid'', if gn_svin_valid g then Styled ''YES'' ''green'' else Styled ''NO'' ''red''],
       [Words ''Duration'', Words (str_of_int (gn_svin_dur g) @ '' s  (min 60 s)'')],
       [Words ''Mean Accuracy'', Decimals 3 (Fin (gn_svin_acc g)) '' m  (limit 2.0 m)''],
       [Words ''Observations'', Words (str_of_int (gn_svin_obs g))]]\<rparr>"

definition rtcm_panel :: "gnss \<Rightarrow> panel" where
  "rtcm_panel g = \<lparr>pn_title = ''RTCM Corrections Output'',
     pn_rows = [[Words ''Messages'', Words (str_of_nat (gn_rtcm_msgs g))], [Words ''Bytes'', Words (str_of_nat (gn_rtcm_bytes g))]]\<rparr>"

text \<open>\<open>sent\<close>: \<open>caster_msgs\<close> and \<open>caster_bytes\<close>\<close>

definition caster_panel :: "caster_link \<Rightarrow> nat \<times> nat \<Rightarrow> string \<Rightarrow> panel" where
  "caster_panel l sent url =
     (case caster_state_style (lk_state l) of (style, label) \<Rightarrow>
      \<lparr>pn_title = ''NTRIP Caster Push'',
       pn_rows =
        [[Words ''Caster URL'', Words url], [Words ''Status'', Styled label (''bold '' @ style)]] @
        (if lk_state l = Streaming
         then [[Words ''Msgs sent'', Styled (str_of_nat (fst sent)) ''green''], [Words ''Bytes sent'', Styled (str_of_nat (snd sent)) ''green'']]
         else []) @
        (if lk_state l = LinkError \<and> lk_error l \<noteq> [] then [[Words ''Last error'', Styled (lk_error l) ''red'']] else [])\<rparr>)"

definition trend_panel :: "nat \<Rightarrow> real list \<Rightarrow> panel" where
  "trend_panel columns history = \<lparr>pn_title = ''H-Acc trend  [dim](better downwards)[/dim]'',
     pn_rows =
      [[Sparkline (sparkline columns history)],
       [Words ''min'', Decimals 2 (Fin (Min (set history))) '' m'', Words ''max'', Decimals 2 (Fin (Max (set history))) '' m'',
        Words ''now'', Decimals 2 (Fin (last history)) '' m'', Words (str_of_nat (length history) @ '' s of history'')]]\<rparr>"

definition log_panel :: "string list \<Rightarrow> panel" where
  "log_panel lines = \<lparr>pn_title = ''Logs'', pn_rows = map (\<lambda>l. [Words l]) lines\<rparr>"

text \<open>\<open>sorted(..., key=cno, reverse=True)[:16]\<close>: satellites of equal strength keep their order.\<close>

definition shown_satellites :: "satellite list \<Rightarrow> satellite list" where
  "shown_satellites sats = take 16 (sort_key (\<lambda>s. - st_cno s) sats)"

definition satellite_row :: "satellite \<Rightarrow> cell list" where
  "satellite_row s =
     [Words (str_of_int (st_sv_id s)), Words (opt_default ''?'' (map_of GNSS_NAMES (st_gnss_id s))), Words (str_of_int (st_elev s)),
      Words (str_of_int (st_azim s)), cno_bar (st_cno s), if st_used s then Styled ''x'' ''green'' else Styled ''.'' ''dim'']"

definition satellite_panel :: "satellite list \<Rightarrow> panel" where
  "satellite_panel sats = \<lparr>pn_title = ''Satellites ('' @ str_of_nat (length sats) @ '' tracked)'',
     pn_rows = map satellite_row (shown_satellites sats)\<rparr>"

definition show_if :: "bool \<Rightarrow> panel \<Rightarrow> panel list" where
  "show_if b p = (if b then [p] else [])"

definition build_display :: "nat \<Rightarrow> gnss \<Rightarrow> caster_link \<Rightarrow> nat \<times> nat \<Rightarrow> string option \<Rightarrow> string list \<Rightarrow> panel list" where
  "build_display columns g l sent caster_url log_lines =
     [banner_panel g, pvt_panel g] @
     show_if (gn_state g = SURVEY_IN \<or> gn_state g = FIXED) (survey_panel g) @
     show_if (gn_state g = FIXED) (rtcm_panel g) @
     (case caster_url of None \<Rightarrow> [] | Some url \<Rightarrow> [caster_panel l sent url]) @
     show_if (length (gn_h_acc_history g) \<ge> 2) (trend_panel columns (gn_h_acc_history g)) @
     show_if (log_lines \<noteq> []) (log_panel log_lines) @
     show_if (gn_satellites g \<noteq> []) (satellite_panel (gn_satellites g))"

section \<open>The log\<close>

text \<open>
  \<open>renders\<close>: whether rich accepts a text as markup; \<open>MarkupError\<close> is an error that is none of the
  listed kinds. The entry is kept before the console is asked.
\<close>

datatype log_error = MarkupError

definition write_log :: "(string \<Rightarrow> bool) \<Rightarrow> string \<Rightarrow> string \<Rightarrow> string list \<Rightarrow> (log_error + unit) \<times> string list" where
  "write_log renders ts msg lines =
     (if renders msg then Inr () else Inl MarkupError, keep_last 20 (lines @ [''[dim]'' @ ts @ ''[/dim] '' @ msg]))"

text \<open>
  The handler of \<open>caster_loop\<close> for any exception but a cancellation: the seconds it sleeps and the link
  afterwards, or the error that leaves the loop.
\<close>

definition caster_failure ::
  "(string \<Rightarrow> bool) \<Rightarrow> string \<Rightarrow> string \<Rightarrow> caster_link \<times> string list \<Rightarrow> (log_error + real) \<times> caster_link \<times> string list" where
  "caster_failure renders ts exc st =
     (case st of (l, lines) \<Rightarrow>
       (case write_log renders ts
               (''[red]Caster error[/red] (retry in '' @ str_of_int (round_half_even (lk_backoff l)) @ '' s): '' @ exc) lines of
          (Inl e, lines) \<Rightarrow> (Inl e, l\<lparr>lk_state := LinkError, lk_error := exc\<rparr>, lines)
        | (Inr _, lines) \<Rightarrow> (case link_failed exc l of (d, l) \<Rightarrow> (Inr d, l, lines))))"

section \<open>Properties\<close>

lemma write_log_bounded: "length (snd (write_log renders ts msg lines)) \<le> 20"
  by (simp add: write_log_def window)

text \<open>
  What the caster answers ends up in the log as markup: an error text that is no valid markup, such as a
  closing tag without its opening one, raises inside the handler and leaves the loop, and with it the
  client, instead of being retried.
\<close>

lemma unreadable_error_ends_the_client:
  assumes "\<not> renders (''[red]Caster error[/red] (retry in '' @ str_of_int (round_half_even (lk_backoff l)) @ '' s): '' @ exc)"
  shows "fst (caster_failure renders ts exc (l, lines)) = Inl MarkupError"
  using assms by (simp add: caster_failure_def write_log_def)

lemma readable_error_is_retried:
  assumes "\<And>s. renders s"
  shows "caster_failure renders ts exc (l, lines) =
    (Inr (lk_backoff l), snd (link_failed exc l), snd (write_log renders ts
       (''[red]Caster error[/red] (retry in '' @ str_of_int (round_half_even (lk_backoff l)) @ '' s): '' @ exc) lines))"
  using assms by (simp add: caster_failure_def write_log_def link_failed_def)

text \<open>The signal table shows the strongest: as many as there are, at most 16, none weaker than one left out.\<close>

lemma sorted_take_drop:
  "sorted (map f xs) \<Longrightarrow> x \<in> set (take n xs) \<Longrightarrow> y \<in> set (drop n xs) \<Longrightarrow> f x \<le> f y"
proof -
  assume "sorted (map f xs)" "x \<in> set (take n xs)" "y \<in> set (drop n xs)"
  moreover have "map f xs = map f (take n xs) @ map f (drop n xs)"
    by (metis append_take_drop_id map_append)
  ultimately show ?thesis by (auto simp: sorted_append)
qed

theorem strongest_satellites_shown:
  "length (shown_satellites sats) = min 16 (length sats) \<and>
   (\<exists>rest. mset sats = mset (shown_satellites sats) + mset rest \<and>
      (\<forall>s \<in> set (shown_satellites sats). \<forall>r \<in> set rest. st_cno r \<le> st_cno s))"
proof -
  let ?xs = "sort_key (\<lambda>s. - st_cno s) sats"
  have "mset sats = mset (take 16 ?xs) + mset (drop 16 ?xs)"
    by (metis append_take_drop_id mset_append mset_sort)
  moreover have "\<forall>s \<in> set (take 16 ?xs). \<forall>r \<in> set (drop 16 ?xs). st_cno r \<le> st_cno s"
    using sorted_take_drop [OF sorted_sort_key [of "\<lambda>s. - st_cno s" sats]] by fastforce
  ultimately show ?thesis
    unfolding shown_satellites_def by (intro conjI exI [of _ "drop 16 ?xs"]) auto
qed

text \<open>
  The counters of the panel: corrections are only reported once the position is fixed, an error text
  only while the link is in error.
\<close>

theorem panels_follow_the_state:
  "(rtcm_panel g \<in> set (build_display columns g l sent url lines) \<longrightarrow> gn_state g = FIXED) \<and>
   ([Words ''Last error'', Styled e ''red''] \<in> set (pn_rows (caster_panel l sent u)) \<longrightarrow> lk_state l = LinkError \<and> lk_error l = e)"
  by (cases "lk_state l")
     (auto simp: build_display_def show_if_def rtcm_panel_def banner_panel_def pvt_panel_def survey_panel_def caster_panel_def
       trend_panel_def log_panel_def satellite_panel_def Let_def split: option.splits if_splits)

end
