(* ===== verification/Websockets.thy ===== *)
theory Websockets
  imports CorsPrelude
begin

text \<open>
  \<open>http/websocket.py\<close>: the registry of websocket sessions and their tasks. The blocks under the lock
  await nothing, so each is one step; between them the handlers and \<open>cleanup\<close> interleave freely.
\<close>

section \<open>The registry\<close>

text \<open>
  Websockets and tasks are numbers. Beside the registry: the contexts that were entered and not left,
  the tasks whose cancellation was requested, and what a running \<open>cleanup\<close> still waits for.
\<close>

record ws_manager =
  ws_sessions :: "(nat, nat) dict"
  ws_contexts :: "(nat \<times> nat) set"
  ws_cancelled :: "nat set"
  ws_awaited :: "nat list"

definition new_ws_manager :: ws_manager where
  "new_ws_manager = \<lparr>ws_sessions = [], ws_contexts = {}, ws_cancelled = {}, ws_awaited = []\<rparr>"

text \<open>\<open>__call__\<close>: up to \<open>yield\<close>, in task \<open>t\<close>; and its \<open>finally\<close>\<close>

definition enter_session :: "nat \<Rightarrow> nat \<Rightarrow> ws_manager \<Rightarrow> ws_manager" where
  "enter_session ws t m = m\<lparr>ws_sessions := AList.update ws t (ws_sessions m), ws_contexts := insert (ws, t) (ws_contexts m)\<rparr>"

definition leave_session :: "nat \<Rightarrow> nat \<Rightarrow> ws_manager \<Rightarrow> ws_manager" where
  "leave_session ws t m = m\<lparr>ws_sessions := AList.delete ws (ws_sessions m), ws_contexts := ws_contexts m - {(ws, t)}\<rparr>"

text \<open>The block of \<open>cleanup\<close> under the lock\<close>

definition cleanup_begin :: "ws_manager \<Rightarrow> ws_manager" where
  "cleanup_begin m =
     (let tasks = map snd (ws_sessions m) in
      m\<lparr>ws_cancelled := ws_cancelled m \<union> set tasks, ws_sessions := [], ws_awaited := tasks\<rparr>)"

text \<open>
  How an awaited task ended: cancelled or returned, or with an exception that \<open>suppress\<close> does not stop.
  The tasks that are awaited to their end, and whether all were.
\<close>

datatype task_end = TaskEnded | RaisedOther

fun await_tasks :: "(nat \<Rightarrow> task_end) \<Rightarrow> nat list \<Rightarrow> nat list \<times> bool" where
  "await_tasks ends [] = ([], True)"
| "await_tasks ends (t # ts) =
     (case ends t of
        TaskEnded \<Rightarrow> (case await_tasks ends ts of (done, ok) \<Rightarrow> (t # done, ok))
      | RaisedOther \<Rightarrow> ([t], False))"

inductive ws_step :: "ws_manager \<Rightarrow> ws_manager \<Rightarrow> bool" where
  enters: "ws \<notin> fst ` ws_contexts m \<Longrightarrow> ws_step m (enter_session ws t m)"
| leaves: "(ws, t) \<in> ws_contexts m \<Longrightarrow> ws_step m (leave_session ws t m)"
| cleans: "ws_step m (cleanup_begin m)"

inductive_cases ws_step_cases: "ws_step m m'"

section \<open>The invariant\<close>

text \<open>
  When every handler has a websocket of its own, as Sanic gives it: no websocket is in two contexts, every
  registered session is an open context with its task, and an open context that is not registered was
  reached by a cleanup.
\<close>

definition ws_ok :: "ws_manager \<Rightarrow> bool" where
  "ws_ok m \<longleftrightarrow> dict_ok (ws_sessions m) \<and>
     (\<forall>ws t t'. (ws, t) \<in> ws_contexts m \<longrightarrow> (ws, t') \<in> ws_contexts m \<longrightarrow> t = t') \<and>
     (\<forall>ws t. map_of (ws_sessions m) ws = Some t \<longrightarrow> (ws, t) \<in> ws_contexts m) \<and>
     (\<forall>ws t. (ws, t) \<in> ws_contexts m \<longrightarrow> map_of (ws_sessions m) ws = Some t \<or> t \<in> ws_cancelled m)"

lemma ws_ok_enter:
  assumes "ws_ok m" "ws \<notin> fst ` ws_contexts m"
  shows "ws_ok (enter_session ws t m)"
  using assms unfolding ws_ok_def enter_session_def
  by (auto simp: dict_simps image_iff simp del: map_of_eq_Some_iff) (metis+)?

lemma ws_ok_leave:
  assumes "ws_ok m" "(ws, t) \<in> ws_contexts m"
  shows "ws_ok (leave_session ws t m)"
  using assms unfolding ws_ok_def leave_session_def
  by (auto simp: dict_simps dict_ok_pop simp del: map_of_eq_Some_iff) (metis+)?

lemma ws_ok_cleanup:
  assumes "ws_ok m"
  shows "ws_ok (cleanup_begin m)"
proof -
  have "map_of (ws_sessions m) ws = Some t \<Longrightarrow> t \<in> snd ` set (ws_sessions m)" for ws t
    by (force dest: map_of_SomeD)
  with assms show ?thesis unfolding ws_ok_def cleanup_begin_def Let_def by (auto simp del: map_of_eq_Some_iff) blast
qed

lemma new_ws_manager_ok: "ws_ok new_ws_manager"
  by (simp add: ws_ok_def new_ws_manager_def)

interpretation ws_sys: invariant_system "\<lambda>m. m = new_ws_manager" ws_step ws_ok
  by unfold_locales (auto simp: new_ws_manager_ok ws_ok_enter ws_ok_leave ws_ok_cleanup elim: ws_step_cases)

section \<open>Properties\<close>

text \<open>
  However handlers come and go, a cleanup reaches every handler: after it, each task that is still inside
  its context has been asked to stop, and the registry is empty.
\<close>

theorem cleanup_reaches_every_handler:
  assumes "reach (\<lambda>m. m = new_ws_manager) ws_step m"
  shows "ws_sessions (cleanup_begin m) = [] \<and>
    (\<forall>(ws, t) \<in> ws_contexts (cleanup_begin m). t \<in> ws_cancelled (cleanup_begin m))"
proof -
  have ok: "ws_ok m" using ws_sys.reach_inv [OF assms] .
  show ?thesis
    using ws_ok_cleanup [OF ok] by (auto simp: ws_ok_def cleanup_begin_def Let_def)
qed

lemma await_all: "(\<forall>t \<in> set ts. ends t = TaskEnded) \<Longrightarrow> await_tasks ends ts = (ts, True)"
  by (induction ts) auto

text \<open>The first task that ends with another exception ends the waiting: the others are not waited for.\<close>

lemma await_stops:
  "\<forall>t \<in> set ts. ends t = TaskEnded \<Longrightarrow> ends u = RaisedOther \<Longrightarrow> await_tasks ends (ts @ u # us) = (ts @ [u], False)"
  by (induction ts) auto

text \<open>
  Two contexts on one websocket: the end of the first unregisters the second, which a cleanup then misses.
\<close>

lemma nested_contexts_escape:
  "let m = cleanup_begin (leave_session 1 10 (enter_session 1 20 (enter_session 1 10 new_ws_manager)))
   in (1, 20) \<in> ws_contexts m \<and> 20 \<notin> ws_cancelled m"
  by (simp add: new_ws_manager_def enter_session_def leave_session_def cleanup_begin_def Let_def)

text \<open>Two handlers, the first of which has left\<close>

theorem cleanup_reaches_every_handler_witness:
  "let m = cleanup_begin (leave_session 1 10 (enter_session 2 20 (enter_session 1 10 new_ws_manager)))
   in ws_sessions m = [] \<and> (2, 20) \<in> ws_contexts m \<and> 20 \<in> ws_cancelled m"
proof -
  let ?m1 = "enter_session 1 10 new_ws_manager" and ?m2 = "enter_session 2 20 (enter_session 1 10 new_ws_manager)"
  have "reach (\<lambda>m. m = new_ws_manager) ws_step ?m1"
    by (rule reach_step, rule reach_start, rule refl, rule ws_step.enters) (simp add: new_ws_manager_def)
  then have "reach (\<lambda>m. m = new_ws_manager) ws_step ?m2"
    by (rule reach_step, intro ws_step.enters) (simp add: new_ws_manager_def enter_session_def)
  then have "reach (\<lambda>m. m = new_ws_manager) ws_step (leave_session 1 10 ?m2)"
    by (rule reach_step, intro ws_step.leaves) (simp add: new_ws_manager_def enter_session_def)
  from cleanup_reaches_every_handler [OF this] show ?thesis
    by (auto simp: new_ws_manager_def enter_session_def leave_session_def cleanup_begin_def Let_def)
qed

end
