(* ===== verification/HttpUtil.thy ===== *)
theory HttpUtil
  imports Env
begin

text \<open>
  The helpers of \<open>http/\<close> that no route uses yet: cookies (\<open>cookies.py\<close>), the headers passed on and the
  base of a referer (\<open>utils.py\<close>), and the second key-set manager (\<open>security.py\<close>). Sanic's cookie jar and
  the check of a bracketed host in \<open>urllib\<close> are parameters; URLs are ASCII.
\<close>

section \<open>Cookies\<close>

text \<open>An argument as it is passed: a string, an integer, a boolean (which is an integer), None, anything else\<close>

datatype py_value = PStr string | PInt int | PBool bool | PNone | POther

text \<open>A \<open>SanicException\<close>, which answers 500, or another exception\<close>

datatype cookie_error = Rejected | OtherError py_error

record cookie =
  ck_key :: string
  ck_value :: string
  ck_max_age :: int
  ck_secure :: bool
  ck_httponly :: bool
  ck_samesite :: string
  ck_path :: string
  ck_domain :: "string option"
  ck_partitioned :: bool

definition cookie_key :: "py_value \<Rightarrow> cookie_error + string" where
  "cookie_key key = (case key of PStr s \<Rightarrow> if py_strip s = [] then Inl Rejected else Inr s | _ \<Rightarrow> Inl Rejected)"

definition cookie_value :: "py_value \<Rightarrow> cookie_error + string" where
  "cookie_value v = (case v of PStr s \<Rightarrow> Inr s | _ \<Rightarrow> Inl Rejected)"

definition cookie_max_age :: "py_value \<Rightarrow> cookie_error + int" where
  "cookie_max_age a =
     (case a of PInt n \<Rightarrow> if n < 0 then Inl Rejected else Inr n | PBool b \<Rightarrow> Inr (of_bool b) | _ \<Rightarrow> Inl Rejected)"

definition cookie_samesite :: "py_value \<Rightarrow> cookie_error + string" where
  "cookie_samesite v =
     (case v of PStr s \<Rightarrow> if s \<in> {''Strict'', ''Lax'', ''None''} then Inr s else Inl Rejected | _ \<Rightarrow> Inl Rejected)"

text \<open>Only strings have a \<open>startswith\<close>.\<close>

definition cookie_domain :: "py_value \<Rightarrow> cookie_error + string option" where
  "cookie_domain v =
     (case v of
        PNone \<Rightarrow> Inr None
      | PStr s \<Rightarrow> if take 1 s = ''.'' then Inr (Some s) else Inl Rejected
      | _ \<Rightarrow> Inl (OtherError AttributeError))"

definition set_cookie ::
  "(cookie \<Rightarrow> 'r \<Rightarrow> cookie_error + 'r) \<Rightarrow> 'r \<Rightarrow> py_value \<Rightarrow> py_value \<Rightarrow> py_value \<Rightarrow> bool \<Rightarrow> bool \<Rightarrow> py_value \<Rightarrow> string \<Rightarrow>
   py_value \<Rightarrow> bool \<Rightarrow> cookie_error + 'r" where
  "set_cookie add_cookie response key val max_age secure httponly samesite path domain partitioned =
     andThen (cookie_key key) (\<lambda>k.
     andThen (cookie_value val) (\<lambda>v.
     andThen (cookie_max_age max_age) (\<lambda>a.
     andThen (cookie_samesite samesite) (\<lambda>s.
     andThen (cookie_domain domain) (\<lambda>d.
       add_cookie \<lparr>ck_key = k, ck_value = v, ck_max_age = a, ck_secure = secure, ck_httponly = httponly,
         ck_samesite = s, ck_path = path, ck_domain = d, ck_partitioned = partitioned\<rparr> response)))))"

definition delete_cookie ::
  "(string \<Rightarrow> string \<Rightarrow> string option \<Rightarrow> 'r \<Rightarrow> cookie_error + 'r) \<Rightarrow> 'r \<Rightarrow> py_value \<Rightarrow> string \<Rightarrow> py_value \<Rightarrow> cookie_error + 'r" where
  "delete_cookie del response key path domain =
     andThen (cookie_key key) (\<lambda>k. andThen (cookie_domain domain) (\<lambda>d. del k path d response))"

text \<open>
  What reaches Sanic is a cookie with a key that is not blank, an age that is not negative, one of the
  three policies and a domain that starts with a dot; everything else is refused before.
\<close>

lemma set_cookie_passes:
  assumes "set_cookie add_cookie r key val max_age secure httponly samesite path domain partitioned = Inr r'"
  shows "\<exists>c. add_cookie c r = Inr r' \<and> key = PStr (ck_key c) \<and> py_strip (ck_key c) \<noteq> [] \<and> val = PStr (ck_value c) \<and>
    0 \<le> ck_max_age c \<and> ck_samesite c \<in> {''Strict'', ''Lax'', ''None''} \<and> (\<forall>d. ck_domain c = Some d \<longrightarrow> take 1 d = ''.'')"
  using assms
  by (auto simp: set_cookie_def andThen_Inr_iff cookie_key_def cookie_value_def cookie_max_age_def cookie_samesite_def
      cookie_domain_def split: py_value.splits if_splits)

section \<open>Headers passed on\<close>

definition patch_through :: "(string \<Rightarrow> string option) \<Rightarrow> (string, string) dict" where
  "patch_through headers =
     (case headers ''authorization'' of None \<Rightarrow> [] | Some v \<Rightarrow> if v = [] then [] else [(''authorization'', v)])"

section \<open>The base of a referer\<close>

definition is_alpha :: "char \<Rightarrow> bool" where
  "is_alpha c \<longleftrightarrow> is_upper c \<or> is_lower c"

definition scheme_char :: "char \<Rightarrow> bool" where
  "scheme_char c \<longleftrightarrow> is_alpha c \<or> is_digit c \<or> c \<in> {CHR ''+'', CHR ''-'', CHR ''.''}"

text \<open>Leading control characters and spaces go, and every tab and line break.\<close>

definition url_clean :: "string \<Rightarrow> string" where
  "url_clean url =
     filter (\<lambda>c. c \<notin> {CHR 0x09, CHR 0x0A, CHR 0x0D}) (dropWhile (\<lambda>c. (of_char c :: nat) \<le> 32) url)"

definition split_scheme :: "string \<Rightarrow> string \<times> string" where
  "split_scheme url =
     (let s = takeWhile (\<lambda>c. c \<noteq> CHR '':'') url in
      if s \<noteq> [] \<and> length s < length url \<and> is_alpha (hd s) \<and> list_all scheme_char s
      then (map to_lower s, drop (length s + 1) url) else ([], url))"

definition netloc_char :: "char \<Rightarrow> bool" where
  "netloc_char c \<longleftrightarrow> c \<notin> {CHR ''/'', CHR ''?'', CHR ''#''}"

definition split_netloc :: "string \<Rightarrow> string" where
  "split_netloc url = (if take 2 url = ''//'' then takeWhile netloc_char (drop 2 url) else [])"

text \<open>\<open>bracket_ok\<close>: the check of a host in brackets. A \<open>ValueError\<close> gives None.\<close>

definition base_of_url :: "(string \<Rightarrow> bool) \<Rightarrow> string \<Rightarrow> string option" where
  "base_of_url bracket_ok referer =
     (case split_scheme (url_clean referer) of
        (scheme, rest) \<Rightarrow>
          let netloc = split_netloc rest;
              opening = CHR ''['' \<in> set netloc;
              closing = CHR '']'' \<in> set netloc in
          if opening \<noteq> closing \<or> (opening \<and> closing \<and> \<not> bracket_ok netloc) then None
          else if scheme \<noteq> [] \<and> netloc \<noteq> [] then Some (scheme @ ''://'' @ netloc) else None)"

definition base_from_referer :: "(string \<Rightarrow> bool) \<Rightarrow> (string \<Rightarrow> string option) \<Rightarrow> string option" where
  "base_from_referer bracket_ok headers =
     (case headers ''referer'' of None \<Rightarrow> None | Some r \<Rightarrow> if r = [] then None else base_of_url bracket_ok r)"

lemma of_char_to_lower: "(of_char (to_lower c) :: nat) = (if is_upper c then of_char c + 32 else of_char c)"
  by (auto simp: to_lower_def is_upper_def Let_def)

lemma to_lower_scheme:
  "is_alpha (to_lower c) = is_alpha c" "scheme_char c \<Longrightarrow> scheme_char (to_lower c)" "to_lower (to_lower c) = to_lower c"
proof -
  show a: "is_alpha (to_lower c) = is_alpha c"
    by (auto simp: is_alpha_def is_upper_def is_lower_def Let_def of_char_to_lower)
  show "scheme_char (to_lower c)" if "scheme_char c"
  proof (cases "is_upper c")
    case True
    then have "is_alpha (to_lower c)" using a by (simp add: is_alpha_def)
    then show ?thesis by (simp add: scheme_char_def)
  next
    case False
    with that show ?thesis by (simp add: to_lower_def)
  qed
  have "\<not> is_upper (to_lower c)" by (auto simp: is_upper_def Let_def of_char_to_lower)
  then show "to_lower (to_lower c) = to_lower c" by (simp add: to_lower_def [of "to_lower c"])
qed

lemma scheme_char_code: "scheme_char c \<Longrightarrow> 32 < (of_char c :: nat) \<and> c \<noteq> CHR '':'' \<and> c \<notin> {CHR 0x09, CHR 0x0A, CHR 0x0D}"
  by (auto simp: scheme_char_def is_alpha_def is_upper_def is_lower_def is_digit_def Let_def)

text \<open>A scheme in lower case and a host: what a base is made of\<close>

definition origin_parts :: "(string \<Rightarrow> bool) \<Rightarrow> string \<Rightarrow> string \<Rightarrow> bool" where
  "origin_parts bracket_ok s n \<longleftrightarrow>
     s \<noteq> [] \<and> is_alpha (hd s) \<and> list_all scheme_char s \<and> map to_lower s = s \<and>
     (\<forall>c \<in> set n. netloc_char c \<and> c \<notin> {CHR 0x09, CHR 0x0A, CHR 0x0D}) \<and> n \<noteq> [] \<and>
     (CHR ''['' \<in> set n) = (CHR '']'' \<in> set n) \<and> (CHR ''['' \<in> set n \<longrightarrow> bracket_ok n)"

text \<open>A URL put together from these is its own base.\<close>

lemma base_of_base:
  assumes "origin_parts bracket_ok s n"
  shows "base_of_url bracket_ok (s @ ''://'' @ n) = Some (s @ ''://'' @ n)"
proof -
  have p: "s \<noteq> []" "is_alpha (hd s)" "list_all scheme_char s" "map to_lower s = s"
    "\<forall>c \<in> set n. netloc_char c \<and> c \<notin> {CHR 0x09, CHR 0x0A, CHR 0x0D}" "n \<noteq> []"
    "(CHR ''['' \<in> set n) = (CHR '']'' \<in> set n)" "CHR ''['' \<in> set n \<longrightarrow> bracket_ok n"
    using assms unfolding origin_parts_def by blast+
  let ?u = "s @ ''://'' @ n"
  have "32 < (of_char (hd s) :: nat)" using p(1,3) scheme_char_code by (cases s) auto
  then have "dropWhile (\<lambda>c. (of_char c :: nat) \<le> 32) ?u = ?u" using p(1) by (cases s) auto
  moreover have "filter (\<lambda>c. c \<notin> {CHR 0x09, CHR 0x0A, CHR 0x0D}) ?u = ?u"
    using p(3,5) scheme_char_code by (auto simp: filter_id_conv list_all_iff)
  ultimately have clean: "url_clean ?u = ?u" by (simp add: url_clean_def)
  have "takeWhile (\<lambda>c. c \<noteq> CHR '':'') ?u = s"
    using p(3) scheme_char_code by (auto simp: list_all_iff takeWhile_append2)
  then have scheme: "split_scheme ?u = (s, ''//'' @ n)"
    using p(1-4) by (simp add: split_scheme_def Let_def)
  have "takeWhile netloc_char n = n" using p(5) by (simp add: takeWhile_eq_all_conv)
  then have netloc: "split_netloc (''//'' @ n) = n" by (simp add: split_netloc_def)
  show ?thesis
    unfolding base_of_url_def clean scheme prod.case netloc Let_def using p(1,6-8) by auto
qed

text \<open>
  What is taken from a referer is a scheme and a host: it holds no path, query or fragment, and it is a
  URL that gives itself again.
\<close>

lemma base_of_url_parts:
  assumes "base_of_url bracket_ok r = Some b"
  shows "\<exists>s n. b = s @ ''://'' @ n \<and> origin_parts bracket_ok s n"
proof -
  obtain scheme rest where sp: "split_scheme (url_clean r) = (scheme, rest)" by fastforce
  let ?n = "split_netloc rest" and ?s = "takeWhile (\<lambda>c. c \<noteq> CHR '':'') (url_clean r)"
  from assms have b: "b = scheme @ ''://'' @ ?n" "scheme \<noteq> []" "?n \<noteq> []"
    "(CHR ''['' \<in> set ?n) = (CHR '']'' \<in> set ?n)" "CHR ''['' \<in> set ?n \<longrightarrow> bracket_ok ?n"
    by (auto simp: base_of_url_def sp Let_def split: if_splits)
  from sp b(2) have s: "scheme = map to_lower ?s" "?s \<noteq> []" "is_alpha (hd ?s)" "list_all scheme_char ?s"
    "rest = drop (length ?s + 1) (url_clean r)"
    by (auto simp: split_scheme_def Let_def split: if_splits)
  have 1: "is_alpha (hd scheme)" unfolding s(1) hd_map [OF s(2)] using s(3) to_lower_scheme(1) by simp
  have 2: "list_all scheme_char scheme" using s(1,4) to_lower_scheme(2) by (auto simp: list_all_iff)
  have 3: "map to_lower scheme = scheme" by (simp add: s(1) to_lower_scheme(3))
  have clean: "\<forall>c \<in> set rest. c \<notin> {CHR 0x09, CHR 0x0A, CHR 0x0D}"
    using s(5) by (auto simp: url_clean_def dest: in_set_dropD)
  have "\<forall>c \<in> set ?n. netloc_char c \<and> c \<in> set rest"
    by (auto simp: split_netloc_def split: if_splits dest: set_takeWhileD in_set_dropD)
  with clean have 4: "\<forall>c \<in> set ?n. netloc_char c \<and> c \<notin> {CHR 0x09, CHR 0x0A, CHR 0x0D}" by blast
  have "origin_parts bracket_ok scheme ?n"
    unfolding origin_parts_def by (intro conjI) (rule b(2-5) 1 2 3 4)+
  with b(1) show ?thesis by blast
qed

theorem referer_base_is_stable:
  "base_of_url bracket_ok r = Some b \<Longrightarrow> base_of_url bracket_ok b = Some b"
  using base_of_url_parts base_of_base by blast

theorem referer_base_is_stable_witness:
  "base_of_url (\<lambda>_. False) ''HTTPS://caster.example:8443/map?x=1'' = Some ''https://caster.example:8443'' \<and>
   base_of_url (\<lambda>_. False) ''https://caster.example:8443'' = Some ''https://caster.example:8443''"
proof -
  have r: "base_of_url (\<lambda>_. False) ''HTTPS://caster.example:8443/map?x=1'' = Some ''https://caster.example:8443''"
    by code_simp
  from referer_base_is_stable [OF r] r show ?thesis by blast
qed

section \<open>The second key-set manager\<close>

text \<open>
  \<open>JWKSManager\<close> of \<open>security.py\<close>: the constructor asks for \<open>crypto.JWKSet\<close>, which the package does not
  have, before it looks at the origin; \<open>register\<close> therefore raises unless the attribute is already there.
\<close>

definition new_security_manager :: "environ \<Rightarrow> py_error + unit" where
  "new_security_manager environ = Inl AttributeError"

definition security_register :: "environ \<Rightarrow> bool \<Rightarrow> py_error + unit" where
  "security_register environ present = (if present then Inr () else new_security_manager environ)"

lemma security_never_registers: "security_register environ False = Inl AttributeError"
  by (simp add: security_register_def new_security_manager_def)

end
