(* ===== verification/UdpService.thy ===== *)
theory UdpService
  imports RtcmRoutes UdpEgress NtripRead
begin

text \<open>
  The UDP service as a whole: the HTTP bootstrap that hands out session tokens and the egress that
  honours them, interleaved with each other, with the spawned coroutines and tasks, and with whatever
  else happens to the shared caster. Every token handed out is recorded with the credentials and the
  mountpoint it was asked for. OPA serves the repository's policies at the times the handlers ask.
\<close>

section \<open>The system\<close>

record 'k egress_service =
  eg_udp :: udp_server
  eg_limiter :: "(rate_limiter \<times> 'k) option"
  eg_issued :: "(string \<times> string \<times> string \<times> string) list"

definition eg_view :: "'k egress_service \<Rightarrow> 'k app" where
  "eg_view S = \<lparr>ap_caster = us_caster (eg_udp S), ap_limiter = eg_limiter S\<rparr>"

definition eg_after :: "'k app \<Rightarrow> 'k egress_service \<Rightarrow> 'k egress_service" where
  "eg_after ap S = S\<lparr>eg_udp := (eg_udp S)\<lparr>us_caster := ap_caster ap\<rparr>, eg_limiter := ap_limiter ap\<rparr>"

text \<open>
  What the keyed signature of a token is for: who does not have the secret cannot make a token that
  verifies, so a Hello whose token ever verifies carries one that was handed out.
\<close>

definition presents_issued :: "udp_env \<Rightarrow> (string \<times> string \<times> string \<times> string) list \<Rightarrow> string \<Rightarrow> bool" where
  "presents_issued E issued token \<longleftrightarrow>
     (\<forall>wall c. verify_session_token (ue_jwt E) wall token (ue_token_secret E) = Some c \<longrightarrow> token \<in> fst ` set issued)"

definition unforged :: "udp_env \<Rightarrow> (string \<times> string \<times> string \<times> string) list \<Rightarrow> bytes \<Rightarrow> bool" where
  "unforged E issued data \<longleftrightarrow>
     (\<forall>d token requested position. ue_decode E data = Some d \<longrightarrow> dg_body d = Hello token requested position \<longrightarrow>
        presents_issued E issued token)"

inductive egress_step ::
  "'k world \<Rightarrow> string \<Rightarrow> rfc3339 \<Rightarrow> json \<Rightarrow> udp_env \<Rightarrow> quality_config \<Rightarrow> rtcm_ctx \<Rightarrow> 'k egress_service \<Rightarrow> 'k egress_service \<Rightarrow> bool"
  for w base parse data E cfg x where
  bootstrap: "create_session (w\<lparr>w_opa := Some (policy_client base parse t data)\<rparr>) (ue_jwt E) x now unix_now rq body (eg_view S)
      = (Inr reply, ap) \<Longrightarrow>
    rq_credentials rq = Some (BasicAuth u p) \<Longrightarrow> requested_mountpoint body = Inr m \<Longrightarrow>
    egress_step w base parse data E cfg x S ((eg_after ap S)\<lparr>eg_issued := eg_issued S @ [(sr_token reply, u, p, m)]\<rparr>)"
| bootstrap_refused: "create_session (w\<lparr>w_opa := Some (policy_client base parse t data)\<rparr>) (ue_jwt E) x now unix_now rq body (eg_view S)
      = (Inl e, ap) \<Longrightarrow>
    egress_step w base parse data E cfg x S (eg_after ap S)"
| datagram: "unforged E (eg_issued S) msg \<Longrightarrow>
    egress_step w base parse data E cfg x S (S\<lparr>eg_udp := snd (handle_datagram E now msg a (eg_udp S))\<rparr>)"
| job: "us_jobs (eg_udp S) = pre @ j # post \<Longrightarrow> map_of (us_sessions (eg_udp S)) sid = None \<Longrightarrow>
    egress_step w base parse data E cfg x S (S\<lparr>eg_udp := run_job E now wall sid j ((eg_udp S)\<lparr>us_jobs := pre @ post\<rparr>)\<rparr>)"
| egress: "j < us_next_task (eg_udp S) \<Longrightarrow>
    egress_step w base parse data E cfg x S (S\<lparr>eg_udp := egress_turn E ts j (eg_udp S)\<rparr>)"
| reap: "egress_step w base parse data E cfg x S (S\<lparr>eg_udp := udp_reap now (eg_udp S)\<rparr>)"
| stop: "egress_step w base parse data E cfg x S (S\<lparr>eg_udp := udp_stop (eg_udp S)\<rparr>)"
| caster: "caster_step cfg (us_caster (eg_udp S)) c \<Longrightarrow>
    egress_step w base parse data E cfg x S (S\<lparr>eg_udp := (eg_udp S)\<lparr>us_caster := c\<rparr>\<rparr>)"

inductive_cases egress_step_cases: "egress_step w base parse data E cfg x S S'"

definition fresh_egress :: "'k egress_service \<Rightarrow> bool" where
  "fresh_egress S \<longleftrightarrow> (\<exists>c. eg_udp S = new_udp_server c) \<and> eg_issued S = []"

section \<open>What no step but a Hello touches\<close>

text \<open>The scopes of the sessions stay; Hello coroutines only go away.\<close>

definition same_scopes :: "udp_server \<Rightarrow> udp_server \<Rightarrow> bool" where
  "same_scopes u v \<longleftrightarrow> us_next_object v = us_next_object u \<and>
     (\<forall>k. ss_scope (us_objects v k) = ss_scope (us_objects u k)) \<and>
     (\<forall>t r p a. JobHello t r p a \<in> set (us_jobs v) \<longrightarrow> JobHello t r p a \<in> set (us_jobs u))"

named_theorems scopes \<open>steps that keep the scopes\<close>

lemma same_scopes_refl [scopes]: "same_scopes u u"
  by (simp add: same_scopes_def)

lemma same_scopes_trans: "same_scopes u v \<Longrightarrow> same_scopes v w \<Longrightarrow> same_scopes u w"
  by (simp add: same_scopes_def)

lemma scopes_basic [scopes]:
  "same_scopes u (u\<lparr>us_caster := c\<rparr>)" "same_scopes u (upd_caster f u)" "same_scopes u (log_udp ops u)"
  "same_scopes u (send_datagram a d u)" "same_scopes u (send_error a code message u)"
  "same_scopes u (upd_task j g u)" "same_scopes u (cancel_task t u)" "same_scopes u (finish_task j u)"
  "same_scopes u (u\<lparr>us_sessions := ss\<rparr>)" "same_scopes u (u\<lparr>us_cache := ca\<rparr>)"
  by (auto simp: same_scopes_def upd_caster_def log_udp_def send_datagram_def send_error_def upd_task_def cancel_task_def
      finish_task_def split: option.split)

lemma scopes_upd_session [scopes]: "(\<And>s. ss_scope (g s) = ss_scope s) \<Longrightarrow> same_scopes u (upd_session k g u)"
  by (simp add: same_scopes_def upd_session_def)

lemma scopes_spawn [scopes]: "(\<And>t r p a. j \<noteq> JobHello t r p a) \<Longrightarrow> same_scopes u (spawn j u)"
  by (simp add: same_scopes_def spawn_def) (metis)

lemma scopes_start_egress [scopes]: "same_scopes u (start_egress k u)"
  by (simp add: same_scopes_def start_egress_def upd_session_def)

lemma scopes_sign_frame: "same_scopes u (snd (sign_frame E ts m f u))"
  by (auto simp: same_scopes_def sign_frame_def log_udp_def Let_def)

lemmas scope_parts = upd_caster_def log_udp_def upd_session_def cancel_task_def upd_task_def start_egress_def

lemma scopes_teardown [scopes]: "same_scopes u (teardown c k u)"
  by (simp add: same_scopes_def teardown_def Let_def scope_parts split: option.split)

lemma scopes_fold_teardown [scopes]: "same_scopes u (fold (teardown c) ks u)"
  by (induction ks arbitrary: u) (auto intro: scopes same_scopes_trans)

lemma scopes_evict [scopes]: "same_scopes u (evict k code message u)"
  unfolding evict_def by (rule same_scopes_trans [OF _ scopes_teardown]) (rule scopes)

lemma scopes_repoint [scopes]: "same_scopes u (repoint k m u)"
  by (simp add: same_scopes_def repoint_def Let_def scope_parts split: option.split)

lemma scopes_keepalive [scopes]: "same_scopes u (snd (on_keepalive k position u))"
  by (auto simp: on_keepalive_def Let_def intro: scopes same_scopes_trans [OF scopes_basic(2)] split: option.split sum.split)

lemma scopes_switch [scopes]: "same_scopes u (on_switch k requested position u)"
  by (auto simp: on_switch_def Let_def intro: scopes same_scopes_trans [OF scopes_upd_session scopes_repoint] split: resolution.split)

lemma scopes_send_frame [scopes]: "same_scopes u (send_frame E ts k f u)"
proof -
  obtain pl sg v where v: "sign_frame E ts (ss_mountpoint (us_objects u k)) f u = ((pl, sg), v)" by (metis prod.exhaust)
  have "same_scopes u v" using scopes_sign_frame [of u E ts "ss_mountpoint (us_objects u k)" f] by (simp add: v)
  then show ?thesis
    by (simp add: send_frame_def v next_seq_def Let_def same_scopes_def log_udp_def upd_session_def send_datagram_def)
qed

lemma scopes_egress [scopes]: "same_scopes u (egress_turn E ts j u)"
  by (auto simp: egress_turn_def Let_def intro!: same_scopes_trans [OF _ scopes_basic(8)] same_scopes_trans [OF _ scopes_teardown]
      same_scopes_trans [OF _ scopes_basic(2)] same_scopes_trans [OF _ scopes_send_frame] same_scopes_trans [OF _ scopes_basic(6)]
      intro: scopes split: task_state.split sum.split prod.split get_outcome.split)

lemma scopes_reap [scopes]: "same_scopes u (udp_reap now u)"
  by (auto simp: udp_reap_def Let_def intro: scopes same_scopes_trans [OF scopes_fold_teardown scopes_basic(3)])

lemma scopes_stop [scopes]: "same_scopes u (udp_stop u)"
  using scopes_fold_teardown [of u None "map snd (us_sessions u)"] by (simp add: udp_stop_def same_scopes_def)

lemma scopes_handle:
  "(\<forall>d t r p. ue_decode E msg = Some d \<longrightarrow> dg_body d \<noteq> Hello t r p) \<Longrightarrow> same_scopes u (snd (handle_datagram E now msg a u))"
  by (auto simp: handle_datagram_def Let_def intro: scopes same_scopes_trans [OF scopes_upd_session scopes_keepalive]
        same_scopes_trans [OF scopes_upd_session scopes_spawn]
      split: option.split dg_body.split)

lemma handle_hello:
  "ue_decode E msg = Some d \<Longrightarrow> dg_body d = Hello t r p \<Longrightarrow> snd (handle_datagram E now msg a u) = spawn (JobHello t r p a) u"
  by (simp add: handle_datagram_def)

text \<open>A Hello either leaves the scopes alone or opens one session with the scope of its verified token.\<close>

lemma hello_scopes:
  "same_scopes u (on_hello E now wall sid token requested position a u) \<or>
   (\<exists>c scope. verify_session_token (ue_jwt E) wall token (ue_token_secret E) = Some c \<and> token_mountpoint c = Some scope \<and>
      us_next_object (on_hello E now wall sid token requested position a u) = Suc (us_next_object u) \<and>
      (\<forall>k. ss_scope (us_objects (on_hello E now wall sid token requested position a u) k) =
         (if k = us_next_object u then scope else ss_scope (us_objects u k))) \<and>
      us_jobs (on_hello E now wall sid token requested position a u) = us_jobs u)"
proof (cases "verify_session_token (ue_jwt E) wall token (ue_token_secret E)")
  case None
  then show ?thesis
    by (auto simp: on_hello_def intro: same_scopes_trans [OF scopes_basic(3) scopes_basic(5)])
next
  case c: (Some c)
  show ?thesis
  proof (cases "token_mountpoint c")
    case None
    with c show ?thesis by (simp add: on_hello_def same_scopes_refl)
  next
    case scope: (Some scope)
    show ?thesis
    proof (cases "resolve_mountpoint scope requested position (us_registry u)")
      case (Resolved m)
      then show ?thesis
        by (simp add: on_hello_def c scope Let_def scope_parts send_datagram_def)
    next
      case (Denied code message)
      then show ?thesis
        by (auto simp: on_hello_def c scope intro: same_scopes_trans [OF scopes_basic(3) scopes_basic(5)])
    next
      case (Crashed e)
      then show ?thesis by (simp add: on_hello_def c scope same_scopes_refl)
    qed
  qed
qed

section \<open>The invariant\<close>

text \<open>A token that was handed out, to whom and for what: the policy admitted that rover on that mountpoint.\<close>

definition handed_out :: "jwt_library \<Rightarrow> string \<Rightarrow> rfc3339 \<Rightarrow> json \<Rightarrow> bcrypt \<Rightarrow> string \<times> string \<times> string \<times> string \<Rightarrow> bool" where
  "handed_out lib secret parse data checkpw = (\<lambda>(token, u, p, m).
     (\<exists>t limit. rover_decision parse t data checkpw u p m = (True, limit)) \<and>
     (\<forall>wall c. verify_session_token lib wall token secret = Some c \<longrightarrow> token_mountpoint c = Some m))"

definition egress_ok :: "rfc3339 \<Rightarrow> json \<Rightarrow> bcrypt \<Rightarrow> udp_env \<Rightarrow> 'k egress_service \<Rightarrow> bool" where
  "egress_ok parse data checkpw E S \<longleftrightarrow>
     udp_ok E (eg_udp S) \<and>
     (\<forall>i \<in> set (eg_issued S). handed_out (ue_jwt E) (ue_token_secret E) parse data checkpw i) \<and>
     (\<forall>t r p a. JobHello t r p a \<in> set (us_jobs (eg_udp S)) \<longrightarrow> presents_issued E (eg_issued S) t) \<and>
     (\<forall>k < us_next_object (eg_udp S). ss_scope (us_objects (eg_udp S) k) \<in> (\<lambda>(_, _, _, m). m) ` set (eg_issued S))"

text \<open>The server was built from the configuration the bootstrap uses, on the same library.\<close>

definition same_setup :: "udp_env \<Rightarrow> rtcm_ctx \<Rightarrow> bool" where
  "same_setup E x \<longleftrightarrow> decodes_own_tokens (ue_jwt E) \<and> rc_token_secret (rx_config x) = ue_token_secret E"

lemma egress_ok_same_scopes:
  assumes "egress_ok parse data checkpw E S" "udp_ok E v" "same_scopes (eg_udp S) v"
  shows "egress_ok parse data checkpw E (S\<lparr>eg_udp := v\<rparr>)"
  using assms unfolding egress_ok_def same_scopes_def by auto blast

lemma issued_is_handed_out:
  assumes "same_setup E x"
    "create_session (w\<lparr>w_opa := Some (policy_client base parse t data)\<rparr>) (ue_jwt E) x now unix_now rq body ap = (Inr reply, ap')"
    "rq_credentials rq = Some (BasicAuth u p)" "requested_mountpoint body = Inr m"
  shows "handed_out (ue_jwt E) (ue_token_secret E) parse data (w_checkpw w) (sr_token reply, u, p, m)"
proof -
  from create_session_Inr [OF assms(2)] assms(3,4) obtain limit ttl where
    r: "fst (authenticate_rover (Some (policy_client base parse t data)) (w_checkpw w) u p m (ap_caster ap)) = Inr (True, limit)"
    "sr_token reply = issue_session_token (ue_jwt E) unix_now (ue_token_secret E) u m ttl"
    using assms(1) by (auto simp: same_setup_def)
  have "rover_decision parse t data (w_checkpw w) u p m = (True, limit)"
    using r(1) by (simp add: authenticate_rover_decides)
  moreover have "token_mountpoint c = Some m"
    if "verify_session_token (ue_jwt E) wall (sr_token reply) (ue_token_secret E) = Some c" for wall c
    using verified_token [of "ue_jwt E" wall unix_now "ue_token_secret E" u m ttl] that assms(1)
    by (auto simp: same_setup_def r(2) split: if_splits)
  ultimately show ?thesis by (auto simp: handed_out_def)
qed

lemma presents_more: "presents_issued E issued t \<Longrightarrow> set issued \<subseteq> set issued' \<Longrightarrow> presents_issued E issued' t"
  unfolding presents_issued_def by blast

lemma egress_ok_after:
  assumes "egress_ok parse data checkpw E S" "set (eg_issued S) \<subseteq> set issued"
    "\<forall>i \<in> set issued. handed_out (ue_jwt E) (ue_token_secret E) parse data checkpw i"
  shows "egress_ok parse data checkpw E ((eg_after ap S)\<lparr>eg_issued := issued\<rparr>)"
proof -
  have "presents_issued E issued t" if "JobHello t r p a \<in> set (us_jobs (eg_udp S))" for t r p a
    using assms(1,2) that presents_more unfolding egress_ok_def by blast
  moreover have "ss_scope (us_objects (eg_udp S) k) \<in> (\<lambda>(_, _, _, m). m) ` set issued" if "k < us_next_object (eg_udp S)" for k
    using assms(1,2) that unfolding egress_ok_def by blast
  ultimately show ?thesis using assms(1,3) unfolding egress_ok_def eg_after_def by simp
qed

lemma egress_ok_hello:
  assumes ok: "egress_ok parse data checkpw E S" and h: "presents_issued E (eg_issued S) token"
    and v: "udp_ok E (on_hello E now wall sid token requested position a (eg_udp S))"
  shows "egress_ok parse data checkpw E (S\<lparr>eg_udp := on_hello E now wall sid token requested position a (eg_udp S)\<rparr>)"
proof (cases "same_scopes (eg_udp S) (on_hello E now wall sid token requested position a (eg_udp S))")
  case True
  then show ?thesis by (rule egress_ok_same_scopes [OF ok v])
next
  case False
  let ?v = "on_hello E now wall sid token requested position a (eg_udp S)"
  from hello_scopes [of "eg_udp S" E now wall sid token requested position a] False
  obtain c scope where c: "verify_session_token (ue_jwt E) wall token (ue_token_secret E) = Some c" "token_mountpoint c = Some scope"
    and n: "us_next_object ?v = Suc (us_next_object (eg_udp S))" "us_jobs ?v = us_jobs (eg_udp S)"
    and sc: "\<forall>k. ss_scope (us_objects ?v k) = (if k = us_next_object (eg_udp S) then scope else ss_scope (us_objects (eg_udp S) k))"
    by blast
  from h c(1) obtain u p m where i: "(token, u, p, m) \<in> set (eg_issued S)" unfolding presents_issued_def by force
  with ok have "handed_out (ue_jwt E) (ue_token_secret E) parse data checkpw (token, u, p, m)" unfolding egress_ok_def by blast
  with c have "scope = m" unfolding handed_out_def by auto
  with i have "scope \<in> (\<lambda>(_, _, _, m). m) ` set (eg_issued S)" by force
  with ok v n sc show ?thesis unfolding egress_ok_def by (auto simp: less_Suc_eq)
qed

lemma scopes_job: "(\<forall>t r p a. j \<noteq> JobHello t r p a) \<Longrightarrow> same_scopes u (run_job E now wall sid j u)"
  by (cases j) (auto intro: scopes)

lemma egress_ok_job:
  assumes ok: "egress_ok parse data checkpw E S" and jobs: "us_jobs (eg_udp S) = pre @ j # post"
    and fresh: "map_of (us_sessions (eg_udp S)) sid = None"
  shows "egress_ok parse data checkpw E (S\<lparr>eg_udp := run_job E now wall sid j ((eg_udp S)\<lparr>us_jobs := pre @ post\<rparr>)\<rparr>)"
proof -
  let ?u = "(eg_udp S)\<lparr>us_jobs := pre @ post\<rparr>"
  have uok: "udp_ok E (eg_udp S)" using ok by (simp add: egress_ok_def)
  then have "udp_ok E ?u" using jobs unfolding udp_oks by auto
  then have S: "egress_ok parse data checkpw E (S\<lparr>eg_udp := ?u\<rparr>)"
    by (rule egress_ok_same_scopes [OF ok]) (use jobs in \<open>auto simp: same_scopes_def\<close>)
  have v: "udp_ok E (run_job E now wall sid j ?u)"
    by (rule udp_step_ok [OF uok udp_step.job [OF jobs fresh]])
  show ?thesis
  proof (cases "\<exists>t r p a. j = JobHello t r p a")
    case True
    then obtain t r p a where j: "j = JobHello t r p a" by blast
    then have "JobHello t r p a \<in> set (us_jobs (eg_udp S))" using jobs by simp
    with ok have "presents_issued E (eg_issued S) t" unfolding egress_ok_def by blast
    then show ?thesis
      using egress_ok_hello [OF S, of t now wall sid r p a] v by (simp add: j)
  next
    case False
    then have "same_scopes ?u (run_job E now wall sid j ?u)" by (intro scopes_job) blast
    with egress_ok_same_scopes [OF S v] show ?thesis by simp
  qed
qed

lemma egress_ok_datagram:
  assumes ok: "egress_ok parse data checkpw E S" and un: "unforged E (eg_issued S) msg"
  shows "egress_ok parse data checkpw E (S\<lparr>eg_udp := snd (handle_datagram E now msg a (eg_udp S))\<rparr>)"
proof -
  have v: "udp_ok E (snd (handle_datagram E now msg a (eg_udp S)))"
    using ok udp_step_ok udp_step.datagram unfolding egress_ok_def by blast
  show ?thesis
  proof (cases "\<exists>d t r p. ue_decode E msg = Some d \<and> dg_body d = Hello t r p")
    case True
    then obtain d t r p where d: "ue_decode E msg = Some d" "dg_body d = Hello t r p" by blast
    then have "presents_issued E (eg_issued S) t" using un unfolding unforged_def by blast
    with ok v show ?thesis unfolding handle_hello [OF d] egress_ok_def by (auto simp: spawn_def)
  next
    case False
    then show ?thesis by (intro egress_ok_same_scopes [OF ok v] scopes_handle) blast
  qed
qed

lemma egress_step_ok:
  assumes same: "same_setup E x" and ok: "egress_ok parse data (w_checkpw w) E S" and step: "egress_step w base parse data E cfg x S S'"
  shows "egress_ok parse data (w_checkpw w) E S'"
  using step
proof (cases rule: egress_step.cases)
  case (bootstrap t now unix_now rq body reply ap u p m)
  have "handed_out (ue_jwt E) (ue_token_secret E) parse data (w_checkpw w) (sr_token reply, u, p, m)"
    by (rule issued_is_handed_out [OF same]) (rule bootstrap)+
  then have "egress_ok parse data (w_checkpw w) E ((eg_after ap S)\<lparr>eg_issued := eg_issued S @ [(sr_token reply, u, p, m)]\<rparr>)"
    by (intro egress_ok_after [OF ok]) (use ok in \<open>auto simp: egress_ok_def\<close>)
  then show ?thesis using bootstrap by simp
next
  case (bootstrap_refused t now unix_now rq body e ap)
  have "egress_ok parse data (w_checkpw w) E ((eg_after ap S)\<lparr>eg_issued := eg_issued S\<rparr>)"
    by (rule egress_ok_after [OF ok]) (use ok in \<open>auto simp: egress_ok_def\<close>)
  then show ?thesis using bootstrap_refused by (simp add: eg_after_def)
next
  case (datagram msg now a)
  then show ?thesis using egress_ok_datagram [OF ok] by simp
next
  case (job pre j post sid now wall)
  then show ?thesis using egress_ok_job [OF ok] by simp
next
  case (egress j ts)
  then show ?thesis using ok udp_step_ok [OF _ udp_step.egress, of E "eg_udp S" j]
    by (auto simp: egress_ok_def [of _ _ _ _ S] intro: egress_ok_same_scopes [OF ok] scopes)
next
  case (reap now)
  then show ?thesis using ok udp_step_ok [OF _ udp_step.reap, of E "eg_udp S"]
    by (auto simp: egress_ok_def [of _ _ _ _ S] intro: egress_ok_same_scopes [OF ok] scopes)
next
  case stop
  then show ?thesis using ok udp_step_ok [OF _ udp_step.stop, of E "eg_udp S"]
    by (auto simp: egress_ok_def [of _ _ _ _ S] intro: egress_ok_same_scopes [OF ok] scopes)
next
  case (caster c)
  then show ?thesis using ok by (auto simp: egress_ok_def [of _ _ _ _ S] intro: egress_ok_same_scopes [OF ok] scopes)
qed

lemma fresh_egress_ok: "fresh_egress S \<Longrightarrow> egress_ok parse data checkpw E S"
  by (auto simp: fresh_egress_def egress_ok_def udp_ok_new) (simp_all add: new_udp_server_def)

interpretation egress_sys: invariant_system fresh_egress "egress_step w base parse data E cfg x"
    "\<lambda>S. same_setup E x \<longrightarrow> egress_ok parse data (w_checkpw w) E S" for w base parse data E cfg x
  by unfold_locales (auto intro: fresh_egress_ok egress_step_ok)

section \<open>Properties\<close>


section \<open>Witness\<close>

text \<open>
  The anonymous rover asks for a token for a registered base, says Hello with it and is sent the chunk
  that is published then.
\<close>

definition witness_env :: "string \<Rightarrow> udp_env" where
  "witness_env token = demo_env\<lparr>ue_jwt := stroke_library, ue_token_secret := ''s3cret'',
     ue_decode := (\<lambda>_. Some \<lparr>dg_version = 1, dg_session_id = 0, dg_seq = 0, dg_body = Hello token ''BASE-1'' None\<rparr>)\<rparr>"

definition base_ready :: "caster \<Rightarrow> bool" where
  "base_ready c \<longleftrightarrow> caster_ok c \<and> map_of (cs_transports c) ''BASE-1'' = Some 0 \<and> map_of (cs_mountpoints c) ''BASE-1'' \<noteq> None \<and>
     cs_store c 0 = new_transport"

lemma registered_ready: "base_ready (snd (register 0 ''BASE-1'' no_metadata (new_caster None 8)))"
proof -
  have "mountpoint_re ''BASE-1''" by code_simp
  moreover have "caster_ok (snd (register 0 ''BASE-1'' no_metadata (new_caster None 8)))" by (rule caster_ok_register) simp
  ultimately show ?thesis
    by (simp add: base_ready_def register_def new_caster_def new_mountpoint_def post_init_def open_transport_def
        no_metadata_def present_and_not_def given_and_not_def)
qed

lemma witness_bootstrap:
  assumes "base_ready c"
  shows "\<exists>reply ap. create_session (demo_routes_world\<lparr>w_opa := Some (policy_client ''http://opa:8181/'' demo_window 1750000000000000000 demo_data)\<rparr>)
      stroke_library demo_rtcm 0 100 demo_client demo_body \<lparr>ap_caster = c, ap_limiter = None\<rparr> = (Inr reply, ap) \<and>
    base_ready (ap_caster ap) \<and>
    (\<exists>cl. verify_session_token stroke_library 110 (sr_token reply) ''s3cret'' = Some cl \<and> token_mountpoint cl = Some ''BASE-1'')"
proof -
  let ?opa = "Some (policy_client ''http://opa:8181/'' demo_window 1750000000000000000 demo_data)"
  obtain r c' where a: "authenticate_rover ?opa (w_checkpw demo_routes_world) ''anonymous'' ''anon'' ''BASE-1'' c = (r, c')" by fastforce
  have w: "w_checkpw demo_routes_world = demo_checkpw" by (simp add: demo_routes_world_def)
  have "fst (authenticate_rover ?opa demo_checkpw ''anonymous'' ''anon'' ''BASE-1'' c) = Inr (True, JInt 60)"
    using demo_admits(1) by (simp add: demo_opa_def authenticate_rover_decides)
  then have r: "r = Inr (True, JInt 60)" using a by (simp add: w)
  have "same_registry c c'" using authenticate_rover_keeps [of c ?opa "w_checkpw demo_routes_world"] a by (metis snd_conv)
  moreover have "caster_ok c'"
    using a assms verdict_keeps_ok(2) by (auto simp: authenticate_rover_def base_ready_def split: option.splits) (metis snd_conv)
  ultimately have c': "base_ready c'" using assms by (simp add: base_ready_def same_registry_def)
  let ?token = "issue_session_token stroke_library 100 ''s3cret'' ''anonymous'' ''BASE-1'' 60"
  have "map_option token_mountpoint (verify_session_token stroke_library 110 ?token ''s3cret'') = Some (Some ''BASE-1'')"
    by (simp add: verified_token [OF stroke_library_decodes])
  then have "\<exists>cl. verify_session_token stroke_library 110 ?token ''s3cret'' = Some cl \<and> token_mountpoint cl = Some ''BASE-1''"
    by auto
  with c' show ?thesis
    by (simp add: create_session_def then_do_def step_simps demo_rtcm_def demo_config_values_def demo_client_def demo_body_def
        requested_mountpoint_def charge_def enforce_auth_rate_limit_def basic_credentials_def on_caster_def a r)
qed

lemma witness_hello:
  assumes "base_ready c" "verify_session_token stroke_library 110 token ''s3cret'' = Some cl" "token_mountpoint cl = Some ''BASE-1''"
  shows "\<exists>u. on_hello (witness_env token) 0 110 7 token ''BASE-1'' None a (new_udp_server c) = u \<and>
    us_caster u = c \<and> us_open u \<and> us_cache u = [] \<and> us_next_task u = 1 \<and>
    us_tasks u 0 = \<lparr>et_session = 0, et_state = TaskNew, et_cancelled = False\<rparr> \<and>
    ss_task (us_objects u 0) = Some 0 \<and> ss_mountpoint (us_objects u 0) = ''BASE-1''"
proof -
  have "resolve_mountpoint ''BASE-1'' ''BASE-1'' None (cs_mountpoints c) = Resolved ''BASE-1''"
    using assms(1) by (simp add: resolve_mountpoint_def base_ready_def)
  moreover have "verify_session_token (ue_jwt (witness_env token)) 110 token (ue_token_secret (witness_env token)) = Some cl"
    using assms(2) by (simp add: witness_env_def)
  ultimately show ?thesis
    using assms(3) by (simp add: on_hello_def Let_def scope_parts send_datagram_def new_udp_server_def)
qed

lemma witness_turn:
  assumes "base_ready (us_caster u)" "us_tasks u 0 = \<lparr>et_session = 0, et_state = TaskNew, et_cancelled = False\<rparr>"
    "ss_mountpoint (us_objects u 0) = ''BASE-1''"
  shows "us_tasks (egress_turn E 0 0 u) 0 = \<lparr>et_session = 0, et_state = TaskStreaming ''BASE-1'' 0 0, et_cancelled = False\<rparr>"
    "us_objects (egress_turn E 0 0 u) = us_objects u" "us_open (egress_turn E 0 0 u) = us_open u"
    "us_cache (egress_turn E 0 0 u) = us_cache u" "us_next_task (egress_turn E 0 0 u) = us_next_task u"
    "caster_ok (us_caster (egress_turn E 0 0 u))" "map_of (cs_transports (us_caster (egress_turn E 0 0 u))) ''BASE-1'' = Some 0"
    "0 \<in> set (tq_queues (cs_store (us_caster (egress_turn E 0 0 u)) 0))"
    "tq_subs (cs_store (us_caster (egress_turn E 0 0 u)) 0) 0 = Some new_subscriber"
proof -
  let ?c = "us_caster u"
  have c: "caster_ok ?c" "map_of (cs_transports ?c) ''BASE-1'' = Some 0" "cs_store ?c 0 = new_transport"
    using assms(1) by (simp_all add: base_ready_def)
  have "Caster.subscribe ''BASE-1'' ?c = Inr 0" using c(2) by (simp add: Caster.subscribe_def)
  moreover have "fst (metered_subscribe ''BASE-1'' 0 ?c) = 0"
    by (simp add: metered_subscribe_def log_caster_def c(3) tq_subscribe_def new_transport_def Let_def)
  ultimately have e: "egress_turn E 0 0 u = upd_task 0 (\<lambda>t. t\<lparr>et_state := TaskStreaming ''BASE-1'' 0 0\<rparr>)
      (u\<lparr>us_caster := snd (metered_subscribe ''BASE-1'' 0 ?c)\<rparr>)"
    by (cases "metered_subscribe ''BASE-1'' 0 ?c") (simp add: egress_turn_def assms(2,3) Let_def)
  have f: "cs_transports (snd (metered_subscribe ''BASE-1'' 0 ?c)) = cs_transports ?c"
    "cs_store (snd (metered_subscribe ''BASE-1'' 0 ?c)) 0 = snd (tq_subscribe new_transport)"
    by (simp_all add: metered_subscribe_def log_caster_def c(3) Let_def case_prod_beta)
  show "us_tasks (egress_turn E 0 0 u) 0 = \<lparr>et_session = 0, et_state = TaskStreaming ''BASE-1'' 0 0, et_cancelled = False\<rparr>"
    "us_objects (egress_turn E 0 0 u) = us_objects u" "us_open (egress_turn E 0 0 u) = us_open u"
    "us_cache (egress_turn E 0 0 u) = us_cache u" "us_next_task (egress_turn E 0 0 u) = us_next_task u"
    by (simp_all add: e upd_task_def assms(2))
  show "caster_ok (us_caster (egress_turn E 0 0 u))" by (simp add: e upd_task_def caster_ok_subscribe c(1))
  show "map_of (cs_transports (us_caster (egress_turn E 0 0 u))) ''BASE-1'' = Some 0"
    by (simp add: e upd_task_def f(1) c(2) del: map_of_eq_Some_iff)
  show "0 \<in> set (tq_queues (cs_store (us_caster (egress_turn E 0 0 u)) 0))"
    "tq_subs (cs_store (us_caster (egress_turn E 0 0 u)) 0) 0 = Some new_subscriber"
    by (simp_all add: e upd_task_def f(2) tq_subscribe_def new_transport_def)
qed

abbreviation witness_step :: "string \<Rightarrow> (string, real \<times> bucket) dict egress_service \<Rightarrow> (string, real \<times> bucket) dict egress_service \<Rightarrow> bool" where
  "witness_step token \<equiv>
     egress_step demo_routes_world ''http://opa:8181/'' demo_window demo_data (witness_env token) demo_config demo_rtcm"

text \<open>The session is open and its task has not run yet.\<close>

lemma witness_open:
  "\<exists>token S. reach fresh_egress (witness_step token) S \<and> base_ready (us_caster (eg_udp S)) \<and> us_open (eg_udp S) \<and>
     us_cache (eg_udp S) = [] \<and> us_next_task (eg_udp S) = 1 \<and>
     us_tasks (eg_udp S) 0 = \<lparr>et_session = 0, et_state = TaskNew, et_cancelled = False\<rparr> \<and>
     ss_task (us_objects (eg_udp S) 0) = Some 0 \<and> ss_mountpoint (us_objects (eg_udp S) 0) = ''BASE-1''"
proof -
  let ?c0 = "snd (register 0 ''BASE-1'' no_metadata (new_caster None 8))"
  let ?S0 = "\<lparr>eg_udp = new_udp_server ?c0, eg_limiter = None, eg_issued = []\<rparr> :: (string, real \<times> bucket) dict egress_service"
  obtain reply ap cl where b: "create_session (demo_routes_world\<lparr>w_opa := Some (policy_client ''http://opa:8181/'' demo_window 1750000000000000000 demo_data)\<rparr>)
      stroke_library demo_rtcm 0 100 demo_client demo_body \<lparr>ap_caster = ?c0, ap_limiter = None\<rparr> = (Inr reply, ap)"
    "base_ready (ap_caster ap)" "verify_session_token stroke_library 110 (sr_token reply) ''s3cret'' = Some cl"
    "token_mountpoint cl = Some ''BASE-1''"
    using witness_bootstrap [OF registered_ready] by blast
  let ?t = "sr_token reply" and ?c = "ap_caster ap" and ?i = "(sr_token reply, ''anonymous'', ''anon'', ''BASE-1'')"
  let ?S1 = "(eg_after ap ?S0)\<lparr>eg_issued := eg_issued ?S0 @ [?i]\<rparr>"
  have "witness_step ?t ?S0 ?S1"
    by (rule egress_step.bootstrap [where t = 1750000000000000000 and now = 0 and unix_now = 100 and rq = demo_client and body = demo_body])
       (use b(1) in \<open>simp_all add: witness_env_def eg_view_def new_udp_server_def demo_client_def demo_body_def requested_mountpoint_def\<close>)
  moreover have "fresh_egress ?S0" by (auto simp: fresh_egress_def)
  ultimately have r1: "reach fresh_egress (witness_step ?t) ?S1" by (blast intro: reach_start reach_step)
  have u1: "eg_udp ?S1 = new_udp_server ?c" "eg_issued ?S1 = [?i]" by (simp_all add: eg_after_def new_udp_server_def)
  let ?S2 = "?S1\<lparr>eg_udp := snd (handle_datagram (witness_env ?t) 0 [] ([], 0) (eg_udp ?S1))\<rparr>"
  have "unforged (witness_env ?t) (eg_issued ?S1) []"
    unfolding u1(2) by (simp add: unforged_def presents_issued_def witness_env_def)
  then have r2: "reach fresh_egress (witness_step ?t) ?S2" by (blast intro: reach_step [OF r1] egress_step.datagram)
  have u2: "eg_udp ?S2 = spawn (JobHello ?t ''BASE-1'' None ([], 0)) (new_udp_server ?c)"
    unfolding u1(1) by (simp add: handle_datagram_def witness_env_def)
  then have jobs: "us_jobs (eg_udp ?S2) = [] @ JobHello ?t ''BASE-1'' None ([], 0) # []" "map_of (us_sessions (eg_udp ?S2)) 7 = None"
    and restored: "(eg_udp ?S2)\<lparr>us_jobs := [] @ []\<rparr> = new_udp_server ?c"
    by (simp_all add: spawn_def new_udp_server_def)
  let ?S3 = "?S2\<lparr>eg_udp := run_job (witness_env ?t) 0 110 7 (JobHello ?t ''BASE-1'' None ([], 0)) ((eg_udp ?S2)\<lparr>us_jobs := [] @ []\<rparr>)\<rparr>"
  have r3: "reach fresh_egress (witness_step ?t) ?S3"
    by (rule reach_step [OF r2]) (rule egress_step.job [OF jobs])
  have "eg_udp ?S3 = on_hello (witness_env ?t) 0 110 7 ?t ''BASE-1'' None ([], 0) (new_udp_server ?c)"
    unfolding restored by simp
  with witness_hello [OF b(2-4), of "([], 0)"] b(2) r3 show ?thesis
    by (intro exI [of _ ?t] exI [of _ ?S3]) simp
qed

lemma witness_env_fits: "length (ue_encode (witness_env token) d) \<le> ue_max_datagram (witness_env token)"
  by (simp add: witness_env_def demo_env_def)

lemma witness_sent:
  "\<exists>token S a d payload signature. reach fresh_egress (witness_step token) S \<and>
     (a, d) \<in> set (us_sent (eg_udp S)) \<and> dg_body d = Correction payload signature"
proof -
  obtain token S where S: "reach fresh_egress (witness_step token) S" "base_ready (us_caster (eg_udp S))" "us_open (eg_udp S)"
    "us_cache (eg_udp S) = []" "us_next_task (eg_udp S) = 1"
    "us_tasks (eg_udp S) 0 = \<lparr>et_session = 0, et_state = TaskNew, et_cancelled = False\<rparr>"
    "ss_task (us_objects (eg_udp S) 0) = Some 0" "ss_mountpoint (us_objects (eg_udp S) 0) = ''BASE-1''"
    using witness_open by blast
  let ?E = "witness_env token" and ?f = "(5 :: nat, [1, 2] :: bytes)"
  let ?u = "egress_turn ?E 0 0 (eg_udp S)"
  let ?v = "?u\<lparr>us_caster := snd (publish demo_config 1 ''BASE-1'' ?f (us_caster ?u))\<rparr>"
  note t = witness_turn [OF S(2,6,8), of ?E]
  have r1: "reach fresh_egress (witness_step token) (S\<lparr>eg_udp := ?u\<rparr>)"
    by (rule reach_step [OF S(1)], rule egress_step.egress) (simp add: S(5))
  let ?S1 = "S\<lparr>eg_udp := ?u\<rparr>" and ?S2 = "S\<lparr>eg_udp := ?v\<rparr>"
  have "witness_step token ?S1 (?S1\<lparr>eg_udp := (eg_udp ?S1)\<lparr>us_caster := snd (publish demo_config 1 ''BASE-1'' ?f (us_caster (eg_udp ?S1)))\<rparr>\<rparr>)"
    by (rule egress_step.caster) (rule caster_step.publish)
  with r1 have r2: "reach fresh_egress (witness_step token) ?S2" by (simp add: reach_step)
  have "witness_step token ?S2 (?S2\<lparr>eg_udp := egress_turn ?E 0 0 (eg_udp ?S2)\<rparr>)"
    by (rule egress_step.egress) (simp add: t(5) S(5))
  with r2 have r3: "reach fresh_egress (witness_step token) (S\<lparr>eg_udp := egress_turn ?E 0 0 ?v\<rparr>)" by (simp add: reach_step)
  have sent: "us_sent (egress_turn ?E 0 0 ?v) = us_sent ?u @ [(ss_addr (us_objects ?u 0),
       \<lparr>dg_version = PROTOCOL_VERSION, dg_session_id = ss_session_id (us_objects ?u 0), dg_seq = ss_seq (us_objects ?u 0),
        dg_body = Correction (ue_encode_correction ?E 0 ''BASE-1'' (snd ?f)) (signature_of ?E (ue_encode_correction ?E 0 ''BASE-1'' (snd ?f)))\<rparr>)]"
    by (rule published_chunk_is_sent [OF t(6,7) _ t(1) _ _ t(8,9)])
       (simp_all add: t S new_subscriber_def witness_env_fits)
  have "\<exists>a d payload signature. (a, d) \<in> set (us_sent (egress_turn ?E 0 0 ?v)) \<and> dg_body d = Correction payload signature"
    unfolding sent by (intro exI conjI) (rule in_set_conv_decomp [THEN iffD2], blast, simp)
  then show ?thesis using r3 by (intro exI [of _ token] exI [of _ "S\<lparr>eg_udp := egress_turn ?E 0 0 ?v\<rparr>"]) simp
qed


end
