(* ===== verification/Spec2Isabelle.thy ===== *)
theory Spec2Isabelle
  imports Caster UdpEgress NtripPut NtripRead RtcmRoutes Onboard Metrics Collector Bearer Broker Here4Link Crypto Service Boot Display Websockets HttpUtil UdpService
begin

text \<open>
  A model of corshub, a caster for GNSS corrections. Base stations push RTCM frames over HTTP (NTRIP
  version 2), rovers receive them over HTTP or, after asking for a session token, over UDP. Passwords
  and registrations live in a registry that Open Policy Agent serves with the policies of the
  repository; a bot fills the registry with password hashes, a client on a Here4 receiver is the
  reference base station.

  \<^bold>\<open>How the parts interact.\<close> A PUT handler asks the policy, registers its mountpoint with the caster
  and hands every chunk of its body to the transport of that mountpoint and to the queue of the
  quality worker. A GET handler asks the policy, subscribes to the transport and writes what its
  queue yields, while a second task reads positions from the request body. The UDP server honours the
  tokens of the bootstrap route; each of its sessions has a task with a subscription of its own. The
  reaper unregisters mountpoints that fell silent; the metrics collector samples the caster. All of
  them run on one event loop: a handler is cut where it awaits, and everything between two awaits is
  one step. Claims about concurrency are claims about all interleavings of such steps.

  \<^bold>\<open>Theories and sources\<close> (paths below \<open>src/src/corshub\<close> unless they begin with \<open>src/\<close>).

  Foundations:
  \<^item> \<open>CorsPrelude\<close>: bytes, dictionaries in order of insertion, errors as sums, bounded windows, metric
    updates as values, reachable states, the locales \<open>invariant_system\<close> and \<open>simulation\<close>.
  \<^item> \<open>PyFloat\<close>, \<open>PyText\<close>, \<open>Base64\<close>: what the program uses of Python's \<open>float\<close>, \<open>math\<close>, \<open>str\<close>, \<open>int\<close>
    and \<open>base64\<close>.

  Broker core (\<open>ntrip/v2/\<close>):
  \<^item> \<open>RtcmFraming\<close>: \<open>_split_rtcm_frames\<close> and the carry-over between chunks (\<open>caster.py\<close>).
  \<^item> \<open>Transport\<close>: \<open>QueueTransport\<close> and its subscribers (\<open>transport.py\<close>), under the locale
    \<open>transport_contract\<close>.
  \<^item> \<open>NtripHeaders\<close>, \<open>Mountpoint\<close>, \<open>Sourcetable\<close>: the headers \<open>Ntrip-STR\<close> and \<open>Ntrip-GGA\<close>, the distance,
    the dataclass and its validation, the table and how a client reads it back.
  \<^item> \<open>Quality\<close>, \<open>Observe\<close>: the windows of signal values and \<open>_observe_rtcm_quality\<close>.
  \<^item> \<open>Caster\<close>: \<open>NTRIPCaster\<close>: the record \<open>caster\<close> has one field per attribute, transports live in a store
    because handlers hold on to them after they were replaced. \<open>caster_step\<close> interleaves its operations.
  \<^item> \<open>Broker\<close>: what the caster promises as a whole, as an abstract broker of numbered sessions with
    bounded backlogs, and the simulation of every history of the caster by it.

  Routes and authorization:
  \<^item> \<open>Env\<close>, \<open>RateLimit\<close>, \<open>OpaAuth\<close>: \<open>env.py\<close>, \<open>http/ratelimit.py\<close>, \<open>opa/client.py\<close> with
    \<open>authenticate_rover\<close> and \<open>authenticate_base_station\<close> and the policies \<open>src/src/opa/policies\<close>.
  \<^item> \<open>HttpGate\<close>: what the handlers share: request, \<open>app.ctx\<close>, failures, steps that may raise, the throttle.
  \<^item> \<open>NtripPut\<close>, \<open>NtripRead\<close>, \<open>NearestBase\<close>: the handlers of \<open>services/v1/ntrip\<close>. The two selection loops
    for the nearest base are instances of the locale \<open>base_selector\<close>.
  \<^item> \<open>Service\<close>: any number of PUT and GET handlers interleaved with the background tasks.
  \<^item> \<open>Tokens\<close>, \<open>SigningKeys\<close>, \<open>RtcmRoutes\<close>, \<open>UdpEgress\<close>: \<open>rtcm/\<close> and \<open>services/v1/rtcm\<close>; \<open>UdpService\<close> interleaves
    the bootstrap with the UDP server on one caster.
  \<^item> \<open>Boot\<close>: blueprints and versions of the services, both entry points (\<open>bin/\<close>), the shared client session
    (\<open>http/sessions.py\<close>), start and stop, and the handler a path reaches.
  \<^item> \<open>Bearer\<close>, \<open>Crypto\<close>, \<open>Websockets\<close>, \<open>HttpUtil\<close>: \<open>jwt.py\<close>, \<open>oidc/\<close>, \<open>http/middleware.py\<close>, \<open>crypto/\<close>,
    \<open>http/websocket.py\<close>, \<open>http/cookies.py\<close>, \<open>http/utils.py\<close>, and the constructor of \<open>http/security.py\<close>.
  \<^item> \<open>Metrics\<close>, \<open>Collector\<close>: the declared families, which updates they accept, and the scrape (\<open>metrics.py\<close>).

  Around the server:
  \<^item> \<open>Here4\<close>, \<open>Here4Link\<close>, \<open>Display\<close>: \<open>src/tools/here4-base-caster.py\<close>: its loops, its request and what the
    server does with it, its terminal display.
  \<^item> \<open>Onboard\<close>: \<open>src/.github/scripts/onboard.py\<close>, a whole run of the bot.
\<close>

text \<open>
  \<^bold>\<open>What the lemmas show.\<close>

  \<^item> End to end. \<open>Service\<close>: whatever a rover was written over HTTP was published, after it subscribed, to
    the mountpoint the policy admitted it to, by a station the policy entitled. \<open>UdpService\<close>: every
    correction sent over UDP goes to a rover the policy admitted to the mountpoint of its token.
    \<open>Here4Link\<close>: the request of the reference client is admitted and registered as described.
  \<^item> Refinement. \<open>Broker\<close>: the caster implements the abstract broker; hence a rover reads a subsequence of
    what is published to its mountpoint, and all of it while it keeps up.
  \<^item> Invariants by rule induction for every step relation: \<open>tq_ok\<close>, \<open>caster_ok\<close>, \<open>udp_ok\<close>, \<open>service_ok\<close>,
    \<open>egress_ok\<close>, \<open>gnss_ok\<close>, \<open>ws_ok\<close>. Each has one preservation lemma per operation and an interpretation of
    \<open>invariant_system\<close>.
  \<^item> Functional behaviour on every branch: who is admitted and with what status each refusal ends, for the
    routes, the policies, the bearer tokens and the bot; which path reaches which handler.
  \<^item> Independence of chunking: framing, quality and positions do not depend on how the network cut the
    bytes; round trips of headers, source table, keys and tokens; bounds of queues, windows, attempts and
    ages; the type of every metric update.

  \<^bold>\<open>Bounds and fuel.\<close> The splitter's index loop is \<open>split_loop\<close> with fuel; every iteration moves the index, so
  the length of the buffer plus one is enough, and \<open>splitter_loop_returns\<close> states it. All other
  recursions are structural or come with a measure; every function of the model is total. Sequence numbers wrap at \<open>2 ^ 32\<close>, session ids are 64-bit words. Queue sizes,
  window lengths and ages are those of the source.

  \<^bold>\<open>Numbers and text.\<close> Finite floats are exact reals, with the infinities and NaN kept apart, because a
  position from the network can be either and comparisons behave differently on them. Rounding errors of
  floating point are not modelled. Text is ASCII.

  \<^bold>\<open>Parameters.\<close> Code that is not in the repository is an argument of the definitions that use it, and what
  is relied on is a named hypothesis with a witness: OPA's transport and the parsing of timestamps
  (the policies themselves are translated), bcrypt, PyJWT (\<open>decodes_own_tokens\<close>), key and hash functions,
  pyrtcm and pynmeagps, the caches of cachetools, Sanic's router (\<open>sanic_router\<close>) and credentials, aiohttp,
  protobuf, pyubx2 and the serial ports, rich, git, sops, age and the GitHub interface. That nobody
  without the secret can make a token that verifies is the guard of the datagram step of \<open>UdpService\<close>.

  \<^bold>\<open>Not modelled.\<close> Generated protobuf code (\<open>rtcm/v1/rtcm_udp_pb2.py\<close>), the serializer and the logging setup
  (\<open>json.py\<close>, \<open>logging.py\<close>: calls of libraries), constants read at import, the script of the documentation
  build. The refresh loop of the key-set manager in \<open>http/security.py\<close> is left out because its constructor
  always raises. Log messages are left out throughout, except those of the base client, which are what its
  display shows. Time is an argument of each step; the length of a pause is modelled only where it is
  computed (the retries of the base client, keep-alive and expiry times). Cancellation arrives at the
  awaits where the source handles it; the end of the whole process is not a step.
\<close>

end
